(* ===== verification/Prelude.thy ===== *)
theory Prelude
  imports Complex_Main "HOL-Library.List_Lexorder" "HOL-Library.Char_ord" "HOL-Library.Sublist"
    "HOL-Library.Multiset"
begin

text \<open>
  The vocabulary every other theory of the development uses: Python's exceptions as values,
  computations that thread a state and may raise, the locales for "every operation keeps the
  invariant", "every operation adds its weight to a counter" and "a delay that backs off up to
  a cap", and a few lemmas on lists of consecutive sequence numbers.
\<close>

section \<open>Exceptions as values\<close>

text \<open>
  One constructor per exception class the program raises or distinguishes. Everything the
  program only ever catches as \<open>Exception\<close> is \<open>OtherError\<close>.
\<close>

type_synonym time = int \<comment> \<open>microseconds since the epoch, UTC\<close>

datatype fval = Fin rat | PosInf | NegInf | NaN \<comment> \<open>the values of a float\<close>

datatype exn =
    RuntimeError string
  | ValueError string
  | TypeError string
  | KeyError string
  | AttributeError string
  | TimeoutError string
  | IntegrityError
  | LocalRuleEvaluationError string string
  | HubSessionInvalidError string string
  | HubLeaseConflictError "fval option" "time option"
  | HubActivationError string int bool
  | TransportError string
  | HTTPStatusError int
  | OtherError string
  | NoFuel \<comment> \<open>no exception of the program: a loop of the model ran out of rounds\<close>

type_synonym 'a res = "exn + 'a"

definition rbind :: "'a res \<Rightarrow> ('a \<Rightarrow> 'b res) \<Rightarrow> 'b res" where
  "rbind r f = (case r of Inl e \<Rightarrow> Inl e | Inr a \<Rightarrow> f a)"

lemma rbind_simps [simp]:
  "rbind (Inl e) f = Inl e"
  "rbind (Inr a) f = f a"
  by (simp_all add: rbind_def)

lemma rbind_Inr_iff: "rbind r f = Inr b \<longleftrightarrow> (\<exists>a. r = Inr a \<and> f a = Inr b)"
  by (auto simp: rbind_def split: sum.splits)

lemma rbind_Inl_iff: "rbind r f = Inl e \<longleftrightarrow> r = Inl e \<or> (\<exists>a. r = Inr a \<and> f a = Inl e)"
  by (auto simp: rbind_def split: sum.splits)

text \<open>Mapping a fallible function over a list: the first error, in list order, wins.\<close>

fun rmap :: "('a \<Rightarrow> 'b res) \<Rightarrow> 'a list \<Rightarrow> 'b list res" where
  "rmap f [] = Inr []"
| "rmap f (x # xs) = rbind (f x) (\<lambda>y. rbind (rmap f xs) (\<lambda>ys. Inr (y # ys)))"

lemma rmap_cong [fundef_cong]:
  "xs = ys \<Longrightarrow> (\<And>x. x \<in> set ys \<Longrightarrow> f x = g x) \<Longrightarrow> rmap f xs = rmap g ys"
  by (induction xs arbitrary: ys) (auto simp: rbind_def split: sum.splits)

lemma rmap_Inr_iff:
  "rmap f xs = Inr ys \<longleftrightarrow> list_all2 (\<lambda>x y. f x = Inr y) xs ys"
proof (induction xs arbitrary: ys)
  case Nil
  show ?case by auto
next
  case (Cons x xs)
  then show ?case by (cases ys) (auto simp: rbind_Inr_iff)
qed

lemma rmap_Inr_length: "rmap f xs = Inr ys \<Longrightarrow> length ys = length xs"
  by (auto simp: rmap_Inr_iff dest: list_all2_lengthD)

lemma rmap_Inr_all:
  "rmap f xs = Inr ys \<Longrightarrow> x \<in> set xs \<Longrightarrow> \<exists>y \<in> set ys. f x = Inr y"
  by (auto simp: rmap_Inr_iff in_set_conv_nth list_all2_conv_all_nth)

section \<open>Computations with a state and exceptions\<close>

text \<open>
  A method of the program is a function from the state to a result and the next state; the
  state survives an exception, as Python's objects do.
\<close>

type_synonym ('s, 'a) eff = "'s \<Rightarrow> 'a res \<times> 's"

named_theorems eff_simps \<open>unfolding of the state-and-exception combinators\<close>

definition ret :: "'a \<Rightarrow> ('s, 'a) eff" where
  "ret a = (\<lambda>s. (Inr a, s))"

definition throw :: "exn \<Rightarrow> ('s, 'a) eff" where
  "throw e = (\<lambda>s. (Inl e, s))"

definition seq :: "('s, 'a) eff \<Rightarrow> ('a \<Rightarrow> ('s, 'b) eff) \<Rightarrow> ('s, 'b) eff" where
  "seq m f = (\<lambda>s. case m s of (Inl e, s') \<Rightarrow> (Inl e, s') | (Inr a, s') \<Rightarrow> f a s')"

definition catch :: "('s, 'a) eff \<Rightarrow> (exn \<Rightarrow> ('s, 'a) eff) \<Rightarrow> ('s, 'a) eff" where
  "catch m h = (\<lambda>s. case m s of (Inl e, s') \<Rightarrow> h e s' | (Inr a, s') \<Rightarrow> (Inr a, s'))"

definition asks :: "('s \<Rightarrow> 'a) \<Rightarrow> ('s, 'a) eff" where
  "asks f = (\<lambda>s. (Inr (f s), s))"

definition modify :: "('s \<Rightarrow> 's) \<Rightarrow> ('s, unit) eff" where
  "modify f = (\<lambda>s. (Inr (), f s))"

definition lift_res :: "'a res \<Rightarrow> ('s, 'a) eff" where
  "lift_res r = (\<lambda>s. (r, s))"

text \<open>\<open>try: m; except Exception as e: h(e)\<close>; running out of fuel cannot be caught.\<close>

definition try_except :: "('s, 'a) eff \<Rightarrow> (exn \<Rightarrow> ('s, 'a) eff) \<Rightarrow> ('s, 'a) eff" where
  "try_except m h = catch m (\<lambda>e. if e = NoFuel then throw e else h e)"

text \<open>A computation on a part of the state\<close>

definition zoom :: "('s \<Rightarrow> 't) \<Rightarrow> ('t \<Rightarrow> 's \<Rightarrow> 's) \<Rightarrow> ('t, 'a) eff \<Rightarrow> ('s, 'a) eff" where
  "zoom get put m s = (case m (get s) of (r, t) \<Rightarrow> (r, put t s))"

lemma eff_unfold [eff_simps]:
  "ret a s = (Inr a, s)"
  "throw e s = (Inl e, s)"
  "seq m f s = (case m s of (Inl e, s') \<Rightarrow> (Inl e, s') | (Inr a, s') \<Rightarrow> f a s')"
  "catch m h s = (case m s of (Inl e, s') \<Rightarrow> h e s' | (Inr b, s') \<Rightarrow> (Inr b, s'))"
  "asks g s = (Inr (g s), s)"
  "modify k s = (Inr (), k s)"
  "lift_res r s = (r, s)"
  by (simp_all add: ret_def throw_def seq_def catch_def asks_def modify_def lift_res_def)

lemma seq_lift_res [simp]:
  "seq (lift_res (Inr a)) f = f a"
  "seq (lift_res (Inl e)) f = throw e"
  by (simp_all add: seq_def lift_res_def throw_def)

lemma seq_Inl: "m s = (Inl e, s') \<Longrightarrow> seq m f s = (Inl e, s')"
  by (simp add: seq_def)

lemma seq_Inr: "m s = (Inr a, s') \<Longrightarrow> seq m f s = f a s'"
  by (simp add: seq_def)

text \<open>A computation that returns went through its parts.\<close>

lemma seq_InrE:
  assumes "seq m f s = (Inr b, s')"
  obtains a s1 where "m s = (Inr a, s1)" "f a s1 = (Inr b, s')"
  using assms by (cases "m s") (auto simp: seq_def split: sum.splits)

lemma seq_InlE:
  assumes "seq m f s = (Inl e, s')"
  obtains "m s = (Inl e, s')" | a s1 where "m s = (Inr a, s1)" "f a s1 = (Inl e, s')"
  using assms by (cases "m s") (auto simp: seq_def split: sum.splits)

lemma catch_InrE:
  assumes "catch m h s = (Inr b, s')"
  obtains "m s = (Inr b, s')" | e s1 where "m s = (Inl e, s1)" "h e s1 = (Inr b, s')"
  using assms by (cases "m s") (auto simp: catch_def split: sum.splits)

lemma try_InrE:
  assumes "try_except m h s = (Inr b, s')"
  obtains "m s = (Inr b, s')" | e s1 where "m s = (Inl e, s1)" "h e s1 = (Inr b, s')"
  using assms unfolding try_except_def by (elim catch_InrE) (auto simp: throw_def split: if_splits)

text \<open>
  A frame condition: however a computation ends, the state it leaves is related to the one it
  met. For a reflexive and transitive relation, such computations compose.
\<close>

definition framed :: "('s \<Rightarrow> 's \<Rightarrow> bool) \<Rightarrow> ('s, 'a) eff \<Rightarrow> bool" where
  "framed R m \<longleftrightarrow> (\<forall>s. R s (snd (m s)))"

lemma framedD: "framed R m \<Longrightarrow> m s = (r, s') \<Longrightarrow> R s s'"
  unfolding framed_def by (metis snd_conv)

lemma framedI: "(\<And>s. R s (snd (m s))) \<Longrightarrow> framed R m"
  by (simp add: framed_def)

text \<open>A part's frame condition carries over to the whole.\<close>

lemma framed_zoom:
  "framed Q m \<Longrightarrow> (\<And>s t. Q (get s) t \<Longrightarrow> R s (put t s)) \<Longrightarrow> framed R (zoom get put m)"
  by (auto simp: framed_def zoom_def split: prod.split) (metis snd_conv)

locale frame_condition =
  fixes R :: "'s \<Rightarrow> 's \<Rightarrow> bool"
  assumes refl: "R s s"
    and trans: "R s t \<Longrightarrow> R t u \<Longrightarrow> R s u"
begin

lemma framed_basic: "framed R (ret a)" "framed R (throw e)" "framed R (lift_res r)" "framed R (asks f)"
  by (simp_all add: framed_def eff_simps refl)

lemma framed_seq: "framed R m \<Longrightarrow> (\<And>a. framed R (f a)) \<Longrightarrow> framed R (seq m f)"
  unfolding framed_def seq_def by (auto split: prod.split sum.split) (metis snd_conv trans)+

lemma framed_catch: "framed R m \<Longrightarrow> (\<And>e. framed R (h e)) \<Longrightarrow> framed R (catch m h)"
  unfolding framed_def catch_def by (auto split: prod.split sum.split) (metis snd_conv trans)+

lemma framed_try: "framed R m \<Longrightarrow> (\<And>e. framed R (h e)) \<Longrightarrow> framed R (try_except m h)"
  unfolding try_except_def by (intro framed_catch) (auto simp: framed_basic)

lemma framed_lift: "(\<And>a. r = Inr a \<Longrightarrow> framed R (f a)) \<Longrightarrow> framed R (seq (lift_res r) f)"
  by (cases r) (auto simp: framed_def eff_simps refl)

lemma framed_if: "framed R m \<Longrightarrow> framed R k \<Longrightarrow> framed R (if b then m else k)"
  by simp

end

section \<open>Shared contracts\<close>

text \<open>
  Operations that share an invariant: each permitted operation keeps it, so any run of
  permitted operations does.
\<close>

locale invariant_system =
  fixes step :: "'op \<Rightarrow> 's \<Rightarrow> 's"
    and permitted :: "'op \<Rightarrow> bool"
    and inv :: "'s \<Rightarrow> bool"
  assumes step_inv: "permitted op \<Longrightarrow> inv s \<Longrightarrow> inv (step op s)"
begin

lemma run_inv: "list_all permitted ops \<Longrightarrow> inv s \<Longrightarrow> inv (fold step ops s)"
  by (induction ops arbitrary: s) (auto intro: step_inv)

lemma run_prefix_inv:
  "list_all permitted ops \<Longrightarrow> inv s \<Longrightarrow> inv (fold step (take n ops) s)"
  by (rule run_inv) (auto simp: list_all_iff dest: in_set_takeD)

end

text \<open>
  Operations that move a quantity by a known amount: a run moves it by the sum of the amounts,
  each taken in the state its operation meets.
\<close>

primrec run_weight :: "('op \<Rightarrow> 's \<Rightarrow> 's) \<Rightarrow> ('op \<Rightarrow> 's \<Rightarrow> int) \<Rightarrow> 'op list \<Rightarrow> 's \<Rightarrow> int" where
  "run_weight step weight [] s = 0"
| "run_weight step weight (op # ops) s = weight op s + run_weight step weight ops (step op s)"

lemma run_weight_const: "run_weight step (\<lambda>op _. w op) ops s = sum_list (map w ops)"
  by (induction ops arbitrary: s) auto

lemma run_weight_minus:
  "run_weight step (\<lambda>op s. v op s - w op s) ops s =
     run_weight step v ops s - run_weight step w ops s"
  by (induction ops arbitrary: s) auto

lemma run_weight_nonneg:
  "(\<And>op s. 0 \<le> w op s) \<Longrightarrow> 0 \<le> run_weight step w ops s"
  by (induction ops arbitrary: s) (auto simp: add_nonneg_nonneg)

locale weighted_system = invariant_system +
  fixes level :: "'s \<Rightarrow> int"
    and weight :: "'op \<Rightarrow> 's \<Rightarrow> int"
  assumes step_level: "permitted op \<Longrightarrow> inv s \<Longrightarrow> level (step op s) = level s + weight op s"
begin

lemma run_level:
  "list_all permitted ops \<Longrightarrow> inv s \<Longrightarrow>
     level (fold step ops s) = level s + run_weight step weight ops s"
  by (induction ops arbitrary: s) (auto simp: step_level step_inv)

end

text \<open>
  A refinement: an abstraction takes each permitted operation, where the invariant holds, to the
  specification's operation of the same name, so it takes runs to runs.
\<close>

locale simulation = invariant_system +
  fixes spec_step :: "'op \<Rightarrow> 'a \<Rightarrow> 'a"
    and abs :: "'s \<Rightarrow> 'a"
  assumes step_abs: "permitted op \<Longrightarrow> inv s \<Longrightarrow> abs (step op s) = spec_step op (abs s)"
begin

lemma run_abs:
  "list_all permitted ops \<Longrightarrow> inv s \<Longrightarrow> abs (fold step ops s) = fold spec_step ops (abs s)"
  by (induction ops arbitrary: s) (auto simp: step_abs step_inv)

end

text \<open>
  A delay that doubles up to a cap: the shape of every wait of the connector.
\<close>

locale capped_doubling =
  fixes next_delay :: "real \<Rightarrow> real"
    and cap :: real
  assumes next_delay_eq: "next_delay d = min (d * 2) cap"
begin

lemma delay_iterate: "0 < cap \<Longrightarrow> (next_delay ^^ Suc n) d = min (d * 2 ^ Suc n) cap"
proof (induction n)
  case 0
  show ?case by (simp add: next_delay_eq)
next
  case (Suc n)
  have "(next_delay ^^ Suc (Suc n)) d = next_delay ((next_delay ^^ Suc n) d)"
    by simp
  also have "\<dots> = min (min (d * 2 ^ Suc n) cap * 2) cap"
    by (simp only: Suc.IH [OF Suc.prems] next_delay_eq [of "min (d * 2 ^ Suc n) cap"])
  also have "\<dots> = min (d * 2 ^ Suc (Suc n)) cap"
    using Suc.prems by (simp add: min_def)
  finally show ?case .
qed

lemma delay_at_least: "0 < cap \<Longrightarrow> low \<le> d \<Longrightarrow> low \<le> cap \<Longrightarrow> 0 \<le> low \<Longrightarrow> low \<le> next_delay d"
  by (simp add: next_delay_eq)

end

section \<open>Consecutive numbers\<close>

lemma sort_eq_upto: "distinct xs \<Longrightarrow> set xs = {i..j} \<Longrightarrow> sort xs = [i..j]" for i :: int
  by (rule sorted_distinct_set_unique) simp_all

lemma map_sort_key: "map f (sort_key f xs) = sort (map f xs)"
  by (rule properties_for_sort [symmetric]) simp_all

lemma insort_key_snoc: "f a \<le> f x \<Longrightarrow> insort_key f a (ys @ [x]) = insort_key f a ys @ [x]"
  by (induction ys) auto

text \<open>The sort is stable: a last element that nothing exceeds stays last.\<close>

lemma sort_key_snoc: "\<forall>y \<in> set xs. f y \<le> f x \<Longrightarrow> sort_key f (xs @ [x]) = sort_key f xs @ [x]"
  by (induction xs) (simp_all add: insort_key_snoc)

text \<open>As many distinct numbers as their range has: they are all of it.\<close>

lemma full_range:
  fixes xs :: "int list"
  assumes "distinct xs" "xs \<noteq> []" "int (length xs) = Max (set xs) - Min (set xs) + 1"
  shows "set xs = {Min (set xs)..Max (set xs)}"
proof (rule card_subset_eq)
  show "set xs \<subseteq> {Min (set xs)..Max (set xs)}" by auto
  have "card (set xs) = length xs" using assms(1) by (rule distinct_card)
  then show "card (set xs) = card {Min (set xs)..Max (set xs)}" using assms(3) by simp
qed simp

lemma list_ex_map: "list_ex P (map f xs) = list_ex (\<lambda>x. P (f x)) xs"
  by (induction xs) auto

lemma map_filter_key: "map f (filter (\<lambda>x. P (f x)) xs) = filter P (map f xs)"
  by (induction xs) auto

lemma sum_list_filter_le:
  "list_all (\<lambda>x. 0 \<le> f x) xs \<Longrightarrow> sum_list (map f (filter P xs)) \<le> sum_list (map f xs)"
  for f :: "'a \<Rightarrow> int"
  by (induction xs) auto

section \<open>SQL\<close>

text \<open>\<open>LIMIT n\<close>: a negative number is no limit in SQLite.\<close>

definition sql_limit :: "int \<Rightarrow> 'a list \<Rightarrow> 'a list" where
  "sql_limit n xs = (if n < 0 then xs else take (nat n) xs)"

lemma set_sql_limit: "set (sql_limit n xs) \<subseteq> set xs"
  by (auto simp: sql_limit_def dest: in_set_takeD)

text \<open>
  An action that is done at most once: doing it claims its key, a claimed key is not done again,
  and \<open>kept\<close> operations give up no claim. A run of such operations does each key at most once,
  and none that was claimed at its start.
\<close>

primrec run_done :: "('op \<Rightarrow> 's \<Rightarrow> 's) \<Rightarrow> ('op \<Rightarrow> 's \<Rightarrow> 'k list) \<Rightarrow> 'op list \<Rightarrow> 's \<Rightarrow> 'k list" where
  "run_done step does [] s = []"
| "run_done step does (op # ops) s = does op s @ run_done step does ops (step op s)"

primrec run_kept :: "('op \<Rightarrow> 's \<Rightarrow> 's) \<Rightarrow> ('s \<Rightarrow> 'k set) \<Rightarrow> 'op list \<Rightarrow> 's \<Rightarrow> bool" where
  "run_kept step claimed [] s = True"
| "run_kept step claimed (op # ops) s =
     (claimed s \<subseteq> claimed (step op s) \<and> run_kept step claimed ops (step op s))"

locale at_most_once =
  fixes step :: "'op \<Rightarrow> 's \<Rightarrow> 's"
    and does :: "'op \<Rightarrow> 's \<Rightarrow> 'k list"
    and claimed :: "'s \<Rightarrow> 'k set"
    and inv :: "'s \<Rightarrow> bool"
  assumes does_distinct: "inv s \<Longrightarrow> distinct (does op s)"
    and does_unclaimed: "inv s \<Longrightarrow> k \<in> set (does op s) \<Longrightarrow> k \<notin> claimed s"
    and does_claims: "inv s \<Longrightarrow> claimed s \<subseteq> claimed (step op s) \<Longrightarrow> k \<in> set (does op s) \<Longrightarrow> k \<in> claimed (step op s)"
    and step_inv: "inv s \<Longrightarrow> inv (step op s)"
begin

lemma run_avoids_claimed:
  "inv s \<Longrightarrow> run_kept step claimed ops s \<Longrightarrow> set (run_done step does ops s) \<inter> claimed s = {}"
proof (induction ops arbitrary: s)
  case (Cons op ops)
  then have "set (run_done step does ops (step op s)) \<inter> claimed (step op s) = {}"
    by (simp add: step_inv)
  with Cons.prems does_unclaimed [OF Cons.prems(1)] show ?case by auto
qed simp

lemma run_done_distinct:
  "inv s \<Longrightarrow> run_kept step claimed ops s \<Longrightarrow> distinct (run_done step does ops s)"
proof (induction ops arbitrary: s)
  case (Cons op ops)
  then have "set (run_done step does ops (step op s)) \<inter> claimed (step op s) = {}"
    by (intro run_avoids_claimed) (simp_all add: step_inv)
  moreover have "set (does op s) \<subseteq> claimed (step op s)"
    using Cons.prems by (auto intro: does_claims)
  ultimately show ?case using Cons by (auto simp: does_distinct step_inv)
qed simp

end

end
