(* ===== verification/Py_Values.thy ===== *)
theory Py_Values
  imports Prelude
begin

text \<open>
  The Python values the program handles: what \<open>json.loads\<close> returns. A dict is an association
  list in insertion order with string keys; a float carries its exact value and the text
  \<open>float.__repr__\<close> prints for it, so no definition has to redo the decimal conversion of the
  interpreter. A Python \<open>str\<close> is a HOL string, each \<open>char\<close> one code point below 256.
\<close>

datatype pyval =
    PNone
  | PBool bool
  | PInt int
  | PFloat fval string
  | PStr string
  | PList "pyval list"
  | PDict "(string \<times> pyval) list"

type_synonym pydict = "(string \<times> pyval) list"

section \<open>Truth, \<open>or\<close>, dict access\<close>

definition fval_zero :: "fval \<Rightarrow> bool" where
  "fval_zero x = (x = Fin 0)"

fun truthy :: "pyval \<Rightarrow> bool" where
  "truthy PNone = False"
| "truthy (PBool b) = b"
| "truthy (PInt i) = (i \<noteq> 0)"
| "truthy (PFloat x _) = (\<not> fval_zero x)"
| "truthy (PStr s) = (s \<noteq> [])"
| "truthy (PList xs) = (xs \<noteq> [])"
| "truthy (PDict d) = (d \<noteq> [])"

text \<open>\<open>a or b\<close>\<close>

definition py_or :: "pyval \<Rightarrow> pyval \<Rightarrow> pyval" where
  "py_or a b = (if truthy a then a else b)"

text \<open>\<open>d.get(k)\<close> (the value \<open>None\<close> and a missing key look the same), \<open>k in d\<close>, \<open>d[k]\<close>\<close>

definition dget :: "pydict \<Rightarrow> string \<Rightarrow> pyval" where
  "dget d k = (case map_of d k of None \<Rightarrow> PNone | Some v \<Rightarrow> v)"

definition dhas :: "pydict \<Rightarrow> string \<Rightarrow> bool" where
  "dhas d k = (map_of d k \<noteq> None)"

definition dindex :: "pydict \<Rightarrow> string \<Rightarrow> pyval res" where
  "dindex d k = (case map_of d k of None \<Rightarrow> Inl (KeyError k) | Some v \<Rightarrow> Inr v)"

text \<open>\<open>d[k] = v\<close> keeps the position of an existing key and appends a new one.\<close>

fun dset :: "pydict \<Rightarrow> string \<Rightarrow> pyval \<Rightarrow> pydict" where
  "dset [] k v = [(k, v)]"
| "dset ((k', v') # d) k v = (if k' = k then (k, v) # d else (k', v') # dset d k v)"

text \<open>\<open>{**a, **b}\<close>\<close>

definition dmerge :: "pydict \<Rightarrow> pydict \<Rightarrow> pydict" where
  "dmerge a b = fold (\<lambda>(k, v) d. dset d k v) b a"

lemma map_of_dset [simp]: "map_of (dset d k v) = (map_of d)(k \<mapsto> v)"
  by (induction d k v rule: dset.induct) (auto simp: fun_eq_iff)

lemma fst_dset: "fst ` set (dset d k v) = insert k (fst ` set d)"
  by (induction d k v rule: dset.induct) auto

lemma distinct_dset: "distinct (map fst d) \<Longrightarrow> distinct (map fst (dset d k v))"
proof (induction d k v rule: dset.induct)
  case (2 k' v' d k v)
  then show ?case using fst_dset [of d k v] by auto
qed simp

lemma distinct_dmerge: "distinct (map fst a) \<Longrightarrow> distinct (map fst (dmerge a b))"
  unfolding dmerge_def by (induction b arbitrary: a) (auto simp: distinct_dset)

lemma map_of_dmerge:
  "distinct (map fst b) \<Longrightarrow> map_of (dmerge a b) = map_of a ++ map_of b"
  unfolding dmerge_def
proof (induction b arbitrary: a)
  case (Cons p b)
  obtain k v where p: "p = (k, v)" by (cases p)
  from Cons.prems p have fresh: "map_of b k = None"
    by (auto simp: map_of_eq_None_iff)
  from Cons p show ?case
    by (auto simp: map_add_def fresh fun_eq_iff split: option.splits)
qed simp

lemma dget_dset [simp]: "dget (dset d k v) k' = (if k' = k then v else dget d k')"
  by (simp add: dget_def)

lemma dget_Cons [simp]:
  "dget [] k = PNone"
  "dget ((k', v) # d) k = (if k' = k then v else dget d k)"
  by (simp_all add: dget_def)

lemma dhas_Cons [simp]:
  "\<not> dhas [] k"
  "dhas ((k', v) # d) k \<longleftrightarrow> k' = k \<or> dhas d k"
  by (auto simp: dhas_def)

lemma dindex_dget: "dindex d k = Inr v \<Longrightarrow> dget d k = v"
  by (auto simp: dindex_def dget_def split: option.splits)

text \<open>
  \<open>dict(v)\<close> of a mapping copies it and of an empty sequence is empty. Anything else is an
  error here (a non-empty sequence of pairs, which Python would also take, never reaches these
  calls as JSON the program's peers send).
\<close>

fun py_dict :: "pyval \<Rightarrow> pydict res" where
  "py_dict (PDict d) = Inr d"
| "py_dict (PList []) = Inr []"
| "py_dict (PStr []) = Inr []"
| "py_dict _ = Inl (TypeError ''dict'')"

text \<open>\<open>dict(v or {})\<close>\<close>

definition dict_or_empty :: "pyval \<Rightarrow> pydict res" where
  "dict_or_empty v = py_dict (py_or v (PDict []))"

lemma dict_or_empty_simps [simp]:
  "dict_or_empty PNone = Inr []"
  "dict_or_empty (PDict d) = Inr d"
  by (simp_all add: dict_or_empty_def py_or_def)

section \<open>Equality and order as Python has them\<close>

text \<open>
  A bool is a number: \<open>True == 1 == 1.0\<close>. Dicts compare as maps, lists element by element,
  NaN equals nothing.
\<close>

definition fval_eq :: "fval \<Rightarrow> fval \<Rightarrow> bool" where
  "fval_eq x y = (x \<noteq> NaN \<and> y \<noteq> NaN \<and> x = y)"

fun num_of :: "pyval \<Rightarrow> fval option" where
  "num_of (PBool b) = Some (Fin (if b then 1 else 0))"
| "num_of (PInt i) = Some (Fin (of_int i))"
| "num_of (PFloat x _) = Some x"
| "num_of _ = None"

fun py_eq :: "pyval \<Rightarrow> pyval \<Rightarrow> bool" and
    py_eqs :: "pyval list \<Rightarrow> pyval list \<Rightarrow> bool" and
    py_sub :: "pydict \<Rightarrow> pydict \<Rightarrow> bool" where
  "py_eq PNone v = (v = PNone)"
| "py_eq (PStr s) v = (v = PStr s)"
| "py_eq (PList xs) v = (case v of PList ys \<Rightarrow> py_eqs xs ys | _ \<Rightarrow> False)"
| "py_eq (PDict d) v = (case v of PDict e \<Rightarrow> length d = length e \<and> py_sub d e | _ \<Rightarrow> False)"
| "py_eq (PBool b) v =
     (case num_of v of None \<Rightarrow> False | Some y \<Rightarrow> fval_eq (Fin (if b then 1 else 0)) y)"
| "py_eq (PInt i) v = (case num_of v of None \<Rightarrow> False | Some y \<Rightarrow> fval_eq (Fin (of_int i)) y)"
| "py_eq (PFloat x t) v = (case num_of v of None \<Rightarrow> False | Some y \<Rightarrow> fval_eq x y)"
| "py_eqs [] ys = (ys = [])"
| "py_eqs (x # xs) ys = (case ys of [] \<Rightarrow> False | y # ys' \<Rightarrow> py_eq x y \<and> py_eqs xs ys')"
| "py_sub [] e = True"
| "py_sub ((k, v) # d) e =
     ((case map_of e k of None \<Rightarrow> False | Some w \<Rightarrow> py_eq v w) \<and> py_sub d e)"

fun fval_less :: "fval \<Rightarrow> fval \<Rightarrow> bool" where
  "fval_less NaN _ = False"
| "fval_less _ NaN = False"
| "fval_less (Fin a) (Fin b) = (a < b)"
| "fval_less (Fin _) PosInf = True"
| "fval_less NegInf (Fin _) = True"
| "fval_less NegInf PosInf = True"
| "fval_less _ _ = False"

section \<open>Text\<close>

definition is_space :: "char \<Rightarrow> bool" where
  "is_space c = (let n = of_char c :: nat in
     9 \<le> n \<and> n \<le> 13 \<or> 28 \<le> n \<and> n \<le> 32 \<or> n = 133 \<or> n = 160)"

definition strip :: "string \<Rightarrow> string" where
  "strip s = rev (dropWhile is_space (rev (dropWhile is_space s)))"

definition starts_with :: "string \<Rightarrow> string \<Rightarrow> bool" where
  "starts_with s p = prefix p s"

text \<open>\<open>s.split(c)\<close> for a one-character separator\<close>

fun split_on :: "char \<Rightarrow> string \<Rightarrow> string list" where
  "split_on c [] = [[]]"
| "split_on c (x # xs) =
     (if x = c then [] # split_on c xs
      else (case split_on c xs of [] \<Rightarrow> [[x]] | p # ps \<Rightarrow> (x # p) # ps))"

lemma split_on_nonempty [simp]: "split_on c s \<noteq> []"
  by (induction s) (auto split: list.splits)

text \<open>ASCII and Latin-1 lower case, as \<open>str.lower\<close>\<close>

definition lower_char :: "char \<Rightarrow> char" where
  "lower_char c = (let n = of_char c :: nat in
     if 65 \<le> n \<and> n \<le> 90 \<or> 192 \<le> n \<and> n \<le> 222 \<and> n \<noteq> 215 then char_of (n + 32) else c)"

definition lower :: "string \<Rightarrow> string" where
  "lower s = map lower_char s"

fun nat_digits :: "nat \<Rightarrow> string" where
  "nat_digits n = (if n < 10 then [char_of (48 + n)]
     else nat_digits (n div 10) @ [char_of (48 + n mod 10)])"

declare nat_digits.simps [simp del]

definition int_text :: "int \<Rightarrow> string" where
  "int_text i = (if i < 0 then ''-'' @ nat_digits (nat (- i)) else nat_digits (nat i))"

definition hex_digit :: "nat \<Rightarrow> char" where
  "hex_digit n = (if n < 10 then char_of (48 + n) else char_of (87 + n))"

fun join_text :: "string \<Rightarrow> string list \<Rightarrow> string" where
  "join_text sep [] = []"
| "join_text sep [x] = x"
| "join_text sep (x # y # ys) = x @ sep @ join_text sep (y # ys)"

text \<open>\<open>repr\<close> of a string: single quotes unless the text holds one and no double quote.\<close>

definition repr_char :: "char \<Rightarrow> char \<Rightarrow> string" where
  "repr_char q c = (let n = of_char c :: nat in
     if c = q \<or> n = 92 then [CHR 0x5C, c]
     else if n = 9 then [CHR 0x5C, CHR ''t'']
     else if n = 10 then [CHR 0x5C, CHR ''n'']
     else if n = 13 then [CHR 0x5C, CHR ''r'']
     else if n < 32 \<or> 127 \<le> n \<and> n \<le> 160 \<or> n = 173
       then [CHR 0x5C, CHR ''x'', hex_digit (n div 16), hex_digit (n mod 16)]
     else [c])"

definition repr_str :: "string \<Rightarrow> string" where
  "repr_str s =
     (let q = (if CHR 0x27 \<in> set s \<and> CHR 0x22 \<notin> set s then CHR 0x22 else CHR 0x27)
      in [q] @ concat (map (repr_char q) s) @ [q])"

fun py_repr :: "pyval \<Rightarrow> string" where
  "py_repr PNone = ''None''"
| "py_repr (PBool b) = (if b then ''True'' else ''False'')"
| "py_repr (PInt i) = int_text i"
| "py_repr (PFloat _ t) = t"
| "py_repr (PStr s) = repr_str s"
| "py_repr (PList xs) = ''['' @ join_text '', '' (map py_repr xs) @ '']''"
| "py_repr (PDict d) =
     [CHR 0x7B] @ join_text '', '' (map (\<lambda>(k, v). repr_str k @ '': '' @ py_repr v) d) @ [CHR 0x7D]"

text \<open>\<open>str(v)\<close>\<close>

definition py_str :: "pyval \<Rightarrow> string" where
  "py_str v = (case v of PStr s \<Rightarrow> s | _ \<Rightarrow> py_repr v)"

text \<open>\<open>str(v or "")\<close>\<close>

definition str_or_empty :: "pyval \<Rightarrow> string" where
  "str_or_empty v = py_str (py_or v (PStr []))"

lemma py_str_PStr [simp]: "py_str (PStr s) = s"
  by (simp add: py_str_def)

lemma str_or_empty_simps [simp]:
  "str_or_empty (PStr s) = s"
  "str_or_empty PNone = []"
  by (simp_all add: str_or_empty_def py_or_def)

section \<open>Conversions\<close>

text \<open>\<open>list(v)\<close> and \<open>list(v or [])\<close>, and the iterations over them\<close>

definition py_iter :: "pyval \<Rightarrow> pyval list res" where
  "py_iter v = (case v of
     PList xs \<Rightarrow> Inr xs
   | PDict d \<Rightarrow> Inr (map (\<lambda>(k, _). PStr k) d)
   | PStr s \<Rightarrow> Inr (map (\<lambda>c. PStr [c]) s)
   | _ \<Rightarrow> Inl (TypeError ''not iterable''))"

definition py_list :: "pyval \<Rightarrow> pyval list res" where
  "py_list v = py_iter (py_or v (PList []))"

text \<open>\<open>v[k]\<close> of a value read from JSON\<close>

definition vindex :: "pyval \<Rightarrow> string \<Rightarrow> pyval res" where
  "vindex v k = (case v of PDict d \<Rightarrow> dindex d k | _ \<Rightarrow> Inl (TypeError ''not subscriptable by str''))"

text \<open>\<open>int(v)\<close>: of a text, an optional sign and decimal digits, single underscores between them.\<close>

fun digits_value :: "int \<Rightarrow> bool \<Rightarrow> string \<Rightarrow> int option" where
  "digits_value acc after_digit [] = (if after_digit then Some acc else None)"
| "digits_value acc after_digit (c # cs) =
     (if CHR ''0'' \<le> c \<and> c \<le> CHR ''9'' then digits_value (10 * acc + (of_char c - 48)) True cs
      else if c = CHR ''_'' \<and> after_digit then digits_value acc False cs
      else None)"

definition int_of_text :: "string \<Rightarrow> int option" where
  "int_of_text text =
     (case strip text of
        c # cs \<Rightarrow> (if c = CHR ''-'' then map_option uminus (digits_value 0 False cs)
                  else if c = CHR ''+'' then digits_value 0 False cs
                  else digits_value 0 False (c # cs))
      | [] \<Rightarrow> None)"

definition py_int :: "pyval \<Rightarrow> int res" where
  "py_int v = (case v of
     PInt i \<Rightarrow> Inr i
   | PBool b \<Rightarrow> Inr (if b then 1 else 0)
   | PFloat (Fin r) _ \<Rightarrow> Inr (if r < 0 then - \<lfloor>- r\<rfloor> else \<lfloor>r\<rfloor>)
   | PFloat _ _ \<Rightarrow> Inl (ValueError ''cannot convert float to integer'')
   | PStr s \<Rightarrow> (case int_of_text s of Some i \<Rightarrow> Inr i
       | None \<Rightarrow> Inl (ValueError ''invalid literal for int()''))
   | _ \<Rightarrow> Inl (TypeError ''int() argument''))"

text \<open>Printing an integer and reading it back\<close>

lemma digit_char:
  assumes "d < (10::nat)"
  shows "CHR ''0'' \<le> char_of (48 + d)" "char_of (48 + d) \<le> CHR ''9''"
    "of_char (char_of (48 + d)) = (48 + int d)" "\<not> is_space (char_of (48 + d))"
    "(char_of (48 + d) :: char) \<noteq> CHR ''-''" "(char_of (48 + d) :: char) \<noteq> CHR ''+''"
proof -
  have d: "(of_char (char_of (48 + d) :: char) :: nat) = 48 + d"
    using assms by (simp add: of_char_of)
  show "CHR ''0'' \<le> char_of (48 + d)" "char_of (48 + d) \<le> CHR ''9''"
    using assms by (simp_all add: less_eq_char_def d)
  have "(of_char (char_of (48 + d) :: char) :: int) = int (of_char (char_of (48 + d) :: char))"
    by (simp add: of_char_def)
  then show "of_char (char_of (48 + d)) = (48 + int d)" using d by simp
  show "\<not> is_space (char_of (48 + d))" using assms by (simp add: is_space_def Let_def d)
  show "(char_of (48 + d) :: char) \<noteq> CHR ''-''" "(char_of (48 + d) :: char) \<noteq> CHR ''+''"
    using assms d by (auto dest!: arg_cong [where f = "of_char :: char \<Rightarrow> nat"])
qed

lemma digits_value_nat_digits:
  "digits_value acc b (nat_digits n @ cs) = digits_value (acc * 10 ^ length (nat_digits n) + int n) True cs"
proof (induction n arbitrary: acc b cs rule: nat_digits.induct)
  case (1 n)
  show ?case
  proof (cases "n < 10")
    case True
    then show ?thesis
      by (subst (1 2) nat_digits.simps) (simp add: digit_char mult.commute)
  next
    case False
    have "n mod 10 < 10" by simp
    note c = digit_char [OF this]
    have "nat_digits n = nat_digits (n div 10) @ [char_of (48 + n mod 10)]"
      using False by (subst nat_digits.simps) simp
    moreover have "int n = 10 * int (n div 10) + int (n mod 10)" by presburger
    then have "10 * (acc * 10 ^ l + int (n div 10)) + int (n mod 10) = acc * 10 ^ Suc l + int n" for l
      by simp
    ultimately show ?thesis using "1.IH" [OF False, of acc b "char_of (48 + n mod 10) # cs"] c
      by (simp del: of_nat_mod power_Suc)
  qed
qed

lemma nat_digits_chars: "list_all (\<lambda>c. \<not> is_space c \<and> c \<noteq> CHR ''-'' \<and> c \<noteq> CHR ''+'') (nat_digits n)"
proof (induction n rule: nat_digits.induct)
  case (1 n)
  then show ?case
    by (subst nat_digits.simps) (auto simp: digit_char)
qed

lemma nat_digits_nonempty [simp]: "nat_digits n \<noteq> []"
  by (subst nat_digits.simps) auto

lemma dropWhile_none: "list_all (\<lambda>c. \<not> P c) s \<Longrightarrow> dropWhile P s = s"
  by (cases s) auto

lemma strip_solid: "list_all (\<lambda>c. \<not> is_space c) s \<Longrightarrow> strip s = s"
  by (simp add: strip_def dropWhile_none list_all_rev)

lemma int_text_solid: "list_all (\<lambda>c. \<not> is_space c) (int_text i)"
  using nat_digits_chars by (auto simp: int_text_def list_all_iff is_space_def Let_def)

lemma int_of_text_int_text [simp]: "int_of_text (int_text i) = Some i"
proof (cases "i < 0")
  case True
  then show ?thesis
    using digits_value_nat_digits [of 0 False "nat (- i)" "[]"] int_text_solid [of i]
    by (simp add: int_of_text_def strip_solid) (simp add: int_text_def)
next
  case False
  then obtain c cs where d: "nat_digits (nat i) = c # cs" by (cases "nat_digits (nat i)") auto
  with nat_digits_chars [of "nat i"] have "c \<noteq> CHR ''-''" "c \<noteq> CHR ''+''" by simp_all
  then show ?thesis
    using False d digits_value_nat_digits [of 0 False "nat i" "[]"] int_text_solid [of i]
    by (simp add: int_of_text_def strip_solid) (simp add: int_text_def)
qed
text \<open>\<open>s.rstrip("/")\<close>\<close>

definition rstrip_slashes :: "string \<Rightarrow> string" where
  "rstrip_slashes s = rev (dropWhile (\<lambda>c. c = CHR ''/'') (rev s))"

text \<open>\<open>v.get\<close>: only a dict has it.\<close>

definition as_dict :: "pyval \<Rightarrow> pydict res" where
  "as_dict v = (case v of PDict d \<Rightarrow> Inr d | _ \<Rightarrow> Inl (AttributeError ''get''))"

lemma as_dict_Inr_iff [simp]: "as_dict v = Inr d \<longleftrightarrow> v = PDict d"
  by (simp add: as_dict_def split: pyval.split)

section \<open>JSON encoding\<close>

text \<open>
  \<open>json.dumps(v, sort_keys=True, separators=(",", ":"))\<close> with the default
  \<open>ensure_ascii=True\<close>: keys in code-point order, no blanks, everything outside ASCII escaped.
\<close>

definition json_char :: "char \<Rightarrow> string" where
  "json_char c = (let n = of_char c :: nat in
     if n = 34 then [CHR 0x5C, CHR 0x22]
     else if n = 92 then [CHR 0x5C, CHR 0x5C]
     else if n = 10 then [CHR 0x5C, CHR ''n'']
     else if n = 13 then [CHR 0x5C, CHR ''r'']
     else if n = 9 then [CHR 0x5C, CHR ''t'']
     else if n = 12 then [CHR 0x5C, CHR ''f'']
     else if n = 8 then [CHR 0x5C, CHR ''b'']
     else if n < 32 \<or> 127 \<le> n
       then [CHR 0x5C, CHR ''u'', CHR ''0'', CHR ''0'', hex_digit (n div 16), hex_digit (n mod 16)]
     else [c])"

definition json_str :: "string \<Rightarrow> string" where
  "json_str s = [CHR 0x22] @ concat (map json_char s) @ [CHR 0x22]"

definition json_float :: "fval \<Rightarrow> string \<Rightarrow> string" where
  "json_float x t = (case x of Fin _ \<Rightarrow> t | PosInf \<Rightarrow> ''Infinity'' | NegInf \<Rightarrow> ''-Infinity''
     | NaN \<Rightarrow> ''NaN'')"

fun json_dumps :: "pyval \<Rightarrow> string" where
  "json_dumps PNone = ''null''"
| "json_dumps (PBool b) = (if b then ''true'' else ''false'')"
| "json_dumps (PInt i) = int_text i"
| "json_dumps (PFloat x t) = json_float x t"
| "json_dumps (PStr s) = json_str s"
| "json_dumps (PList xs) = ''['' @ join_text '','' (map json_dumps xs) @ '']''"
| "json_dumps (PDict d) =
     [CHR 0x7B] @
     join_text '','' (map (\<lambda>(k, t). json_str k @ '':'' @ t)
       (sort_key fst (map (\<lambda>(k, v). (k, json_dumps v)) d)))
     @ [CHR 0x7D]"

text \<open>
  What \<open>json.loads\<close> makes of that text: the same value with every dict's keys in sorted order.
\<close>

fun json_norm :: "pyval \<Rightarrow> pyval" where
  "json_norm (PList xs) = PList (map json_norm xs)"
| "json_norm (PDict d) = PDict (sort_key fst (map (\<lambda>(k, v). (k, json_norm v)) d))"
| "json_norm v = v"

text \<open>\<open>json.loads(json.dumps(d, sort_keys=True))\<close> of a dict, the form every store keeps it in\<close>

definition stored_payload :: "pydict \<Rightarrow> pydict" where
  "stored_payload d = sort_key fst (map (\<lambda>(k, v). (k, json_norm v)) d)"

lemma stored_payload_norm: "json_norm (PDict d) = PDict (stored_payload d)"
  by (simp add: stored_payload_def)

text \<open>
  The sort is stable and keeps the first of equal keys first, so a lookup in the stored dict is
  the stored form of the lookup, and printing the stored value prints the same text.
\<close>

lemma insort_key_map: "(\<And>y. k (h y) = k' y) \<Longrightarrow> map h (insort_key k' x xs) = insort_key k (h x) (map h xs)"
  by (induction xs) auto

lemma sort_key_map: "(\<And>y. k (h y) = k' y) \<Longrightarrow> map h (sort_key k' xs) = sort_key k (map h xs)"
proof (induction xs)
  case (Cons x xs)
  then show ?case using insort_key_map [of k h k' x "sort_key k' xs"] by simp
qed simp

lemma insort_key_min: "list_all (\<lambda>y. k x \<le> k y) xs \<Longrightarrow> insort_key k x xs = x # xs"
  by (cases xs) auto

lemma sort_key_sorted: "sorted (map k xs) \<Longrightarrow> sort_key k xs = xs"
  by (induction xs) (auto simp: insort_key_min list_all_iff)

lemma sort_key_idem [simp]: "sort_key k (sort_key k xs) = sort_key k xs"
  by (rule sort_key_sorted) simp

lemma map_of_hd: "map_of d k = (case filter (\<lambda>y. fst y = k) d of [] \<Rightarrow> None | y # _ \<Rightarrow> Some (snd y))"
  by (induction d) auto

lemma map_of_sort_key: "map_of (sort_key fst d) k = map_of d k"
  for d :: "(string \<times> 'a) list"
  by (simp only: map_of_hd sort_key_stable)

lemma map_of_stored_payload [simp]: "map_of (stored_payload d) k = map_option json_norm (map_of d k)"
proof -
  have "map_of (map (\<lambda>(k, v). (k, json_norm v)) d) k = map_option json_norm (map_of d k)"
    by (induction d) auto
  then show ?thesis by (simp add: stored_payload_def map_of_sort_key)
qed

lemma dget_stored_payload [simp]: "dget (stored_payload d) k = json_norm (dget d k)"
  by (simp add: dget_def split: option.split)

lemma dhas_stored_payload [simp]: "dhas (stored_payload d) k = dhas d k"
  by (simp add: dhas_def)

lemma set_stored_payload: "set (stored_payload d) = (\<lambda>(k, v). (k, json_norm v)) ` set d"
  by (simp add: stored_payload_def)

lemma stored_payload_Nil [simp]: "stored_payload d = [] \<longleftrightarrow> d = []"
  by (metis set_stored_payload set_empty image_is_empty)

text \<open>Everything but a container is stored as it is.\<close>

lemma json_norm_eq_iff [simp]:
  "json_norm v = PNone \<longleftrightarrow> v = PNone"
  "json_norm v = PBool b \<longleftrightarrow> v = PBool b"
  "json_norm v = PStr s \<longleftrightarrow> v = PStr s"
  by (cases v; simp)+

lemma truthy_json_norm [simp]: "truthy (json_norm v) = truthy v"
proof (cases v)
  case (PDict d)
  then show ?thesis by (simp add: stored_payload_def [symmetric])
qed simp_all

lemma json_dumps_norm: "json_dumps (json_norm v) = json_dumps v"
proof (induction v)
  case (PList xs)
  then show ?case by (simp add: comp_def cong: map_cong)
next
  case (PDict d)
  have "map (\<lambda>(k, v). (k, json_dumps v)) (sort_key fst (map (\<lambda>(k, v). (k, json_norm v)) d)) =
      sort_key fst (map (\<lambda>(k, v). (k, json_dumps (json_norm v))) d)"
    by (subst sort_key_map [of fst]) (simp_all add: comp_def case_prod_unfold)
  also have "map (\<lambda>(k, v). (k, json_dumps (json_norm v))) d = map (\<lambda>(k, v). (k, json_dumps v)) d"
    using PDict.IH by (auto simp: snds.simps)
  finally show ?case by simp
qed simp_all

lemma json_norm_idem [simp]: "json_norm (json_norm v) = json_norm v"
proof (induction v)
  case (PList xs)
  then show ?case by (simp add: comp_def cong: map_cong)
next
  case (PDict d)
  have "map (\<lambda>(k, v). (k, json_norm v)) (sort_key fst (map (\<lambda>(k, v). (k, json_norm v)) d)) =
      sort_key fst (map (\<lambda>(k, v). (k, json_norm (json_norm v))) d)"
    by (subst sort_key_map [of fst]) (simp_all add: comp_def case_prod_unfold)
  also have "map (\<lambda>(k, v). (k, json_norm (json_norm v))) d = map (\<lambda>(k, v). (k, json_norm v)) d"
    using PDict.IH by (auto simp: snds.simps)
  finally show ?case by simp
qed simp_all

lemma stored_payload_idem [simp]: "stored_payload (stored_payload d) = stored_payload d"
  using json_norm_idem [of "PDict d"] by (simp only: stored_payload_norm pyval.inject)

lemma dict_or_empty_norm:
  "dict_or_empty (json_norm v) = rbind (dict_or_empty v) (\<lambda>d. Inr (stored_payload d))"
proof (cases v)
  case (PList xs)
  then show ?thesis by (cases xs) (simp_all add: dict_or_empty_def py_or_def stored_payload_def)
next
  case (PStr s)
  then show ?thesis by (cases s) (simp_all add: dict_or_empty_def py_or_def stored_payload_def)
qed (simp_all add: dict_or_empty_def py_or_def stored_payload_def)

end
