(* ===== verification/Uplink_Queue.thy ===== *)
theory Uplink_Queue
  imports Py_Values
begin

text \<open>
  The module \<open>queue.py\<close>: the store-and-forward queue of events and snapshots. Its state is the
  SQLite file: the table \<open>uplink_queue\<close>, a list of rows in insertion order whose primary key is
  the sequence number, and the table \<open>queue_metadata\<close>, a map from keys to numbers. Each method
  opens one connection as a context manager: what it writes is one transaction, undone when it
  raises. The clock reading of a method is its argument \<open>now\<close>; timestamps are stored as ISO 8601
  text in UTC and compared as text, which orders them as the numbers used here.
\<close>

section \<open>State\<close>

record queue_row =
  row_sequence :: int
  row_kind :: string
  row_payload :: pydict
  row_bytes :: int
  row_created :: time
  row_attempts :: int
  row_last :: "time option"

record uplink_queue =
  q_max_bytes :: int
  q_max_age_seconds :: int
  q_rows :: "queue_row list"
  q_metadata :: "string \<rightharpoonup> int"

record queue_item =
  sequence :: int
  kind :: string
  payload :: pydict
  created_at :: time
  byte_size :: int
  delivery_attempts :: int
  last_attempted_at :: "time option"
  accepted :: bool
  drop_reason :: "string option"

definition payload_bytes :: "pydict \<Rightarrow> int" where
  "payload_bytes d = int (length (json_dumps (PDict d)))"

section \<open>Operations\<close>

definition metadata_int :: "uplink_queue \<Rightarrow> string \<Rightarrow> int \<Rightarrow> int" where
  "metadata_int q key dflt = (case q_metadata q key of None \<Rightarrow> dflt | Some v \<Rightarrow> v)"

definition set_metadata :: "string \<Rightarrow> int \<Rightarrow> uplink_queue \<Rightarrow> uplink_queue" where
  "set_metadata key v q = q\<lparr>q_metadata := (q_metadata q)(key \<mapsto> v)\<rparr>"

definition record_drop :: "int \<Rightarrow> uplink_queue \<Rightarrow> uplink_queue" where
  "record_drop dropping q =
     (if dropping \<le> 0 then q
      else set_metadata ''reconciliation_required'' 1
        (set_metadata ''dropped_count'' (metadata_int q ''dropped_count'' 0 + dropping) q))"

definition cutoff :: "time \<Rightarrow> int \<Rightarrow> time" where
  "cutoff now seconds = now - seconds * 1000000"

definition expire_stale_queue :: "time \<Rightarrow> uplink_queue \<Rightarrow> uplink_queue" where
  "expire_stale_queue now q =
     (if list_ex (\<lambda>r. row_created r < cutoff now (q_max_age_seconds q)) (q_rows q)
      then record_drop (int (length (q_rows q)))
        (set_metadata ''next_sequence'' (metadata_int q ''acknowledged_sequence'' 0 + 1)
          (q\<lparr>q_rows := []\<rparr>))
      else q)"

definition queue_bytes :: "uplink_queue \<Rightarrow> int" where
  "queue_bytes q = sum_list (map row_bytes (q_rows q))"

text \<open>An insert that repeats a primary key raises \<open>sqlite3.IntegrityError\<close>.\<close>

definition insert_row :: "queue_row \<Rightarrow> uplink_queue \<Rightarrow> uplink_queue res" where
  "insert_row r q =
     (if row_sequence r \<in> row_sequence ` set (q_rows q) then Inl IntegrityError
      else Inr (q\<lparr>q_rows := q_rows q @ [r]\<rparr>))"

definition enqueue :: "time \<Rightarrow> string \<Rightarrow> pydict \<Rightarrow> uplink_queue \<Rightarrow> queue_item res \<times> uplink_queue" where
  "enqueue now knd pl q =
     (let bs = payload_bytes pl;
          q1 = expire_stale_queue now q;
          sn = metadata_int q1 ''next_sequence'' 1;
          total = queue_bytes q1
      in if q_max_bytes q < bs \<or> q_max_bytes q < total + bs
         then (Inr \<lparr>sequence = sn, kind = knd, payload = pl, created_at = now, byte_size = bs,
                   delivery_attempts = 0, last_attempted_at = None, accepted = False,
                   drop_reason = Some ''queue_capacity_exceeded''\<rparr>,
               record_drop 1 q1)
         else case insert_row \<lparr>row_sequence = sn, row_kind = knd, row_payload = pl,
                  row_bytes = bs, row_created = now, row_attempts = 0, row_last = None\<rparr>
                (set_metadata ''next_sequence'' (sn + 1) q1) of
           Inl e \<Rightarrow> (Inl e, q)
         | Inr q2 \<Rightarrow>
             (Inr \<lparr>sequence = sn, kind = knd, payload = pl, created_at = now, byte_size = bs,
                   delivery_attempts = 0, last_attempted_at = None, accepted = True,
                   drop_reason = None\<rparr>,
              q2))"

definition row_item :: "queue_row \<Rightarrow> queue_item" where
  "row_item r = \<lparr>sequence = row_sequence r, kind = row_kind r,
     payload = stored_payload (row_payload r), created_at = row_created r,
     byte_size = row_bytes r, delivery_attempts = row_attempts r,
     last_attempted_at = row_last r, accepted = True, drop_reason = None\<rparr>"

definition peek :: "time \<Rightarrow> string \<Rightarrow> int \<Rightarrow> uplink_queue \<Rightarrow> queue_item list \<times> uplink_queue" where
  "peek now knd limit q =
     (let q1 = expire_stale_queue now q
      in (map row_item
            (sql_limit limit (sort_key row_sequence (filter (\<lambda>r. row_kind r = knd) (q_rows q1)))),
          q1))"

definition peek_all :: "time \<Rightarrow> int \<Rightarrow> uplink_queue \<Rightarrow> queue_item list \<times> uplink_queue" where
  "peek_all now limit q =
     (let q1 = expire_stale_queue now q
      in (map row_item (sql_limit limit (sort_key row_sequence (q_rows q1))), q1))"

definition mark_delivery_attempted :: "time \<Rightarrow> int list \<Rightarrow> uplink_queue \<Rightarrow> uplink_queue" where
  "mark_delivery_attempted now sequences q =
     (if sequences = [] then q
      else q\<lparr>q_rows := map (\<lambda>r. if row_sequence r \<in> set sequences
               then r\<lparr>row_attempts := row_attempts r + 1, row_last := Some now\<rparr> else r) (q_rows q)\<rparr>)"

definition mark_pending_delivery_uncertain :: "time \<Rightarrow> uplink_queue \<Rightarrow> uplink_queue" where
  "mark_pending_delivery_uncertain now q =
     q\<lparr>q_rows := map (\<lambda>r. r\<lparr>row_attempts := (if row_attempts r = 0 then 1 else row_attempts r),
                            row_last := Some (case row_last r of None \<Rightarrow> now | Some t \<Rightarrow> t)\<rparr>)
                (q_rows q)\<rparr>"

definition delete_through :: "int \<Rightarrow> uplink_queue \<Rightarrow> uplink_queue" where
  "delete_through n q = q\<lparr>q_rows := filter (\<lambda>r. n < row_sequence r) (q_rows q)\<rparr>"

definition acknowledge_through :: "int \<Rightarrow> uplink_queue \<Rightarrow> uplink_queue" where
  "acknowledge_through n q =
     (let q1 = delete_through n q;
          q2 = (if metadata_int q1 ''acknowledged_sequence'' 0 < n
                then set_metadata ''acknowledged_sequence'' n q1 else q1)
      in if metadata_int q2 ''next_sequence'' 1 \<le> n
         then set_metadata ''next_sequence'' (n + 1) q2 else q2)"

definition synchronize_with_server_cursor :: "int \<Rightarrow> uplink_queue \<Rightarrow> bool res \<times> uplink_queue" where
  "synchronize_with_server_cursor n q =
     (if n < 0 then (Inl (ValueError ''server cursor must not be negative''), q)
      else
        (let q1 = set_metadata ''acknowledged_sequence'' n (delete_through n q);
             seqs = map row_sequence (q_rows q1);
             queued = int (length seqs);
             oldest = (if seqs = [] then 0 else Min (set seqs));
             latest = (if seqs = [] then 0 else Max (set seqs));
             expected = n + 1
         in if queued = 0 \<or> oldest = expected \<and> queued = latest - oldest + 1
            then (Inr False,
                  set_metadata ''next_sequence'' (if queued \<noteq> 0 then latest + 1 else expected) q1)
            else (Inr True,
                  record_drop queued
                    (set_metadata ''next_sequence'' expected (q1\<lparr>q_rows := []\<rparr>)))))"

definition ensure_next_sequence_at_least :: "int \<Rightarrow> uplink_queue \<Rightarrow> uplink_queue" where
  "ensure_next_sequence_at_least n q =
     (if metadata_int q ''next_sequence'' 1 < n then set_metadata ''next_sequence'' n q else q)"

record queue_summary =
  queue_depth :: int
  summary_bytes :: int
  oldest_sequence :: int
  latest_sequence :: int
  dropped_count :: int
  reconciliation_required :: int

definition summary :: "time \<Rightarrow> uplink_queue \<Rightarrow> queue_summary \<times> uplink_queue" where
  "summary now q =
     (let q1 = expire_stale_queue now q; seqs = row_sequence ` set (q_rows q1)
      in (\<lparr>queue_depth = int (length (q_rows q1)), summary_bytes = queue_bytes q1,
           oldest_sequence = (if seqs = {} then 0 else Min seqs),
           latest_sequence = (if seqs = {} then 0 else Max seqs),
           dropped_count = metadata_int q1 ''dropped_count'' 0,
           reconciliation_required = metadata_int q1 ''reconciliation_required'' 0\<rparr>,
          q1))"

definition needs_reconciliation :: "uplink_queue \<Rightarrow> bool" where
  "needs_reconciliation q = (metadata_int q ''reconciliation_required'' 0 \<noteq> 0)"

definition mark_reconciliation_queued :: "uplink_queue \<Rightarrow> uplink_queue" where
  "mark_reconciliation_queued q = set_metadata ''reconciliation_required'' 0 q"

text \<open>
  Opening the file. A database written by an older release lacks one or both of the delivery
  columns; a new one has no tables. \<open>INSERT OR IGNORE\<close> leaves an existing key alone.
\<close>

record queue_disk =
  disk_rows :: "queue_row list option"
  disk_columns :: "string list"
  disk_metadata :: "(string \<rightharpoonup> int) option"

definition insert_or_ignore :: "string \<Rightarrow> int \<Rightarrow> (string \<rightharpoonup> int) \<Rightarrow> (string \<rightharpoonup> int)" where
  "insert_or_ignore key v m = (case m key of None \<Rightarrow> m(key \<mapsto> v) | Some _ \<Rightarrow> m)"

definition initialize :: "int \<Rightarrow> int \<Rightarrow> queue_disk \<Rightarrow> uplink_queue" where
  "initialize max_bytes max_age_seconds disk =
     (let rows0 = (case disk_rows disk of None \<Rightarrow> [] | Some rs \<Rightarrow> rs);
          rows1 = (if ''delivery_attempts'' \<notin> set (disk_columns disk)
                   then map (\<lambda>r. r\<lparr>row_attempts := 0\<rparr>) rows0 else rows0);
          rows2 = (if ''last_attempted_at'' \<notin> set (disk_columns disk)
                   then map (\<lambda>r. r\<lparr>row_last := None\<rparr>) rows1 else rows1);
          rows3 = map (\<lambda>r. if row_attempts r = 0
                    then r\<lparr>row_attempts := 1,
                           row_last := Some (case row_last r of None \<Rightarrow> row_created r | Some t \<Rightarrow> t)\<rparr>
                    else r) rows2;
          meta0 = (case disk_metadata disk of None \<Rightarrow> Map.empty | Some m \<Rightarrow> m);
          meta1 = insert_or_ignore ''reconciliation_required'' 0
                    (insert_or_ignore ''acknowledged_sequence'' 0
                      (insert_or_ignore ''dropped_count'' 0
                        (insert_or_ignore ''next_sequence'' 1 meta0)))
      in \<lparr>q_max_bytes = max_bytes, q_max_age_seconds = max_age_seconds, q_rows = rows3,
          q_metadata = meta1\<rparr>)"

definition new_disk :: queue_disk where
  "new_disk = \<lparr>disk_rows = None, disk_columns = [], disk_metadata = None\<rparr>"

text \<open>The file a running process leaves behind.\<close>

definition queue_file :: "uplink_queue \<Rightarrow> queue_disk" where
  "queue_file q = \<lparr>disk_rows = Some (q_rows q),
     disk_columns = [''sequence'', ''kind'', ''payload_json'', ''byte_size'', ''created_at'',
       ''delivery_attempts'', ''last_attempted_at''],
     disk_metadata = Some (q_metadata q)\<rparr>"

definition reopen :: "uplink_queue \<Rightarrow> uplink_queue" where
  "reopen q = initialize (q_max_bytes q) (q_max_age_seconds q) (queue_file q)"

section \<open>Runs\<close>

datatype queue_op =
    Enqueue time string pydict
  | Peek time string int
  | PeekAll time int
  | MarkAttempted time "int list"
  | MarkUncertain time
  | Acknowledge int
  | Synchronize int
  | EnsureNext int
  | Summarize time
  | MarkReconciled
  | Reopen

fun queue_step :: "queue_op \<Rightarrow> uplink_queue \<Rightarrow> uplink_queue" where
  "queue_step (Enqueue now k p) q = snd (enqueue now k p q)"
| "queue_step (Peek now k n) q = snd (peek now k n q)"
| "queue_step (PeekAll now n) q = snd (peek_all now n q)"
| "queue_step (MarkAttempted now ns) q = mark_delivery_attempted now ns q"
| "queue_step (MarkUncertain now) q = mark_pending_delivery_uncertain now q"
| "queue_step (Acknowledge n) q = acknowledge_through n q"
| "queue_step (Synchronize n) q = snd (synchronize_with_server_cursor n q)"
| "queue_step (EnsureNext n) q = ensure_next_sequence_at_least n q"
| "queue_step (Summarize now) q = snd (summary now q)"
| "queue_step MarkReconciled q = mark_reconciliation_queued q"
| "queue_step Reopen q = reopen q"

text \<open>\<open>ensure_next_sequence_at_least\<close> is the one method the connector never calls.\<close>

definition connector_op :: "queue_op \<Rightarrow> bool" where
  "connector_op op = (\<not> (\<exists>n. op = EnsureNext n))"

section \<open>What the operations do to the cursor and the rows\<close>

abbreviation next_sequence :: "uplink_queue \<Rightarrow> int" where
  "next_sequence q \<equiv> metadata_int q ''next_sequence'' 1"

abbreviation acknowledged_sequence :: "uplink_queue \<Rightarrow> int" where
  "acknowledged_sequence q \<equiv> metadata_int q ''acknowledged_sequence'' 0"

abbreviation dropped :: "uplink_queue \<Rightarrow> int" where
  "dropped q \<equiv> metadata_int q ''dropped_count'' 0"

abbreviation pending :: "uplink_queue \<Rightarrow> int list" where
  "pending q \<equiv> map row_sequence (q_rows q)"

abbreviation depth :: "uplink_queue \<Rightarrow> int" where
  "depth q \<equiv> int (length (q_rows q))"

lemma metadata_set [simp]:
  "metadata_int (set_metadata k v q) k' d = (if k' = k then v else metadata_int q k' d)"
  by (simp add: metadata_int_def set_metadata_def)

lemma set_metadata_frame [simp]:
  "q_rows (set_metadata k v q) = q_rows q"
  "q_max_bytes (set_metadata k v q) = q_max_bytes q"
  "q_max_age_seconds (set_metadata k v q) = q_max_age_seconds q"
  "queue_bytes (set_metadata k v q) = queue_bytes q"
  by (simp_all add: set_metadata_def queue_bytes_def)

lemma rows_update_frame [simp]:
  "metadata_int (q\<lparr>q_rows := rs\<rparr>) k d = metadata_int q k d"
  by (simp add: metadata_int_def)

lemma record_drop_frame [simp]:
  "q_rows (record_drop n q) = q_rows q"
  "q_max_bytes (record_drop n q) = q_max_bytes q"
  "q_max_age_seconds (record_drop n q) = q_max_age_seconds q"
  "queue_bytes (record_drop n q) = queue_bytes q"
  "next_sequence (record_drop n q) = next_sequence q"
  "acknowledged_sequence (record_drop n q) = acknowledged_sequence q"
  by (simp_all add: record_drop_def)

lemma dropped_record_drop [simp]: "dropped (record_drop n q) = dropped q + max n 0"
  by (simp add: record_drop_def)

lemma needs_reconciliation_record_drop [simp]:
  "needs_reconciliation (record_drop n q) = (0 < n \<or> needs_reconciliation q)"
  by (auto simp: record_drop_def needs_reconciliation_def)

lemma needs_reconciliation_set_metadata [simp]:
  "k \<noteq> ''reconciliation_required'' \<Longrightarrow>
     needs_reconciliation (set_metadata k v q) = needs_reconciliation q"
  by (auto simp: needs_reconciliation_def)

lemma needs_reconciliation_rows [simp]:
  "needs_reconciliation (q\<lparr>q_rows := rs\<rparr>) = needs_reconciliation q"
  by (simp add: needs_reconciliation_def)

definition stale :: "time \<Rightarrow> uplink_queue \<Rightarrow> bool" where
  "stale now q = list_ex (\<lambda>r. row_created r < cutoff now (q_max_age_seconds q)) (q_rows q)"

lemma stale_nonempty: "stale now q \<Longrightarrow> q_rows q \<noteq> []"
  by (auto simp: stale_def)

lemma expire_effect:
  "q_rows (expire_stale_queue now q) = (if stale now q then [] else q_rows q)"
  "next_sequence (expire_stale_queue now q) =
     (if stale now q then acknowledged_sequence q + 1 else next_sequence q)"
  "acknowledged_sequence (expire_stale_queue now q) = acknowledged_sequence q"
  "dropped (expire_stale_queue now q) = dropped q + (if stale now q then depth q else 0)"
  "needs_reconciliation (expire_stale_queue now q) = (stale now q \<or> needs_reconciliation q)"
  "q_max_bytes (expire_stale_queue now q) = q_max_bytes q"
  "q_max_age_seconds (expire_stale_queue now q) = q_max_age_seconds q"
  by (auto simp: expire_stale_queue_def stale_def [symmetric] dest: stale_nonempty)

text \<open>Whether an enqueue is refused for want of room, once stale rows are gone.\<close>

definition over_capacity :: "time \<Rightarrow> pydict \<Rightarrow> uplink_queue \<Rightarrow> bool" where
  "over_capacity now pl q \<longleftrightarrow> q_max_bytes q < payload_bytes pl \<or>
     q_max_bytes q < queue_bytes (expire_stale_queue now q) + payload_bytes pl"

definition key_free :: "time \<Rightarrow> uplink_queue \<Rightarrow> bool" where
  "key_free now q \<longleftrightarrow> next_sequence (expire_stale_queue now q) \<notin> set (pending (expire_stale_queue now q))"

definition fresh_row :: "int \<Rightarrow> time \<Rightarrow> string \<Rightarrow> pydict \<Rightarrow> queue_row" where
  "fresh_row sn now knd pl = \<lparr>row_sequence = sn, row_kind = knd, row_payload = pl,
     row_bytes = payload_bytes pl, row_created = now, row_attempts = 0, row_last = None\<rparr>"

lemma enqueue_rejected:
  assumes "over_capacity now pl q"
  shows "snd (enqueue now knd pl q) = record_drop 1 (expire_stale_queue now q)"
    "\<exists>it. fst (enqueue now knd pl q) = Inr it \<and> \<not> accepted it \<and>
       drop_reason it = Some ''queue_capacity_exceeded''"
  using assms by (auto simp: enqueue_def over_capacity_def Let_def)

lemma enqueue_accepted:
  assumes "\<not> over_capacity now pl q" "key_free now q"
  shows "snd (enqueue now knd pl q) =
      (let q1 = expire_stale_queue now q; sn = next_sequence q1
       in set_metadata ''next_sequence'' (sn + 1)
            (q1\<lparr>q_rows := q_rows q1 @ [fresh_row sn now knd pl]\<rparr>))"
    "\<exists>it. fst (enqueue now knd pl q) = Inr it \<and> accepted it \<and>
       sequence it = next_sequence (expire_stale_queue now q) \<and> payload it = pl"
  using assms
  by (auto simp: enqueue_def over_capacity_def key_free_def insert_row_def fresh_row_def Let_def
      set_metadata_def)

lemma enqueue_duplicate:
  assumes "\<not> over_capacity now pl q" "\<not> key_free now q"
  shows "enqueue now knd pl q = (Inl IntegrityError, q)"
  using assms
  by (auto simp: enqueue_def over_capacity_def key_free_def insert_row_def Let_def)

lemma mark_frame:
  "pending (mark_delivery_attempted now ns q) = pending q"
  "metadata_int (mark_delivery_attempted now ns q) k d = metadata_int q k d"
  "map row_bytes (q_rows (mark_delivery_attempted now ns q)) = map row_bytes (q_rows q)"
  "q_max_bytes (mark_delivery_attempted now ns q) = q_max_bytes q"
  "pending (mark_pending_delivery_uncertain now q) = pending q"
  "metadata_int (mark_pending_delivery_uncertain now q) k d = metadata_int q k d"
  "map row_bytes (q_rows (mark_pending_delivery_uncertain now q)) = map row_bytes (q_rows q)"
  "q_max_bytes (mark_pending_delivery_uncertain now q) = q_max_bytes q"
  by (auto simp: mark_delivery_attempted_def mark_pending_delivery_uncertain_def)

lemma acknowledge_effect:
  "q_rows (acknowledge_through n q) = filter (\<lambda>r. n < row_sequence r) (q_rows q)"
  "acknowledged_sequence (acknowledge_through n q) = max (acknowledged_sequence q) n"
  "next_sequence (acknowledge_through n q) = (if next_sequence q \<le> n then n + 1 else next_sequence q)"
  "dropped (acknowledge_through n q) = dropped q"
  "needs_reconciliation (acknowledge_through n q) = needs_reconciliation q"
  "q_max_bytes (acknowledge_through n q) = q_max_bytes q"
  by (auto simp: acknowledge_through_def delete_through_def Let_def)

lemma reopen_effect:
  "pending (reopen q) = pending q"
  "next_sequence (reopen q) = next_sequence q"
  "acknowledged_sequence (reopen q) = acknowledged_sequence q"
  "dropped (reopen q) = dropped q"
  "needs_reconciliation (reopen q) = needs_reconciliation q"
  "map row_bytes (q_rows (reopen q)) = map row_bytes (q_rows q)"
  "q_max_bytes (reopen q) = q_max_bytes q"
  by (auto simp: reopen_def initialize_def queue_file_def insert_or_ignore_def metadata_int_def
      needs_reconciliation_def comp_def Let_def split: option.splits)

lemmas queue_step_defs = peek_def peek_all_def summary_def mark_reconciliation_queued_def Let_def

section \<open>No gap between the acknowledged cursor and the next sequence number\<close>

text \<open>
  The promise the queue makes to Core: what is pending is every sequence number after the
  acknowledged cursor and before the next one to be given out, once each.
\<close>

definition pending_block :: "uplink_queue \<Rightarrow> bool" where
  "pending_block q \<longleftrightarrow> distinct (pending q) \<and> acknowledged_sequence q < next_sequence q \<and>
     set (pending q) = {acknowledged_sequence q + 1..next_sequence q - 1}"

lemma pending_block_sorted:
  "pending_block q \<Longrightarrow> sort (pending q) = [acknowledged_sequence q + 1..next_sequence q - 1]"
  by (simp add: pending_block_def sort_eq_upto)

lemma pending_block_expire: "pending_block q \<Longrightarrow> pending_block (expire_stale_queue now q)"
  by (simp add: pending_block_def expire_effect)

lemma pending_block_cong:
  "pending q' = pending q \<Longrightarrow> next_sequence q' = next_sequence q \<Longrightarrow>
   acknowledged_sequence q' = acknowledged_sequence q \<Longrightarrow> pending_block q' = pending_block q"
  by (simp only: pending_block_def)

lemma pending_block_key_free: "pending_block q \<Longrightarrow> key_free now q"
  using pending_block_expire [of q now] by (simp add: pending_block_def key_free_def)

lemma pending_block_record_drop [simp]: "pending_block (record_drop n q) = pending_block q"
  by (rule pending_block_cong) simp_all

lemma pending_block_append:
  assumes "pending_block q"
  shows "pending_block (set_metadata ''next_sequence'' (next_sequence q + 1)
    (q\<lparr>q_rows := q_rows q @ [fresh_row (next_sequence q) now knd pl]\<rparr>))"
  using assms by (auto simp: pending_block_def fresh_row_def)

lemma pending_block_enqueue:
  assumes "pending_block q"
  shows "pending_block (snd (enqueue now knd pl q))"
proof (cases "over_capacity now pl q")
  case True
  then show ?thesis by (simp add: enqueue_rejected pending_block_expire assms)
next
  case False
  then show ?thesis
    using pending_block_append [OF pending_block_expire [OF assms]]
    by (simp add: enqueue_accepted pending_block_key_free [OF assms] Let_def)
qed

lemma pending_acknowledge: "pending (acknowledge_through n q) = filter (\<lambda>k. n < k) (pending q)"
  by (simp only: acknowledge_effect map_filter_key)

lemma pending_block_acknowledge: "pending_block q \<Longrightarrow> pending_block (acknowledge_through n q)"
  unfolding pending_block_def pending_acknowledge
  by (auto simp: acknowledge_effect)

text \<open>
  Synchronizing with the server's cursor needs no invariant: whatever distinct numbers the file
  held, afterwards the pending ones are a block that starts right after the cursor.
\<close>

lemma synchronize_cases:
  fixes q :: uplink_queue and n :: int
  assumes "0 \<le> n"
  defines "rows \<equiv> filter (\<lambda>r. n < row_sequence r) (q_rows q)"
    and "q' \<equiv> snd (synchronize_with_server_cursor n q)"
  obtains (kept) "fst (synchronize_with_server_cursor n q) = Inr False" "q_rows q' = rows"
      "rows = [] \<or> Min (row_sequence ` set rows) = n + 1 \<and>
         int (length rows) = Max (row_sequence ` set rows) - Min (row_sequence ` set rows) + 1"
      "next_sequence q' = (if rows = [] then n + 1 else Max (row_sequence ` set rows) + 1)"
      "acknowledged_sequence q' = n" "dropped q' = dropped q"
      "needs_reconciliation q' = needs_reconciliation q"
  | (cleared) "fst (synchronize_with_server_cursor n q) = Inr True" "q_rows q' = []" "rows \<noteq> []"
      "next_sequence q' = n + 1" "acknowledged_sequence q' = n"
      "dropped q' = dropped q + int (length rows)" "needs_reconciliation q'"
proof (cases "rows = [] \<or> Min (row_sequence ` set rows) = n + 1 \<and>
    int (length rows) = Max (row_sequence ` set rows) - Min (row_sequence ` set rows) + 1")
  case True
  then have "synchronize_with_server_cursor n q = (Inr False,
      set_metadata ''next_sequence'' (if rows = [] then n + 1 else Max (row_sequence ` set rows) + 1)
        (set_metadata ''acknowledged_sequence'' n (q\<lparr>q_rows := rows\<rparr>)))"
    using assms(1)
    by (auto simp add: synchronize_with_server_cursor_def delete_through_def rows_def Let_def)
  with True show ?thesis by (intro kept) (simp_all add: q'_def)
next
  case False
  then have "synchronize_with_server_cursor n q = (Inr True,
      record_drop (int (length rows)) (set_metadata ''next_sequence'' (n + 1)
        ((set_metadata ''acknowledged_sequence'' n (q\<lparr>q_rows := rows\<rparr>))\<lparr>q_rows := []\<rparr>)))"
    using assms(1)
    by (auto simp add: synchronize_with_server_cursor_def delete_through_def rows_def Let_def)
  with False show ?thesis by (intro cleared) (simp_all add: q'_def)
qed

lemma synchronize_repairs:
  assumes "0 \<le> n" and keys: "distinct (pending q)"
  shows "pending_block (snd (synchronize_with_server_cursor n q))"
  using assms(1)
proof (cases rule: synchronize_cases [of n q])
  case kept
  let ?rows = "filter (\<lambda>r. n < row_sequence r) (q_rows q)"
  have d: "distinct (map row_sequence ?rows)" using keys by (auto simp: distinct_map inj_on_def)
  show ?thesis
  proof (cases "?rows = []")
    case False
    let ?m = "Max (set (map row_sequence ?rows))"
    from kept(3) False d have range: "set (map row_sequence ?rows) = {n + 1..?m}"
      using full_range [of "map row_sequence ?rows"] by simp
    have "set (map row_sequence ?rows) \<noteq> {}" using False by (metis map_is_Nil_conv set_empty)
    then have "?m \<in> set (map row_sequence ?rows)" by (rule Max_in [OF List.finite_set])
    then have "n < ?m" by auto
    moreover have "next_sequence (snd (synchronize_with_server_cursor n q)) = ?m + 1"
      using kept(4) False by simp
    ultimately show ?thesis
      unfolding pending_block_def kept(2) kept(5) using range d by simp
  qed (use kept in \<open>simp add: pending_block_def\<close>)
qed (simp add: pending_block_def)

lemma synchronize_negative:
  "n < 0 \<Longrightarrow> synchronize_with_server_cursor n q =
     (Inl (ValueError ''server cursor must not be negative''), q)"
  by (simp add: synchronize_with_server_cursor_def)

lemma pending_block_synchronize:
  assumes "pending_block q"
  shows "pending_block (snd (synchronize_with_server_cursor n q))"
proof (cases "0 \<le> n")
  case True
  moreover have "distinct (pending q)" using assms by (simp add: pending_block_def)
  ultimately show ?thesis by (rule synchronize_repairs)
next
  case False
  then show ?thesis using assms by (simp add: synchronize_negative)
qed

lemma pending_block_step:
  assumes "connector_op op" "pending_block q"
  shows "pending_block (queue_step op q)"
proof (cases op)
  case (MarkAttempted now ns)
  then show ?thesis using assms pending_block_cong [of "queue_step op q" q] by (simp add: mark_frame)
next
  case (MarkUncertain now)
  then show ?thesis using assms pending_block_cong [of "queue_step op q" q] by (simp add: mark_frame)
next
  case MarkReconciled
  then show ?thesis
    using assms pending_block_cong [of "queue_step op q" q] by (simp add: mark_reconciliation_queued_def)
next
  case Reopen
  then show ?thesis using assms pending_block_cong [of "reopen q" q] by (simp add: reopen_effect)
qed (use assms in \<open>simp_all add: pending_block_enqueue pending_block_expire
  pending_block_acknowledge pending_block_synchronize queue_step_defs connector_op_def\<close>)

interpretation blk: invariant_system queue_step connector_op pending_block
  by unfold_locales (rule pending_block_step)

definition new_queue :: "int \<Rightarrow> int \<Rightarrow> uplink_queue" where
  "new_queue max_bytes max_age_seconds = initialize max_bytes max_age_seconds new_disk"

lemma new_queue_state:
  "q_rows (new_queue mb ma) = []" "next_sequence (new_queue mb ma) = 1"
  "acknowledged_sequence (new_queue mb ma) = 0" "dropped (new_queue mb ma) = 0"
  "\<not> needs_reconciliation (new_queue mb ma)" "q_max_bytes (new_queue mb ma) = mb"
  "q_max_age_seconds (new_queue mb ma) = ma"
  by (simp_all add: new_queue_def initialize_def new_disk_def insert_or_ignore_def metadata_int_def
      needs_reconciliation_def Let_def)

lemma pending_block_new: "pending_block (new_queue mb ma)"
  by (simp add: pending_block_def new_queue_state)

text \<open>
  Queue retention never creates a gap in the cursor Core owns. After any sequence of the
  connector's queue calls from a new file (enqueues that are accepted, refused or follow an
  expiry, acknowledgements of any number, resynchronizations, restarts), the pending sequence
  numbers are exactly those after the acknowledged cursor and before the next one, each once.
\<close>

theorem queue_never_has_a_gap:
  assumes "list_all connector_op ops"
  shows "sort (pending (fold queue_step ops (new_queue max_bytes max_age_seconds))) =
    [acknowledged_sequence (fold queue_step ops (new_queue max_bytes max_age_seconds)) + 1 ..
     next_sequence (fold queue_step ops (new_queue max_bytes max_age_seconds)) - 1]"
  by (rule pending_block_sorted, rule blk.run_inv) (rule assms, rule pending_block_new)

theorem queue_never_has_a_gap_witness:
  "sort (pending (fold queue_step
      [Enqueue 0 ''event'' [], Enqueue 5 ''event'' [], Acknowledge 1, Enqueue 7 ''snapshot'' []]
      (new_queue 100 60))) =
   [acknowledged_sequence (fold queue_step
      [Enqueue 0 ''event'' [], Enqueue 5 ''event'' [], Acknowledge 1, Enqueue 7 ''snapshot'' []]
      (new_queue 100 60)) + 1 ..
    next_sequence (fold queue_step
      [Enqueue 0 ''event'' [], Enqueue 5 ''event'' [], Acknowledge 1, Enqueue 7 ''snapshot'' []]
      (new_queue 100 60)) - 1]"
  by (rule queue_never_has_a_gap) (simp add: connector_op_def)

text \<open>
  C34: opening a session repairs any queue file: whatever distinct sequence numbers the file held,
  after \<open>synchronize_with_server_cursor\<close> with the cursor of the server what is pending starts
  right after that cursor and has no gap, and what could not be kept is counted as dropped and
  asks for reconciliation.
\<close>

theorem synchronize_repairs_any_file:
  assumes "0 \<le> n" "distinct (pending q)"
  shows "pending_block (snd (synchronize_with_server_cursor n q)) \<and>
    acknowledged_sequence (snd (synchronize_with_server_cursor n q)) = n \<and>
    (fst (synchronize_with_server_cursor n q) = Inr True \<longrightarrow>
       pending (snd (synchronize_with_server_cursor n q)) = [] \<and>
       needs_reconciliation (snd (synchronize_with_server_cursor n q)) \<and>
       dropped (snd (synchronize_with_server_cursor n q)) =
         dropped q + int (length (filter (\<lambda>k. n < k) (pending q)))) \<and>
    (fst (synchronize_with_server_cursor n q) = Inr False \<longrightarrow>
       pending (snd (synchronize_with_server_cursor n q)) = filter (\<lambda>k. n < k) (pending q))"
  using assms(1)
proof (cases rule: synchronize_cases [of n q])
  case kept
  then show ?thesis using synchronize_repairs [OF assms] by (simp add: map_filter_key)
next
  case cleared
  have "length (filter (\<lambda>k. n < k) (pending q)) =
      length (filter (\<lambda>r. n < row_sequence r) (q_rows q))"
    by (simp flip: map_filter_key)
  with cleared show ?thesis using synchronize_repairs [OF assms] by simp
qed

theorem synchronize_repairs_any_file_witness:
  "pending_block (snd (synchronize_with_server_cursor 1
    ((new_queue 100 60)\<lparr>q_rows := [fresh_row 10 0 ''event'' [], fresh_row 11 0 ''event'' []]\<rparr>)))"
  using synchronize_repairs_any_file [of 1
    "(new_queue 100 60)\<lparr>q_rows := [fresh_row 10 0 ''event'' [], fresh_row 11 0 ''event'' []]\<rparr>"]
  by (simp add: fresh_row_def)

section \<open>Bounds\<close>

definition within_bytes :: "uplink_queue \<Rightarrow> bool" where
  "within_bytes q \<longleftrightarrow> 0 \<le> q_max_bytes q \<and> list_all (\<lambda>r. 0 \<le> row_bytes r) (q_rows q) \<and>
     queue_bytes q \<le> q_max_bytes q"

lemma within_bytes_sub:
  assumes "within_bytes q" "q_rows q' = filter P (q_rows q)" "q_max_bytes q' = q_max_bytes q"
  shows "within_bytes q'"
  using assms sum_list_filter_le [of row_bytes "q_rows q" P]
  by (auto simp: within_bytes_def queue_bytes_def list_all_iff)

lemma within_bytes_same:
  assumes "within_bytes q" "map row_bytes (q_rows q') = map row_bytes (q_rows q)"
    "q_max_bytes q' = q_max_bytes q"
  shows "within_bytes q'"
proof -
  have all_map: "list_all (\<lambda>r. 0 \<le> row_bytes r) rs = list_all (\<lambda>b. 0 \<le> b) (map row_bytes rs)" for rs
    by (simp add: list.pred_map comp_def)
  show ?thesis
    using assms unfolding within_bytes_def queue_bytes_def all_map by simp
qed

lemma within_bytes_expire: "within_bytes q \<Longrightarrow> within_bytes (expire_stale_queue now q)"
  by (rule within_bytes_sub [where P = "\<lambda>_. \<not> stale now q"]) (simp_all add: expire_effect)

lemma within_bytes_enqueue:
  assumes "within_bytes q"
  shows "within_bytes (snd (enqueue now knd pl q))"
proof -
  note expired = within_bytes_expire [OF assms, of now]
  consider "over_capacity now pl q" | "\<not> over_capacity now pl q" "key_free now q"
    | "\<not> over_capacity now pl q" "\<not> key_free now q" by blast
  then show ?thesis
  proof cases
    case 1
    with expired show ?thesis by (simp add: enqueue_rejected within_bytes_def)
  next
    case 2
    with expired show ?thesis
      by (simp add: enqueue_accepted within_bytes_def queue_bytes_def over_capacity_def fresh_row_def
          expire_effect payload_bytes_def Let_def)
  next
    case 3
    with assms show ?thesis by (simp add: enqueue_duplicate)
  qed
qed

lemma synchronize_rows:
  "\<exists>P. q_rows (snd (synchronize_with_server_cursor n q)) = filter P (q_rows q)"
proof (cases "0 \<le> n")
  case True
  then show ?thesis
    by (cases rule: synchronize_cases [of n q]) (auto intro: exI [of _ "\<lambda>_. False"])
next
  case False
  then show ?thesis by (auto simp: synchronize_negative intro: exI [of _ "\<lambda>_. True"])
qed

lemma synchronize_max_bytes:
  "q_max_bytes (snd (synchronize_with_server_cursor n q)) = q_max_bytes q"
  by (simp add: synchronize_with_server_cursor_def delete_through_def Let_def)

lemma within_bytes_step: "within_bytes q \<Longrightarrow> within_bytes (queue_step op q)"
proof (cases op)
  case (Acknowledge n)
  moreover assume "within_bytes q"
  ultimately show ?thesis
    by (auto simp: acknowledge_effect intro: within_bytes_sub)
next
  case (Synchronize n)
  moreover assume "within_bytes q"
  ultimately show ?thesis
    using synchronize_rows [of n q] synchronize_max_bytes [of n q]
    by (auto intro: within_bytes_sub)
next
  case (EnsureNext n)
  moreover assume "within_bytes q"
  ultimately show ?thesis by (simp add: ensure_next_sequence_at_least_def within_bytes_def)
next
  case MarkReconciled
  moreover assume "within_bytes q"
  ultimately show ?thesis by (simp add: mark_reconciliation_queued_def within_bytes_def)
qed (auto intro: within_bytes_same within_bytes_expire within_bytes_enqueue
    simp: queue_step_defs mark_frame reopen_effect)

interpretation bytes: invariant_system queue_step "\<lambda>_. True" within_bytes
  by unfold_locales (rule within_bytes_step)

text \<open>
  C28: the queue file is bounded: after any calls whatever the encoded payloads it holds never
  exceed \<open>max_bytes\<close> together.
\<close>

theorem queue_bytes_bounded:
  assumes "0 \<le> max_bytes"
  shows "queue_bytes (fold queue_step ops (new_queue max_bytes max_age_seconds)) \<le> max_bytes"
proof -
  have const: "q_max_bytes (fold queue_step ops q) = q_max_bytes q" for q
  proof (induction ops arbitrary: q)
    case (Cons op ops)
    have "q_max_bytes (queue_step op q) = q_max_bytes q"
      by (cases op)
        (simp_all add: enqueue_def expire_effect mark_frame acknowledge_effect reopen_effect
          synchronize_max_bytes ensure_next_sequence_at_least_def insert_row_def queue_step_defs)
    with Cons show ?case by simp
  qed simp
  have "within_bytes (new_queue max_bytes max_age_seconds)"
    using assms by (simp add: within_bytes_def new_queue_state queue_bytes_def)
  then have "within_bytes (fold queue_step ops (new_queue max_bytes max_age_seconds))"
    by (intro bytes.run_inv) (simp_all add: list_all_iff)
  then show ?thesis by (simp add: within_bytes_def const new_queue_state)
qed

theorem queue_bytes_bounded_witness:
  "queue_bytes (fold queue_step [Enqueue 0 ''event'' [(''value'', PInt 5)]] (new_queue 100 60)) \<le> 100"
  by (rule queue_bytes_bounded) simp

section \<open>Nothing disappears unaccounted\<close>

text \<open>Rows a step removes because the server has them, and items it takes in.\<close>

fun settled :: "queue_op \<Rightarrow> uplink_queue \<Rightarrow> int" where
  "settled (Acknowledge n) q = int (length (filter (\<lambda>r. row_sequence r \<le> n) (q_rows q)))"
| "settled (Synchronize n) q =
     (if n < 0 then 0 else int (length (filter (\<lambda>r. row_sequence r \<le> n) (q_rows q))))"
| "settled _ q = 0"

definition enqueues :: "queue_op \<Rightarrow> int" where
  "enqueues op = (case op of Enqueue _ _ _ \<Rightarrow> 1 | _ \<Rightarrow> 0)"

lemma enqueues_sum:
  "sum_list (map enqueues ops) = int (length (filter (\<lambda>op. \<exists>t k p. op = Enqueue t k p) ops))"
  by (induction ops) (auto simp: enqueues_def split: queue_op.splits)

lemma length_split_at:
  "int (length rs) = int (length (filter (\<lambda>r. row_sequence r \<le> n) rs)) +
     int (length (filter (\<lambda>r. n < row_sequence r) rs))"
  using sum_length_filter_compl [of "\<lambda>r. row_sequence r \<le> n" rs] by (simp add: not_le)

lemma account_enqueue:
  assumes "pending_block q"
  shows "depth (snd (enqueue now knd pl q)) + dropped (snd (enqueue now knd pl q)) =
    depth q + dropped q + 1"
proof (cases "over_capacity now pl q")
  case True
  then show ?thesis by (simp add: enqueue_rejected expire_effect)
next
  case False
  then show ?thesis
    by (simp add: enqueue_accepted pending_block_key_free [OF assms] expire_effect Let_def)
qed

lemma account_synchronize:
  assumes "0 \<le> n"
  shows "depth (snd (synchronize_with_server_cursor n q)) +
      dropped (snd (synchronize_with_server_cursor n q)) =
    depth q + dropped q - settled (Synchronize n) q"
  using assms
  by (cases rule: synchronize_cases [of n q])
    (use assms length_split_at [of "q_rows q" n] in simp_all)

lemma depth_from_pending: "pending q' = pending q \<Longrightarrow> depth q' = depth q"
  by (metis length_map)

lemma account_step:
  assumes "connector_op op" "pending_block q"
  shows "depth (queue_step op q) + dropped (queue_step op q) =
    depth q + dropped q + (enqueues op - settled op q)"
proof (cases op)
  case (Enqueue now k p)
  then show ?thesis using account_enqueue [OF assms(2)] by (simp add: enqueues_def)
next
  case (Acknowledge n)
  then show ?thesis
    using length_split_at [of "q_rows q" n] by (simp add: acknowledge_effect enqueues_def)
next
  case (Synchronize n)
  then show ?thesis
    using account_synchronize [of n q]
    by (cases "0 \<le> n") (simp_all add: synchronize_negative enqueues_def)
next
  case (MarkAttempted now ns)
  then show ?thesis
    using depth_from_pending [of "queue_step op q" q] by (simp add: mark_frame enqueues_def)
next
  case (MarkUncertain now)
  then show ?thesis
    using depth_from_pending [of "queue_step op q" q] by (simp add: mark_frame enqueues_def)
next
  case Reopen
  then show ?thesis
    using depth_from_pending [of "reopen q" q] by (simp add: reopen_effect enqueues_def)
qed (use assms(1) in \<open>simp_all add: queue_step_defs expire_effect enqueues_def connector_op_def\<close>)

interpretation acct: weighted_system queue_step connector_op pending_block
  "\<lambda>q. depth q + dropped q" "\<lambda>op q. enqueues op - settled op q"
  by unfold_locales (rule account_step)

text \<open>
  C15: every item handed to \<open>enqueue\<close> is accounted for: after any sequence of the connector's
  calls the items enqueued so far are the rows still pending, plus the rows removed because the
  server's cursor covers them, plus \<open>dropped_count\<close> (refused for capacity, expired, or cleared
  as not replayable).
\<close>

theorem queue_accounts_for_every_item:
  assumes "list_all connector_op ops"
  shows "int (length (filter (\<lambda>op. \<exists>t k p. op = Enqueue t k p) ops)) =
    depth (fold queue_step ops (new_queue max_bytes max_age_seconds)) +
    dropped (fold queue_step ops (new_queue max_bytes max_age_seconds)) +
    run_weight queue_step settled ops (new_queue max_bytes max_age_seconds)"
proof -
  let ?q0 = "new_queue max_bytes max_age_seconds"
  have "depth (fold queue_step ops ?q0) + dropped (fold queue_step ops ?q0) =
      depth ?q0 + dropped ?q0 + run_weight queue_step (\<lambda>op q. enqueues op - settled op q) ops ?q0"
    by (rule acct.run_level [OF assms pending_block_new])
  then show ?thesis
    by (simp add: run_weight_minus run_weight_const enqueues_sum new_queue_state)
qed

theorem queue_accounts_for_every_item_witness:
  "int (length (filter (\<lambda>op. \<exists>t k p. op = Enqueue t k p)
      [Enqueue 0 ''event'' [], Enqueue 1 ''event'' [], Acknowledge 1])) =
    depth (fold queue_step [Enqueue 0 ''event'' [], Enqueue 1 ''event'' [], Acknowledge 1]
      (new_queue 100 60)) +
    dropped (fold queue_step [Enqueue 0 ''event'' [], Enqueue 1 ''event'' [], Acknowledge 1]
      (new_queue 100 60)) +
    run_weight queue_step settled [Enqueue 0 ''event'' [], Enqueue 1 ''event'' [], Acknowledge 1]
      (new_queue 100 60)"
  by (rule queue_accounts_for_every_item) (simp add: connector_op_def)

section \<open>Drops ask for reconciliation\<close>

lemma drop_step:
  assumes "op \<noteq> MarkReconciled"
  shows "dropped q \<le> dropped (queue_step op q) \<and>
    (dropped q < dropped (queue_step op q) \<or> needs_reconciliation q \<longrightarrow>
       needs_reconciliation (queue_step op q))"
proof (cases op)
  case (Enqueue now k p)
  consider "over_capacity now p q" | "\<not> over_capacity now p q" "key_free now q"
    | "\<not> over_capacity now p q" "\<not> key_free now q" by blast
  then show ?thesis
    by cases (auto simp: Enqueue enqueue_rejected enqueue_accepted enqueue_duplicate expire_effect
        Let_def split: if_splits)
next
  case (Synchronize n)
  show ?thesis
  proof (cases "0 \<le> n")
    case True
    then show ?thesis by (cases rule: synchronize_cases [of n q]) (simp_all add: Synchronize)
  next
    case False
    then show ?thesis by (simp add: Synchronize synchronize_negative)
  qed
next
  case (MarkAttempted now ns)
  then show ?thesis by (simp add: mark_frame needs_reconciliation_def)
next
  case (MarkUncertain now)
  then show ?thesis by (simp add: mark_frame needs_reconciliation_def)
next
  case (EnsureNext n)
  then show ?thesis by (simp add: ensure_next_sequence_at_least_def)
qed (use assms in \<open>auto simp: queue_step_defs expire_effect acknowledge_effect reopen_effect\<close>)

lemma drop_run:
  "MarkReconciled \<notin> set ops \<Longrightarrow> dropped q \<le> dropped (fold queue_step ops q) \<and>
    (dropped q < dropped (fold queue_step ops q) \<or> needs_reconciliation q \<longrightarrow>
       needs_reconciliation (fold queue_step ops q))"
proof (induction ops arbitrary: q)
  case (Cons op ops)
  then have "op \<noteq> MarkReconciled" by auto
  then have "dropped q \<le> dropped (queue_step op q)"
    "dropped q < dropped (queue_step op q) \<or> needs_reconciliation q \<longrightarrow>
       needs_reconciliation (queue_step op q)"
    using drop_step [of op q] by blast+
  then show ?case using Cons.IH [of "queue_step op q"] Cons.prems by fastforce
qed simp

text \<open>
  No drop goes unnoticed: if a run of calls that never clears the flag has dropped anything,
  through a refusal, an expiry or a resynchronization, a reconciliation is required at its end.
\<close>

theorem drops_require_reconciliation:
  assumes "MarkReconciled \<notin> set ops" "dropped q < dropped (fold queue_step ops q)"
  shows "needs_reconciliation (fold queue_step ops q)"
  using drop_run [OF assms(1), of q] assms(2) by blast

theorem drops_require_reconciliation_witness:
  "needs_reconciliation (fold queue_step [Enqueue 0 ''event'' [(''value'', PInt 5)]] (new_queue 1 60))"
proof (rule drops_require_reconciliation)
  have "over_capacity 0 [(''value'', PInt 5)] (new_queue 1 60)"
    by (simp add: over_capacity_def payload_bytes_def new_queue_state)
  then show "dropped (new_queue 1 60) <
      dropped (fold queue_step [Enqueue 0 ''event'' [(''value'', PInt 5)]] (new_queue 1 60))"
    by (simp add: enqueue_rejected expire_effect)
qed simp

section \<open>First in, first out\<close>

lemma peek_all_sequences:
  assumes "pending_block q"
  shows "map sequence (fst (peek_all now limit q)) =
    sql_limit limit [acknowledged_sequence q + 1..next_sequence (expire_stale_queue now q) - 1]"
proof -
  have "map sequence (map row_item rs) = map row_sequence rs" for rs :: "queue_row list"
    by (induction rs) (simp_all add: row_item_def)
  moreover have "map row_sequence (sql_limit limit rs) = sql_limit limit (map row_sequence rs)"
    for rs :: "queue_row list"
    by (simp add: sql_limit_def take_map)
  moreover have "map row_sequence (sort_key row_sequence (q_rows (expire_stale_queue now q))) =
      [acknowledged_sequence q + 1..next_sequence (expire_stale_queue now q) - 1]"
    using pending_block_sorted [OF pending_block_expire [OF assms], of now]
    by (simp only: map_sort_key expire_effect(3))
  ultimately show ?thesis
    by (simp only: peek_all_def Let_def fst_conv)
qed

lemma enqueue_item:
  assumes "fst (enqueue now knd pl q) = Inr it" "accepted it"
  shows "\<not> over_capacity now pl q" "key_free now q"
    "it = \<lparr>sequence = next_sequence (expire_stale_queue now q), kind = knd, payload = pl,
       created_at = now, byte_size = payload_bytes pl, delivery_attempts = 0,
       last_attempted_at = None, accepted = True, drop_reason = None\<rparr>"
  using assms
  by (auto simp: enqueue_def over_capacity_def key_free_def insert_row_def Let_def split: if_splits)

text \<open>
  What \<open>enqueue\<close> accepts comes out of \<open>peek_all\<close> behind everything that was pending, with
  its sequence number, kind and byte size, marked as never attempted, and with the payload that
  \<open>json.loads\<close> makes of what \<open>json.dumps\<close> stored.
\<close>

theorem enqueue_then_peek:
  assumes block: "pending_block q"
    and accepted: "fst (enqueue now knd pl q) = Inr it" "accepted it"
    and fresh: "\<not> stale now' (snd (enqueue now knd pl q))"
  shows "fst (peek_all now' (-1) (snd (enqueue now knd pl q))) =
    fst (peek_all now (-1) q) @ [it\<lparr>payload := stored_payload pl\<rparr>]"
proof -
  let ?q1 = "expire_stale_queue now q"
  let ?r = "fresh_row (next_sequence ?q1) now knd pl"
  note item = enqueue_item [OF accepted]
  have block1: "pending_block ?q1" by (rule pending_block_expire [OF block])
  have rows: "q_rows (snd (enqueue now knd pl q)) = q_rows ?q1 @ [?r]"
    by (simp add: enqueue_accepted [OF item(1,2)] Let_def)
  have less: "row_sequence y < row_sequence ?r" if "y \<in> set (q_rows ?q1)" for y
  proof -
    from that have "row_sequence y \<in> set (pending ?q1)" by simp
    with block1 show ?thesis unfolding pending_block_def by (simp add: fresh_row_def)
  qed
  have "\<forall>y\<in>set (q_rows ?q1). row_sequence y \<le> row_sequence ?r"
    using less by fastforce
  then have "sort_key row_sequence (q_rows ?q1 @ [?r]) = sort_key row_sequence (q_rows ?q1) @ [?r]"
    by (rule sort_key_snoc)
  moreover have "row_item ?r = it\<lparr>payload := stored_payload pl\<rparr>"
    by (simp add: item(3) row_item_def fresh_row_def)
  ultimately show ?thesis
    using fresh by (simp add: peek_all_def rows expire_effect sql_limit_def Let_def)
qed

theorem enqueue_then_peek_witness:
  "\<exists>it. fst (peek_all 7 (-1) (snd (enqueue 5 ''event'' [] (new_queue 100 60)))) =
    fst (peek_all 5 (-1) (new_queue 100 60)) @ [it\<lparr>payload := stored_payload []\<rparr>]"
proof -
  let ?q = "new_queue 100 60"
  have block: "pending_block ?q" by (rule pending_block_new)
  have calm: "expire_stale_queue 5 ?q = ?q" by (simp add: expire_stale_queue_def new_queue_state)
  have room: "\<not> over_capacity 5 [] ?q"
    by (simp add: over_capacity_def payload_bytes_def calm new_queue_state queue_bytes_def)
  obtain it where it: "fst (enqueue 5 ''event'' [] ?q) = Inr it" "accepted it"
    using enqueue_accepted(2) [OF room pending_block_key_free [OF block]] by blast
  have "\<not> stale 7 (snd (enqueue 5 ''event'' [] ?q))"
    by (simp add: enqueue_accepted [OF room pending_block_key_free [OF block]] calm stale_def
        fresh_row_def new_queue_state cutoff_def Let_def)
  from enqueue_then_peek [OF block it this] show ?thesis by blast
qed

section \<open>The replay fence\<close>

text \<open>
  A row that no upload has been tried for has \<open>row_attempts\<close> zero; only such a row may still go
  out as real-time.
\<close>

definition queued_by :: "queue_op list \<Rightarrow> queue_row \<Rightarrow> bool" where
  "queued_by ops r \<longleftrightarrow> Enqueue (row_created r) (row_kind r) (row_payload r) \<in> set ops"

definition fenced :: "queue_op list \<Rightarrow> uplink_queue \<Rightarrow> bool" where
  "fenced ops q \<longleftrightarrow>
     (\<forall>r \<in> set (q_rows q). 0 \<le> row_attempts r \<and> (row_attempts r = 0 \<longrightarrow> queued_by ops r))"

lemma fenced_subset: "fenced ops q \<Longrightarrow> set (q_rows q') \<subseteq> set (q_rows q) \<Longrightarrow> fenced ops q'"
  by (auto simp: fenced_def)

lemma fenced_map:
  assumes "fenced ops q" "q_rows q' = map f (q_rows q)"
    and "\<And>r. 0 \<le> row_attempts r \<Longrightarrow> 0 \<le> row_attempts (f r) \<and> (row_attempts (f r) = 0 \<longrightarrow> f r = r)"
  shows "fenced ops q'"
  using assms unfolding fenced_def by (metis (no_types, lifting) imageE list.set_map)

lemma fenced_expire: "fenced ops q \<Longrightarrow> fenced ops (expire_stale_queue now q)"
  by (erule fenced_subset) (simp add: expire_effect)

lemma fenced_enqueue:
  assumes "fenced ops q" "Enqueue now knd pl \<in> set ops"
  shows "fenced ops (snd (enqueue now knd pl q))"
proof -
  note expired = fenced_expire [OF assms(1), of now]
  consider "over_capacity now pl q" | "\<not> over_capacity now pl q" "key_free now q"
    | "\<not> over_capacity now pl q" "\<not> key_free now q" by blast
  then show ?thesis
  proof cases
    case 1
    with expired show ?thesis by (simp add: enqueue_rejected fenced_def)
  next
    case 2
    with expired assms(2) show ?thesis
      by (simp add: enqueue_accepted fenced_def queued_by_def fresh_row_def Let_def)
  next
    case 3
    with assms show ?thesis by (simp add: enqueue_duplicate)
  qed
qed

lemma fenced_step:
  assumes "fenced ops q" "op \<in> set ops"
  shows "fenced ops (queue_step op q)"
proof (cases op)
  case (Enqueue now k p)
  then show ?thesis using assms by (simp add: fenced_enqueue)
next
  case (MarkAttempted now ns)
  show ?thesis
  proof (cases "ns = []")
    case False
    then show ?thesis
      unfolding MarkAttempted queue_step.simps
      by (intro fenced_map [OF assms(1), where f = "\<lambda>r. if row_sequence r \<in> set ns
            then r\<lparr>row_attempts := row_attempts r + 1, row_last := Some now\<rparr> else r"])
        (simp_all add: mark_delivery_attempted_def)
  qed (use assms MarkAttempted in \<open>simp add: mark_delivery_attempted_def\<close>)
next
  case (MarkUncertain now)
  show ?thesis
    unfolding MarkUncertain queue_step.simps
    by (rule fenced_map [OF assms(1), where f = "\<lambda>r.
          r\<lparr>row_attempts := (if row_attempts r = 0 then 1 else row_attempts r),
            row_last := Some (case row_last r of None \<Rightarrow> now | Some t \<Rightarrow> t)\<rparr>"])
      (simp_all add: mark_pending_delivery_uncertain_def)
next
  case (Synchronize n)
  then show ?thesis
    using synchronize_rows [of n q] by (auto intro!: fenced_subset [OF assms(1)])
next
  case Reopen
  show ?thesis
    unfolding Reopen queue_step.simps
    by (rule fenced_map [OF assms(1), where f = "\<lambda>r. if row_attempts r = 0
          then r\<lparr>row_attempts := 1,
                 row_last := Some (case row_last r of None \<Rightarrow> row_created r | Some t \<Rightarrow> t)\<rparr> else r"])
      (simp_all add: reopen_def initialize_def queue_file_def Let_def)
qed (use assms in \<open>auto simp: queue_step_defs ensure_next_sequence_at_least_def acknowledge_effect
  intro!: fenced_expire intro: fenced_subset\<close>)

lemma fenced_run:
  "fenced all_ops q \<Longrightarrow> set ops \<subseteq> set all_ops \<Longrightarrow> fenced all_ops (fold queue_step ops q)"
  by (induction ops arbitrary: q) (auto intro: fenced_step)

text \<open>
  C27: one failed or uncertain upload fences the whole pending queue: after
  \<open>mark_pending_delivery_uncertain\<close>, and whatever is called later, a row that still counts as
  never attempted was enqueued after the fence. So nothing that was pending at the failure can
  ever go out as real-time again.
\<close>

theorem replay_fence_holds:
  assumes "\<forall>r \<in> set (q_rows q). 0 \<le> row_attempts r"
    and "r \<in> set (q_rows (fold queue_step ops (mark_pending_delivery_uncertain now q)))"
    and "row_attempts r = 0"
  shows "Enqueue (row_created r) (row_kind r) (row_payload r) \<in> set ops"
proof -
  have "fenced ops (mark_pending_delivery_uncertain now q)"
    using assms(1) by (auto simp: fenced_def mark_pending_delivery_uncertain_def)
  then have "fenced ops (fold queue_step ops (mark_pending_delivery_uncertain now q))"
    by (rule fenced_run) simp
  then show ?thesis using assms(2,3) by (auto simp: fenced_def queued_by_def)
qed

theorem replay_fence_holds_witness:
  "\<exists>r. r \<in> set (q_rows (fold queue_step [Enqueue 5 ''event'' []]
        (mark_pending_delivery_uncertain 3 (new_queue 100 60)))) \<and>
     Enqueue (row_created r) (row_kind r) (row_payload r) \<in> set [Enqueue 5 ''event'' []]"
proof -
  let ?q = "new_queue 100 60"
  have same: "mark_pending_delivery_uncertain 3 ?q = ?q"
    by (simp add: mark_pending_delivery_uncertain_def new_queue_state new_queue_def initialize_def
        new_disk_def Let_def)
  have calm: "expire_stale_queue 5 ?q = ?q" by (simp add: expire_stale_queue_def new_queue_state)
  have room: "\<not> over_capacity 5 [] ?q"
    by (simp add: over_capacity_def payload_bytes_def calm new_queue_state queue_bytes_def)
  have here: "fresh_row 1 5 ''event'' [] \<in>
      set (q_rows (fold queue_step [Enqueue 5 ''event'' []] (mark_pending_delivery_uncertain 3 ?q)))"
    by (simp add: same enqueue_accepted [OF room pending_block_key_free [OF pending_block_new]] calm
        new_queue_state Let_def)
  have "Enqueue (row_created (fresh_row 1 5 ''event'' [])) (row_kind (fresh_row 1 5 ''event'' []))
      (row_payload (fresh_row 1 5 ''event'' [])) \<in> set [Enqueue 5 ''event'' []]"
    by (rule replay_fence_holds [OF _ here]) (simp_all add: new_queue_state fresh_row_def)
  with here show ?thesis by blast
qed

section \<open>Two threads at once\<close>

text \<open>
  Python's \<open>sqlite3\<close> opens a transaction only before the first statement that writes. When
  nothing is stale, \<open>enqueue\<close> therefore reads the next sequence number and the byte total
  outside any transaction, and its transaction starts with the write of \<open>next_sequence\<close>. These
  are the two halves; the subscription thread, the inventory thread and the upload thread all
  work on the file, each over a connection of its own.
\<close>

definition enqueue_read :: "uplink_queue \<Rightarrow> int \<times> int" where
  "enqueue_read q = (next_sequence q, queue_bytes q)"

definition enqueue_write ::
    "int \<times> int \<Rightarrow> time \<Rightarrow> string \<Rightarrow> pydict \<Rightarrow> uplink_queue \<Rightarrow> queue_item res \<times> uplink_queue" where
  "enqueue_write seen now knd pl q =
     (let sn = fst seen; total = snd seen; bs = payload_bytes pl;
          it = \<lparr>sequence = sn, kind = knd, payload = pl, created_at = now, byte_size = bs,
                delivery_attempts = 0, last_attempted_at = None, accepted = True,
                drop_reason = None\<rparr>
      in if q_max_bytes q < bs \<or> q_max_bytes q < total + bs
         then (Inr (it\<lparr>accepted := False, drop_reason := Some ''queue_capacity_exceeded''\<rparr>),
               record_drop 1 q)
         else case insert_row (fresh_row sn now knd pl) (set_metadata ''next_sequence'' (sn + 1) q) of
           Inl e \<Rightarrow> (Inl e, q)
         | Inr q2 \<Rightarrow> (Inr it, q2))"

text \<open>Uninterrupted, the halves are \<open>enqueue\<close>.\<close>

lemma enqueue_halves:
  "\<not> stale now q \<Longrightarrow> enqueue now knd pl q = enqueue_write (enqueue_read q) now knd pl q"
  by (simp add: enqueue_def enqueue_write_def enqueue_read_def expire_stale_queue_def stale_def
      fresh_row_def Let_def)

definition has_room :: "pydict \<Rightarrow> uplink_queue \<Rightarrow> bool" where
  "has_room pl q \<longleftrightarrow> queue_bytes q + payload_bytes pl \<le> q_max_bytes q \<and> 0 \<le> queue_bytes q"

lemma enqueue_write_room:
  assumes "has_room pl q" "snd seen = queue_bytes q" "q_max_bytes q' = q_max_bytes q"
    "fst seen \<notin> set (pending q')"
  shows "snd (enqueue_write seen now knd pl q') =
    set_metadata ''next_sequence'' (fst seen + 1)
      (q'\<lparr>q_rows := q_rows q' @ [fresh_row (fst seen) now knd pl]\<rparr>)"
  using assms
  by (auto simp: enqueue_write_def has_room_def insert_row_def fresh_row_def Let_def
      set_metadata_def)

text \<open>
  C39: two threads that enqueue at the same time can lose an item without a trace. When both
  have read before either writes, the second raises \<open>sqlite3.IntegrityError\<close> and its transaction
  is rolled back: the item is neither pending nor counted in \<open>dropped_count\<close>, and no
  reconciliation is required for it.
\<close>

theorem concurrent_enqueue_loses_item:
  assumes block: "pending_block q" and room: "has_room pl1 q" "has_room pl2 q"
  shows "let q1 = snd (enqueue_write (enqueue_read q) now1 k1 pl1 q)
    in enqueue_write (enqueue_read q) now2 k2 pl2 q1 = (Inl IntegrityError, q1) \<and>
       dropped q1 = dropped q \<and> needs_reconciliation q1 = needs_reconciliation q"
proof -
  let ?q1 = "snd (enqueue_write (enqueue_read q) now1 k1 pl1 q)"
  have free: "next_sequence q \<notin> set (pending q)" using block by (simp add: pending_block_def)
  have q1: "?q1 = set_metadata ''next_sequence'' (next_sequence q + 1)
      (q\<lparr>q_rows := q_rows q @ [fresh_row (next_sequence q) now1 k1 pl1]\<rparr>)"
    using enqueue_write_room [OF room(1), of "enqueue_read q" q] free
    by (simp add: enqueue_read_def)
  have "enqueue_write (enqueue_read q) now2 k2 pl2 ?q1 = (Inl IntegrityError, ?q1)"
    unfolding q1 using room(2)
    by (auto simp: enqueue_write_def enqueue_read_def has_room_def insert_row_def fresh_row_def
        Let_def)
  then show ?thesis by (simp add: Let_def) (simp add: q1)
qed

theorem concurrent_enqueue_loses_item_witness:
  "let q1 = snd (enqueue_write (enqueue_read (new_queue 100 60)) 1 ''event'' [] (new_queue 100 60))
    in enqueue_write (enqueue_read (new_queue 100 60)) 1 ''snapshot'' [] q1 =
         (Inl IntegrityError, q1) \<and>
       dropped q1 = dropped (new_queue 100 60) \<and>
       needs_reconciliation q1 = needs_reconciliation (new_queue 100 60)"
  by (rule concurrent_enqueue_loses_item)
    (simp_all add: pending_block_new has_room_def new_queue_state queue_bytes_def payload_bytes_def)

text \<open>
  An expiry that runs between the halves of an \<open>enqueue\<close> leaves a gap. The item keeps the
  sequence number read before the queue was cleared, so the only pending row does not follow the
  acknowledged cursor, which Core answers with a permanent sequence conflict.
\<close>

theorem concurrent_expiry_leaves_gap:
  assumes block: "pending_block q" and room: "has_room pl q" and stale: "stale now2 q"
  shows "let q2 = snd (enqueue_write (enqueue_read q) now1 k pl (expire_stale_queue now2 q))
    in pending q2 = [next_sequence q] \<and> acknowledged_sequence q2 + 1 < next_sequence q \<and>
       \<not> pending_block q2"
proof -
  let ?q2 = "snd (enqueue_write (enqueue_read q) now1 k pl (expire_stale_queue now2 q))"
  have q2: "?q2 = set_metadata ''next_sequence'' (next_sequence q + 1)
      ((expire_stale_queue now2 q)\<lparr>q_rows := [fresh_row (next_sequence q) now1 k pl]\<rparr>)"
    using enqueue_write_room [OF room, of "enqueue_read q" "expire_stale_queue now2 q"] stale
    by (simp add: enqueue_read_def expire_effect)
  obtain sn where "sn \<in> set (pending q)" using stale_nonempty [OF stale] by (cases "q_rows q") auto
  then have "sn \<in> {acknowledged_sequence q + 1..next_sequence q - 1}"
    using block unfolding pending_block_def by blast
  then have "acknowledged_sequence q + 1 < next_sequence q" by simp
  moreover have "pending ?q2 = [next_sequence q]" "acknowledged_sequence ?q2 = acknowledged_sequence q"
    by (simp_all add: q2 fresh_row_def expire_effect)
  moreover have "next_sequence ?q2 = next_sequence q + 1" by (simp add: q2)
  moreover have "\<not> pending_block ?q2"
  proof
    assume "pending_block ?q2"
    then have "acknowledged_sequence ?q2 + 1 \<in> set (pending ?q2)"
      using calculation unfolding pending_block_def by simp
    then show False using calculation by simp
  qed
  ultimately show ?thesis by (simp add: Let_def)
qed

theorem concurrent_expiry_leaves_gap_witness:
  "\<exists>q2. pending q2 = [2] \<and> acknowledged_sequence q2 + 1 < 2 \<and> \<not> pending_block q2"
proof -
  let ?q = "(new_queue 100 60)\<lparr>q_rows := [fresh_row 1 0 ''event'' []],
    q_metadata := [''next_sequence'' \<mapsto> 2]\<rparr>"
  have "pending_block ?q" "has_room [] ?q" "stale 60000001 ?q"
    by (simp_all add: pending_block_def fresh_row_def metadata_int_def has_room_def queue_bytes_def
        new_queue_state payload_bytes_def stale_def cutoff_def)
  note gap = concurrent_expiry_leaves_gap [OF this, of 60000000 "''event''"]
  have "next_sequence ?q = 2" by (simp add: metadata_int_def)
  with gap show ?thesis unfolding Let_def by metis
qed

end
