(* ===== verification/Reliability.thy ===== *)
theory Reliability
  imports Prelude
begin

text \<open>
  The module \<open>reliability.py\<close>: the circuit breaker that guards Core traffic and the bounded
  retry every Core call goes through. The breaker's methods hold a lock, so each is one atomic
  step; the clock reading a method takes is an argument of the step that takes it.
\<close>

section \<open>The circuit breaker\<close>

datatype circuit_state = Closed | Open | HalfOpen

fun circuit_text :: "circuit_state \<Rightarrow> string" where
  "circuit_text Closed = ''closed''"
| "circuit_text Open = ''open''"
| "circuit_text HalfOpen = ''half_open''"

record circuit_permit =
  permit_generation :: int
  half_open_probe :: bool

record circuit_breaker =
  failure_threshold :: int
  recovery_seconds :: real
  cb_state :: circuit_state
  failure_count :: int
  opened_at :: "real option"
  cb_generation :: int

definition new_breaker :: "int \<Rightarrow> real \<Rightarrow> circuit_breaker" where
  "new_breaker threshold recovery =
     \<lparr>failure_threshold = threshold, recovery_seconds = recovery, cb_state = Closed,
      failure_count = 0, opened_at = None, cb_generation = 0\<rparr>"

definition cb_close :: "circuit_breaker \<Rightarrow> circuit_breaker" where
  "cb_close b = b\<lparr>cb_state := Closed, failure_count := 0, opened_at := None\<rparr>"

definition cb_allow :: "real \<Rightarrow> circuit_breaker \<Rightarrow> circuit_permit option \<times> circuit_breaker" where
  "cb_allow now b =
     (if cb_state b = Closed
      then (Some \<lparr>permit_generation = cb_generation b, half_open_probe = False\<rparr>, b)
      else case opened_at b of
        None \<Rightarrow> (None, b)
      | Some t \<Rightarrow>
          if cb_state b = HalfOpen then (None, b)
          else if now - t < recovery_seconds b then (None, b)
          else (Some \<lparr>permit_generation = cb_generation b, half_open_probe = True\<rparr>,
                b\<lparr>cb_state := HalfOpen\<rparr>))"

definition cb_observe :: "circuit_breaker \<Rightarrow> circuit_permit" where
  "cb_observe b =
     \<lparr>permit_generation = cb_generation b, half_open_probe = (cb_state b = HalfOpen)\<rparr>"

definition cb_success :: "circuit_permit \<Rightarrow> circuit_breaker \<Rightarrow> bool \<times> circuit_breaker" where
  "cb_success p b =
     (if permit_generation p \<noteq> cb_generation b then (False, b) else (True, cb_close b))"

definition cb_failure :: "real \<Rightarrow> circuit_breaker \<Rightarrow> circuit_breaker" where
  "cb_failure now b =
     (let b1 = b\<lparr>cb_generation := cb_generation b + 1, failure_count := failure_count b + 1\<rparr>
      in if cb_state b1 = HalfOpen \<or> failure_threshold b1 \<le> failure_count b1
         then b1\<lparr>cb_state := Open, opened_at := Some now\<rparr> else b1)"

definition cb_current_state :: "circuit_breaker \<Rightarrow> circuit_state" where
  "cb_current_state b = cb_state b"

subsection \<open>Runs of breaker calls\<close>

datatype breaker_op =
    Allow real
  | Observe
  | Success circuit_permit
  | Failure real

fun breaker_step :: "breaker_op \<Rightarrow> circuit_breaker \<Rightarrow> circuit_breaker" where
  "breaker_step (Allow now) b = snd (cb_allow now b)"
| "breaker_step Observe b = b"
| "breaker_step (Success p) b = snd (cb_success p b)"
| "breaker_step (Failure now) b = cb_failure now b"

text \<open>The permits a run hands out through \<open>allow\<close>.\<close>

fun breaker_permits :: "breaker_op list \<Rightarrow> circuit_breaker \<Rightarrow> circuit_permit list" where
  "breaker_permits [] b = []"
| "breaker_permits (op # ops) b =
     (case op of
        Allow now \<Rightarrow> (case fst (cb_allow now b) of None \<Rightarrow> [] | Some p \<Rightarrow> [p])
      | _ \<Rightarrow> []) @ breaker_permits ops (breaker_step op b)"

text \<open>
  The fields agree: a circuit that is not closed knows when it opened and has reached its
  threshold; a closed one has counted fewer failures than that.
\<close>

definition breaker_inv :: "circuit_breaker \<Rightarrow> bool" where
  "breaker_inv b \<longleftrightarrow>
     1 \<le> failure_threshold b \<and> 0 \<le> failure_count b \<and>
     (cb_state b = Closed \<longrightarrow> failure_count b < failure_threshold b \<and> opened_at b = None) \<and>
     (cb_state b \<noteq> Closed \<longrightarrow> failure_threshold b \<le> failure_count b \<and> opened_at b \<noteq> None)"

lemma breaker_inv_new: "1 \<le> threshold \<Longrightarrow> breaker_inv (new_breaker threshold recovery)"
  by (simp add: breaker_inv_def new_breaker_def)

lemma breaker_step_inv: "breaker_inv b \<Longrightarrow> breaker_inv (breaker_step op b)"
  by (cases op)
    (auto simp: breaker_inv_def cb_allow_def cb_success_def cb_failure_def cb_close_def Let_def
      split: option.splits)

interpretation cb: invariant_system breaker_step "\<lambda>_. True" breaker_inv
  by unfold_locales (rule breaker_step_inv)

definition failure_weight :: "breaker_op \<Rightarrow> int" where
  "failure_weight op = (case op of Failure _ \<Rightarrow> 1 | _ \<Rightarrow> 0)"

interpretation cb_gen: weighted_system breaker_step "\<lambda>_. True" "\<lambda>_. True" cb_generation
  "\<lambda>op _. failure_weight op"
proof
  fix op b
  show "cb_generation (breaker_step op b) = cb_generation b + failure_weight op"
    by (cases op)
      (auto simp: failure_weight_def cb_allow_def cb_success_def cb_failure_def cb_close_def
        Let_def split: option.splits)
qed simp

lemma failure_weight_sum:
  "sum_list (map failure_weight ops) = int (length (filter (\<lambda>op. \<exists>t. op = Failure t) ops))"
  by (induction ops) (auto simp: failure_weight_def split: breaker_op.splits)

text \<open>The fields of a circuit breaker agree after every sequence of calls.\<close>

theorem breaker_run_inv:
  assumes "1 \<le> threshold"
  shows "breaker_inv (fold breaker_step ops (new_breaker threshold recovery))"
  by (rule cb.run_inv) (simp_all add: breaker_inv_new [OF assms] list_all_iff)

theorem breaker_run_inv_witness:
  "breaker_inv (fold breaker_step [Failure 1, Allow 2, Failure 3, Allow 9] (new_breaker 2 5))"
  by (rule breaker_run_inv) simp

subsection \<open>Fencing: a success that an intervening failure made stale\<close>

lemma allow_generation:
  "fst (cb_allow now b) = Some p \<Longrightarrow> permit_generation p = cb_generation b"
  by (auto simp: cb_allow_def split: if_splits option.splits)

lemma observe_generation: "permit_generation (cb_observe b) = cb_generation b"
  by (simp add: cb_observe_def)

lemma run_generation:
  "cb_generation (fold breaker_step ops b) =
     cb_generation b + int (length (filter (\<lambda>op. \<exists>t. op = Failure t) ops))"
  using cb_gen.run_level [of ops b] by (simp add: run_weight_const failure_weight_sum list_all_iff)

lemma run_generation_failure:
  assumes "Failure t \<in> set ops"
  shows "cb_generation b < cb_generation (fold breaker_step ops b)"
proof -
  from assms have "filter (\<lambda>op. \<exists>t. op = Failure t) ops \<noteq> []"
    by (auto simp: filter_empty_conv)
  then show ?thesis by (simp add: run_generation)
qed

text \<open>
  C31: a permit taken before a failure cannot close the circuit: whatever else happened between
  \<open>allow\<close> and \<open>success\<close>, one failure in between makes \<open>success\<close> return false and change
  nothing.
\<close>

theorem stale_success_is_ignored:
  assumes taken: "fst (cb_allow now b) = Some p"
    and failed: "Failure t \<in> set ops"
  shows "cb_success p (fold breaker_step ops (snd (cb_allow now b))) =
    (False, fold breaker_step ops (snd (cb_allow now b)))"
proof -
  have "cb_generation (snd (cb_allow now b)) = cb_generation b"
    using cb_gen.step_level [of "Allow now" b] by (simp add: failure_weight_def)
  then have "permit_generation p < cb_generation (fold breaker_step ops (snd (cb_allow now b)))"
    using run_generation_failure [OF failed, of "snd (cb_allow now b)"] allow_generation [OF taken]
    by simp
  then show ?thesis by (simp add: cb_success_def)
qed

theorem stale_success_is_ignored_witness:
  "\<exists>b p. fst (cb_allow 0 b) = Some p \<and>
     \<not> fst (cb_success p (fold breaker_step [Observe, Failure 1] (snd (cb_allow 0 b))))"
proof -
  let ?b = "new_breaker 5 60"
  have taken: "fst (cb_allow 0 ?b) = Some (cb_observe ?b)"
    by (simp add: cb_allow_def new_breaker_def cb_observe_def)
  have "\<not> fst (cb_success (cb_observe ?b)
      (fold breaker_step [Observe, Failure 1] (snd (cb_allow 0 ?b))))"
    by (subst stale_success_is_ignored [OF taken, of 1]) simp_all
  with taken show ?thesis by blast
qed

subsection \<open>The open circuit\<close>

text \<open>While a probe is out, \<open>allow\<close> and \<open>observe\<close> neither change the breaker nor admit anyone.\<close>

lemma half_open_silent:
  assumes "cb_state b = HalfOpen"
    and "list_all (\<lambda>op. op = Observe \<or> (\<exists>t. op = Allow t)) ops"
  shows "fold breaker_step ops b = b \<and> breaker_permits ops b = []"
  using assms(2)
proof (induction ops)
  case (Cons op ops)
  have refused: "cb_allow t b = (None, b)" for t
    using assms(1) by (simp add: cb_allow_def split: option.split)
  have IH: "fold breaker_step ops b = b" "breaker_permits ops b = []"
    using Cons by simp_all
  from Cons.prems have "op = Observe \<or> (\<exists>t. op = Allow t)" by simp
  then show ?case
    by (elim disjE exE) (simp_all add: refused IH)
qed simp

lemma allow_before_recovery:
  assumes "cb_state b = Open" "opened_at b = Some t" "now - t < recovery_seconds b"
  shows "cb_allow now b = (None, b)"
  using assms by (simp add: cb_allow_def)

lemma allow_after_recovery:
  assumes "cb_state b = Open" "opened_at b = Some t" "recovery_seconds b \<le> now - t"
  shows "cb_allow now b =
    (Some \<lparr>permit_generation = cb_generation b, half_open_probe = True\<rparr>,
     b\<lparr>cb_state := HalfOpen\<rparr>)"
  using assms by (simp add: cb_allow_def)

text \<open>
  An open circuit admits exactly one probe. Until the recovery time has passed every
  \<open>allow\<close> is refused; the first one after it gets a half-open permit; and however many
  callers ask after that, none is admitted until the probe reports success or failure.
\<close>

theorem open_circuit_admits_one_probe:
  assumes "cb_state b = Open" and opened: "opened_at b = Some t"
    and early: "list_all (\<lambda>now. now - t < recovery_seconds b) nows"
    and due: "recovery_seconds b \<le> now - t"
    and quiet: "list_all (\<lambda>op. op = Observe \<or> (\<exists>t. op = Allow t)) ops"
  shows "breaker_permits (map Allow nows @ Allow now # ops) b =
    [\<lparr>permit_generation = cb_generation b, half_open_probe = True\<rparr>]"
  using early
proof (induction nows)
  case Nil
  have "breaker_permits ops (b\<lparr>cb_state := HalfOpen\<rparr>) = []"
    using half_open_silent [of "b\<lparr>cb_state := HalfOpen\<rparr>" ops] quiet by simp
  then show ?case
    by (simp add: allow_after_recovery [OF assms(1) opened due])
next
  case (Cons n nows)
  then show ?case
    by (simp add: allow_before_recovery [OF assms(1) opened])
qed

theorem open_circuit_admits_one_probe_witness:
  "breaker_permits (map Allow [10, 59] @ Allow 61 # [Observe, Allow 62, Allow 500])
     (cb_failure 0 (new_breaker 1 60)) = [\<lparr>permit_generation = 1, half_open_probe = True\<rparr>]"
  by (subst open_circuit_admits_one_probe [where t = 0])
    (simp_all add: cb_failure_def new_breaker_def Let_def)

text \<open>
  Consecutive failures open a closed circuit exactly at the threshold: after \<open>n\<close> failures
  from a new breaker the circuit is open if and only if \<open>n\<close> has reached the threshold, and
  every further failure moves the opening time forward.
\<close>

theorem failures_open_at_threshold:
  assumes "1 \<le> threshold" "stamps \<noteq> []"
  shows "cb_state (fold cb_failure stamps (new_breaker threshold recovery)) =
      (if threshold \<le> int (length stamps) then Open else Closed) \<and>
    opened_at (fold cb_failure stamps (new_breaker threshold recovery)) =
      (if threshold \<le> int (length stamps) then Some (last stamps) else None)"
proof -
  let ?f = "\<lambda>ts. fold cb_failure ts (new_breaker threshold recovery)"
  have "failure_threshold (?f ts) = threshold \<and> failure_count (?f ts) = int (length ts) \<and>
      cb_state (?f ts) = (if threshold \<le> int (length ts) \<and> ts \<noteq> [] then Open else Closed) \<and>
      opened_at (?f ts) =
        (if threshold \<le> int (length ts) \<and> ts \<noteq> [] then Some (last ts) else None)" for ts
    using assms(1)
    by (induction ts rule: rev_induct)
      (auto simp: new_breaker_def cb_failure_def Let_def)
  then show ?thesis using assms(2) by simp
qed

theorem failures_open_at_threshold_witness:
  "cb_state (fold cb_failure [1, 2, 3] (new_breaker 3 60)) = Open \<and>
   opened_at (fold cb_failure [1, 2, 3] (new_breaker 3 60)) = Some 3"
  using failures_open_at_threshold [of 3 "[1, 2, 3]" 60] by simp

section \<open>Bounded retry\<close>

text \<open>
  \<open>operation\<close> is any computation on a state; \<open>draw\<close> is \<open>random.random()\<close> and \<open>sleep\<close>
  the injected sleep. \<open>attempt\<close> is the loop variable.
\<close>

definition retry_delay :: "real \<Rightarrow> int \<Rightarrow> real \<Rightarrow> real" where
  "retry_delay base_seconds attempt r =
     min (base_seconds * 2 ^ nat (attempt - 1)) 30 * (75 / 100 + r * (5 / 10))"

function retry_loop ::
    "('s, 'a) eff \<Rightarrow> int \<Rightarrow> real \<Rightarrow> (real \<Rightarrow> 's \<Rightarrow> 's) \<Rightarrow> ('s \<Rightarrow> real \<times> 's) \<Rightarrow>
     (exn \<Rightarrow> bool) \<Rightarrow> int \<Rightarrow> ('s, 'a) eff" where
  "retry_loop operation max_attempts base_seconds sleep draw retryable attempt s =
     (if max_attempts < attempt then (Inl (RuntimeError ''unreachable''), s)
      else case operation s of
        (Inr a, s1) \<Rightarrow> (Inr a, s1)
      | (Inl e, s1) \<Rightarrow>
          if attempt = max_attempts \<or> \<not> retryable e then (Inl e, s1)
          else (let (r, s2) = draw s1;
                    s3 = sleep (retry_delay base_seconds attempt r) s2
                in retry_loop operation max_attempts base_seconds sleep draw retryable
                     (attempt + 1) s3))"
  by pat_completeness auto
termination
  by (relation "measure (\<lambda>(_, m, _, _, _, _, a, _). nat (m + 1 - a))") auto

declare retry_loop.simps [simp del]

definition retry_bounded ::
    "('s, 'a) eff \<Rightarrow> int \<Rightarrow> real \<Rightarrow> (real \<Rightarrow> 's \<Rightarrow> 's) \<Rightarrow> ('s \<Rightarrow> real \<times> 's) \<Rightarrow>
     (exn \<Rightarrow> bool) \<Rightarrow> ('s, 'a) eff" where
  "retry_bounded operation max_attempts base_seconds sleep draw retryable s =
     (if max_attempts < 1 then (Inl (ValueError ''max_attempts must be positive''), s)
      else retry_loop operation max_attempts base_seconds sleep draw retryable 1 s)"

text \<open>A frame condition of the operation, the sleep and the draw is one of the retry.\<close>

context frame_condition
begin

lemma framed_retry:
  assumes "framed R opn" "\<And>d s. R s (sleep d s)" "\<And>s. R s (snd (draw s))"
  shows "framed R (retry_bounded opn max_attempts base sleep draw retryable)"
proof -
  have "R s (snd (retry_loop opn m base sleep draw retryable (m + 1 - int k) s))" for k s m
  proof (induction k arbitrary: s)
    case 0
    show ?case by (subst retry_loop.simps) (simp add: refl)
  next
    case (Suc k)
    let ?a = "m + 1 - int (Suc k)"
    obtain r s1 where o: "opn s = (r, s1)" by (cases "opn s")
    have 1: "R s s1" using framedD [OF assms(1) o] .
    obtain x s2 where d: "draw s1 = (x, s2)" by (cases "draw s1")
    have "R s1 s2" using assms(3) [of s1] d by simp
    then have 2: "R s (sleep t s2)" for t using 1 assms(2) trans by blast
    have "?a + 1 = m + 1 - int k" by simp
    then have 3: "R s (snd (retry_loop opn m base sleep draw retryable (?a + 1) (sleep t s2)))" for t
      using 2 [of t] Suc.IH [of "sleep t s2"] trans by (simp only:)
    show ?case
      using 1 2 3 by (subst retry_loop.simps) (auto simp: o d Let_def split: sum.split)
  qed
  from this [of _ max_attempts "nat max_attempts"]
  have "1 \<le> max_attempts \<Longrightarrow> R s (snd (retry_loop opn max_attempts base sleep draw retryable 1 s))" for s
    by simp
  then show ?thesis by (simp add: framed_def retry_bounded_def refl)
qed

text \<open>What a retry returns is what its last call of the operation returned.\<close>

lemma retry_last:
  assumes "framed R opn" "\<And>d s. R s (sleep d s)" "\<And>s. R s (snd (draw s))"
    and "retry_bounded opn max_attempts base sleep draw retryable s = (Inr a, s')"
  shows "\<exists>p. R s p \<and> opn p = (Inr a, s')"
proof -
  have "retry_loop opn m base sleep draw retryable (m + 1 - int k) s = (Inr a, s') \<Longrightarrow>
      \<exists>p. R s p \<and> opn p = (Inr a, s')" for k s m
  proof (induction k arbitrary: s)
    case 0
    then show ?case by (subst (asm) retry_loop.simps) simp
  next
    case (Suc k)
    obtain r s1 where o: "opn s = (r, s1)" by (cases "opn s")
    obtain x s2 where d: "draw s1 = (x, s2)" by (cases "draw s1")
    have "R s1 s2" using assms(3) [of s1] d by simp
    then have sleep: "R s (sleep t s2)" for t
      using framedD [OF assms(1) o] assms(2) trans by blast
    show ?case
    proof (cases r)
      case (Inr b)
      with Suc.prems o have "r = Inr a" "s1 = s'"
        by (subst (asm) retry_loop.simps, simp split: if_splits)+
      with o show ?thesis using refl by blast
    next
      case (Inl e)
      obtain t where "retry_loop opn m base sleep draw retryable (m + 1 - int k) (sleep t s2) = (Inr a, s')"
        using Suc.prems by (subst (asm) retry_loop.simps) (auto simp: o d Inl Let_def algebra_simps split: if_splits)
      from Suc.IH [OF this] show ?thesis using sleep trans by blast
    qed
  qed
  from this [of max_attempts "nat max_attempts"] assms(4) show ?thesis
    by (auto simp: retry_bounded_def split: if_splits)
qed

end

text \<open>Operations that agree wherever the retry can take them give the same retry.\<close>

lemma retry_bounded_cong:
  assumes "I s" "\<And>s. I s \<Longrightarrow> opn s = opn' s" "\<And>s. I s \<Longrightarrow> I (snd (opn s))"
    and "\<And>d s. I s \<Longrightarrow> I (sleep d s)" "\<And>s. I s \<Longrightarrow> I (snd (draw s))"
  shows "retry_bounded opn n base sleep draw retryable s = retry_bounded opn' n base sleep draw retryable s"
proof -
  have "a = n + 1 - int k \<Longrightarrow> I s \<Longrightarrow> retry_loop opn n base sleep draw retryable a s =
      retry_loop opn' n base sleep draw retryable a s" for k a s
  proof (induction k arbitrary: a s)
    case 0
    then show ?case by (simp add: retry_loop.simps)
  next
    case (Suc k)
    obtain r s1 where o: "opn s = (r, s1)" by (cases "opn s")
    obtain x s2 where d: "draw s1 = (x, s2)" by (cases "draw s1")
    have o': "opn' s = (r, s1)" using assms(2) [OF Suc.prems(2)] o by simp
    have "I s1" using assms(3) [OF Suc.prems(2)] o by simp
    then have "I s2" using assms(5) [of s1] d by simp
    moreover have "a + 1 = n + 1 - int k" using Suc.prems(1) by simp
    ultimately have "retry_loop opn n base sleep draw retryable (a + 1) (sleep t s2) =
        retry_loop opn' n base sleep draw retryable (a + 1) (sleep t s2)" for t
      using Suc.IH assms(4) by blast
    then show ?case
      by (simp add: retry_loop.simps [of _ _ _ _ _ _ a] o o' d split: sum.split)
  qed
  from this [of 1 "nat n", OF _ assms(1)] show ?thesis by (auto simp: retry_bounded_def)
qed

text \<open>
  The state in which attempt number \<open>k + 1\<close> starts, when the \<open>k\<close> attempts before it failed
  and were slept on.
\<close>

primrec retry_state ::
    "('s, 'a) eff \<Rightarrow> real \<Rightarrow> (real \<Rightarrow> 's \<Rightarrow> 's) \<Rightarrow> ('s \<Rightarrow> real \<times> 's) \<Rightarrow> nat \<Rightarrow> 's \<Rightarrow> 's" where
  "retry_state operation base_seconds sleep draw 0 s = s"
| "retry_state operation base_seconds sleep draw (Suc k) s =
     (let s1 = snd (operation (retry_state operation base_seconds sleep draw k s));
          (r, s2) = draw s1
      in sleep (retry_delay base_seconds (int k + 1) r) s2)"

text \<open>A failure the loop sleeps on, and an outcome it stops at on attempt \<open>k + 1\<close> of \<open>n\<close>.\<close>

definition retried :: "(exn \<Rightarrow> bool) \<Rightarrow> 'a res \<Rightarrow> bool" where
  "retried retryable r = (case r of Inl e \<Rightarrow> retryable e | Inr _ \<Rightarrow> False)"

lemma retry_loop_spec:
  assumes "k < nat n"
  shows "\<exists>j. k \<le> j \<and> j < nat n \<and>
    retry_loop opn n base sleep draw retryable (int k + 1) (retry_state opn base sleep draw k s) =
      opn (retry_state opn base sleep draw j s) \<and>
    (\<forall>i\<in>{k..<j}. retried retryable (fst (opn (retry_state opn base sleep draw i s)))) \<and>
    (retried retryable (fst (opn (retry_state opn base sleep draw j s))) \<longrightarrow> Suc j = nat n)"
  using assms
proof (induction "nat n - k" arbitrary: k)
  case 0
  then show ?case by simp
next
  case (Suc d)
  let ?st = "\<lambda>i. retry_state opn base sleep draw i s"
  let ?stop = "\<not> retried retryable (fst (opn (?st k))) \<or> Suc k = nat n"
  show ?case
  proof (cases ?stop)
    case True
    then have "retry_loop opn n base sleep draw retryable (int k + 1) (?st k) = opn (?st k)"
      using Suc.prems
      by (auto simp: retry_loop.simps [of opn n base sleep draw retryable "int k + 1"] retried_def
        split: sum.splits prod.splits)
    with True Suc.prems show ?thesis by (intro exI [of _ k]) auto
  next
    case False
    then obtain e s1 where fails: "opn (?st k) = (Inl e, s1)" "retryable e"
      by (cases "opn (?st k)") (auto simp: retried_def split: sum.splits)
    have "retry_loop opn n base sleep draw retryable (int k + 1) (?st k) =
        retry_loop opn n base sleep draw retryable (int (Suc k) + 1) (?st (Suc k))"
      using False Suc.prems fails
      by (subst retry_loop.simps) (auto simp: Let_def add.commute split: prod.splits)
    moreover have d_eq: "d = nat n - Suc k" and k_less: "Suc k < nat n"
      using Suc.hyps(2) Suc.prems False by auto
    moreover obtain j where "Suc k \<le> j" "j < nat n"
      and j: "retry_loop opn n base sleep draw retryable (int (Suc k) + 1) (?st (Suc k)) =
          opn (?st j)"
        "\<forall>i\<in>{Suc k..<j}. retried retryable (fst (opn (?st i)))"
        "retried retryable (fst (opn (?st j))) \<longrightarrow> Suc j = nat n"
      using Suc.hyps(1) [OF d_eq k_less] by blast
    moreover have "\<forall>i\<in>{k..<j}. retried retryable (fst (opn (?st i)))"
      using j(2) False by (metis atLeastLessThan_iff le_antisym not_less_eq_eq)
    ultimately show ?thesis by (intro exI [of _ j]) auto
  qed
qed

text \<open>
  C32: \<open>retry_bounded\<close> runs the operation at least once and at most \<open>max_attempts\<close> times. It
  returns what the operation returned on the first attempt that succeeded, raised an exception
  that is not retryable, or was the last one allowed; every attempt before it failed with a
  retryable exception and was followed by one sleep.
\<close>

theorem retry_bounded_result:
  assumes "1 \<le> max_attempts"
  shows "\<exists>j < nat max_attempts.
    retry_bounded opn max_attempts base sleep draw retryable s =
      opn (retry_state opn base sleep draw j s) \<and>
    (\<forall>i < j. retried retryable (fst (opn (retry_state opn base sleep draw i s)))) \<and>
    (retried retryable (fst (opn (retry_state opn base sleep draw j s))) \<longrightarrow>
       Suc j = nat max_attempts)"
  using assms retry_loop_spec [of 0 max_attempts opn base sleep draw retryable s]
  by (fastforce simp: retry_bounded_def)

text \<open>An operation that plays a script of outcomes, with the sleeps logged.\<close>

definition play :: "('a res list \<times> real list, 'a) eff" where
  "play s = (case s of ([], slept) \<Rightarrow> (Inl (OtherError ''script''), s)
     | (r # rs, slept) \<Rightarrow> (r, (rs, slept)))"

definition log_sleep :: "real \<Rightarrow> 'a res list \<times> real list \<Rightarrow> 'a res list \<times> real list" where
  "log_sleep d s = (fst s, snd s @ [d])"

theorem retry_bounded_result_witness:
  "fst (retry_bounded play 3 1 log_sleep (\<lambda>s. (0, s)) (\<lambda>e. e = TransportError [])
     ([Inl (TransportError []), Inr (7::int)], [])) = Inr 7"
proof -
  let ?st = "\<lambda>j. retry_state play 1 log_sleep (\<lambda>s. (0, s)) j
    ([Inl (TransportError []), Inr (7::int)], [])"
  obtain j where j: "j < nat 3"
    "retry_bounded play 3 1 log_sleep (\<lambda>s. (0, s)) (\<lambda>e. e = TransportError [])
      ([Inl (TransportError []), Inr (7::int)], []) = play (?st j)"
    "\<forall>i < j. retried (\<lambda>e. e = TransportError []) (fst (play (?st i)))"
    "retried (\<lambda>e. e = TransportError []) (fst (play (?st j))) \<longrightarrow> Suc j = nat 3"
    using retry_bounded_result [of 3 play 1 log_sleep "\<lambda>s. (0, s)" "\<lambda>e. e = TransportError []"
      "([Inl (TransportError []), Inr (7::int)], [])"] by auto
  have steps: "fst (play (?st 0)) = Inl (TransportError [])" "fst (play (?st 1)) = Inr 7"
    by (simp_all add: play_def log_sleep_def)
  have "j \<noteq> 0"
  proof
    assume "j = 0"
    with j(4) steps(1) show False by (simp add: retried_def)
  qed
  moreover have "\<not> 1 < j"
  proof
    assume "1 < j"
    then have "retried (\<lambda>e. e = TransportError []) (fst (play (?st 1)))" using j(3) by blast
    with steps(2) show False by (simp add: retried_def)
  qed
  ultimately have "j = 1" by simp
  with j(2) steps(2) show ?thesis by simp
qed

text \<open>
  Every sleep of \<open>retry_bounded\<close> lies between three quarters and five quarters of the
  doubled base delay, and never exceeds 37.5 seconds.
\<close>

theorem retry_delay_bounds:
  assumes "0 \<le> base_seconds" "0 \<le> r" "r < 1"
  shows "min (base_seconds * 2 ^ nat (attempt - 1)) 30 * (3 / 4) \<le> retry_delay base_seconds attempt r \<and>
    retry_delay base_seconds attempt r \<le> min (base_seconds * 2 ^ nat (attempt - 1)) 30 * (5 / 4) \<and>
    0 \<le> retry_delay base_seconds attempt r \<and> retry_delay base_seconds attempt r \<le> 75 / 2"
proof -
  let ?c = "min (base_seconds * 2 ^ nat (attempt - 1)) 30"
  have c: "0 \<le> ?c" "?c \<le> 30" using assms(1) by simp_all
  have "3 / 4 \<le> 75 / 100 + r * (5 / 10)" "75 / 100 + r * (5 / 10) \<le> 5 / 4"
    using assms(2,3) by simp_all
  then have "?c * (3 / 4) \<le> ?c * (75 / 100 + r * (5 / 10))"
    "?c * (75 / 100 + r * (5 / 10)) \<le> ?c * (5 / 4)"
    using c(1) by (blast intro: mult_left_mono)+
  moreover have "?c * (5 / 4) \<le> 75 / 2" "0 \<le> ?c * (3 / 4)" using c by simp_all
  ultimately show ?thesis unfolding retry_delay_def by linarith
qed

theorem retry_delay_bounds_witness:
  "retry_delay 1 4 (1 / 2) \<le> 75 / 2 \<and> 0 \<le> retry_delay 1 4 (1 / 2)"
  using retry_delay_bounds [of 1 "1 / 2" 4] by simp

end
