(* ===== verification/Timestamps.thy ===== *)
theory Timestamps
  imports Py_Values
begin

text \<open>
  Points in time: microseconds since the epoch in UTC, their ISO 8601 text, and the parsing
  helpers \<open>parse_time\<close> (\<open>rule_package.py\<close>) and \<open>_deadline\<close> (\<open>command_executor.py\<close>). The
  interpreter's \<open>datetime.fromisoformat\<close> is the parameter \<open>fromiso\<close>: the wall-clock reading in
  microseconds and the offset from UTC, if the text has one.
\<close>

type_synonym iso_parser = "string \<Rightarrow> (int \<times> int option) option"

definition civil_from_days :: "int \<Rightarrow> int \<times> int \<times> int" where
  "civil_from_days days =
     (let z = days + 719468;
          era = z div 146097;
          doe = z - era * 146097;
          yoe = (doe - doe div 1460 + doe div 36524 - doe div 146096) div 365;
          doy = doe - (365 * yoe + yoe div 4 - yoe div 100);
          mp = (5 * doy + 2) div 153;
          d = doy - (153 * mp + 2) div 5 + 1;
          m = (if mp < 10 then mp + 3 else mp - 9)
      in (yoe + era * 400 + (if m \<le> 2 then 1 else 0), m, d))"

definition digit :: "int \<Rightarrow> char" where
  "digit n = char_of (48 + nat (n mod 10))"

definition two_digits :: "int \<Rightarrow> string" where
  "two_digits n = [digit (n div 10), digit n]"

definition four_digits :: "int \<Rightarrow> string" where
  "four_digits n = [digit (n div 1000), digit (n div 100), digit (n div 10), digit n]"

definition six_digits :: "int \<Rightarrow> string" where
  "six_digits n = [digit (n div 100000), digit (n div 10000), digit (n div 1000),
     digit (n div 100), digit (n div 10), digit n]"

text \<open>\<open>datetime.isoformat()\<close> of an aware datetime in UTC: no fraction when it is zero.\<close>

definition isoformat :: "time \<Rightarrow> string" where
  "isoformat t =
     (let us = t mod 1000000; secs = t div 1000000;
          sod = secs mod 86400; (y, m, d) = civil_from_days (secs div 86400)
      in four_digits y @ ''-'' @ two_digits m @ ''-'' @ two_digits d @ ''T'' @
         two_digits (sod div 3600) @ '':'' @ two_digits (sod div 60 mod 60) @ '':'' @
         two_digits (sod mod 60) @
         (if us = 0 then [] else ''.'' @ six_digits us) @ ''+00:00'')"

text \<open>\<open>str(value).replace("Z", "+00:00")\<close>, then UTC; a reading without offset is taken as UTC.\<close>

definition replace_zulu :: "string \<Rightarrow> string" where
  "replace_zulu s = concat (map (\<lambda>c. if c = CHR ''Z'' then ''+00:00'' else [c]) s)"

definition to_utc :: "int \<times> int option \<Rightarrow> time" where
  "to_utc r = (case r of (t, None) \<Rightarrow> t | (t, Some offset) \<Rightarrow> t - offset)"

definition parse_time :: "iso_parser \<Rightarrow> pyval \<Rightarrow> time res" where
  "parse_time fromiso v =
     (case fromiso (replace_zulu (py_str v)) of
        None \<Rightarrow> Inl (ValueError ''Invalid isoformat string'')
      | Some r \<Rightarrow> Inr (to_utc r))"

end
