(* ===== verification/Rule_Package.thy ===== *)
theory Rule_Package
  imports Timestamps
begin

text \<open>
  The module \<open>rule_package.py\<close>: what a rule package must satisfy before the connector runs it.
  Outside code is a parameter: \<open>sha\<close> is the hexadecimal SHA-256 digest of a text, \<open>ed25519\<close>
  tells whether a public key in PEM form is an Ed25519 key that verifies a base64 signature (given
  with its padding) of a text, \<open>fromiso\<close> parses ISO 8601.
\<close>

definition PACKAGE_VERSION :: string where
  "PACKAGE_VERSION = ''1.0''"

definition RUNTIME_VERSION :: string where
  "RUNTIME_VERSION = ''zediot-ha-rule-runtime-v1''"

definition MAX_CLOCK_SKEW :: time where
  "MAX_CLOCK_SKEW = 5 * 60 * 1000000"

definition FORBIDDEN_KEYS :: "string list" where
  "FORBIDDEN_KEYS = [''access_token'', ''refresh_token'', ''raw_token'', ''credential'',
     ''credentials'', ''secret'', ''private_key'', ''provider_payload'', ''provider_raw'', ''raw'',
     ''raw_payload'', ''source_payload'', ''yaml'', ''jinja'', ''script'']"

record package_crypto =
  pc_sha :: "string \<Rightarrow> string"
  pc_ed25519 :: "string \<Rightarrow> string \<Rightarrow> string \<Rightarrow> bool"
  pc_fromiso :: iso_parser

record verified_package =
  package_id :: string
  package_hash :: string
  signature :: string
  signature_key_id :: string
  signing_public_key_pem :: string
  package_payload :: pydict
  valid_until :: time

definition as_document :: "verified_package \<Rightarrow> pydict" where
  "as_document p = [(''package_id'', PStr (package_id p)), (''payload_hash'', PStr (package_hash p)),
     (''signature'', PStr (signature p)), (''signature_key_id'', PStr (signature_key_id p)),
     (''signing_public_key_pem'', PStr (signing_public_key_pem p)),
     (''payload'', PDict (package_payload p))]"

section \<open>Forbidden keys\<close>

fun ensure_safe :: "string \<Rightarrow> pyval \<Rightarrow> unit res" and
    ensure_safe_items :: "string \<Rightarrow> pydict \<Rightarrow> unit res" and
    ensure_safe_elements :: "string \<Rightarrow> nat \<Rightarrow> pyval list \<Rightarrow> unit res" where
  "ensure_safe path (PDict d) = ensure_safe_items path d"
| "ensure_safe path (PList xs) = ensure_safe_elements path 0 xs"
| "ensure_safe path _ = Inr ()"
| "ensure_safe_items path [] = Inr ()"
| "ensure_safe_items path ((key, item) # d) =
     (let normalized = lower (strip key) in
      if normalized \<in> set FORBIDDEN_KEYS
      then Inl (RuntimeError (''RULE_PACKAGE_FORBIDDEN_FIELD:'' @ path @ ''.'' @ normalized))
      else rbind (ensure_safe (path @ ''.'' @ normalized) item) (\<lambda>_. ensure_safe_items path d))"
| "ensure_safe_elements path index [] = Inr ()"
| "ensure_safe_elements path index (item # items) =
     rbind (ensure_safe (path @ ''['' @ nat_digits index @ '']'') item)
       (\<lambda>_. ensure_safe_elements path (Suc index) items)"

text \<open>Every key of a value, at any depth.\<close>

fun all_keys :: "pyval \<Rightarrow> string set" where
  "all_keys (PDict d) = fst ` set d \<union> (\<Union>(k, v) \<in> set d. all_keys v)"
| "all_keys (PList xs) = (\<Union>v \<in> set xs. all_keys v)"
| "all_keys _ = {}"

definition forbidden_key :: "string \<Rightarrow> bool" where
  "forbidden_key key \<longleftrightarrow> lower (strip key) \<in> set FORBIDDEN_KEYS"

lemma ensure_safe_iff:
  "ensure_safe path v = Inr () \<longleftrightarrow> (\<forall>key \<in> all_keys v. \<not> forbidden_key key)"
  "ensure_safe_items path d = Inr () \<longleftrightarrow> (\<forall>key \<in> all_keys (PDict d). \<not> forbidden_key key)"
  "ensure_safe_elements path index xs = Inr () \<longleftrightarrow> (\<forall>key \<in> all_keys (PList xs). \<not> forbidden_key key)"
  by (induction path v and path d and path index xs
      rule: ensure_safe_ensure_safe_items_ensure_safe_elements.induct)
    (auto simp: forbidden_key_def rbind_Inr_iff Let_def)

definition canonical_bytes :: "pydict \<Rightarrow> string res" where
  "canonical_bytes pl = rbind (ensure_safe ''package'' (PDict pl)) (\<lambda>_. Inr (json_dumps (PDict pl)))"

section \<open>The runtime plan\<close>

text \<open>\<open>v in {...}\<close> raises for a value that cannot be hashed.\<close>

definition in_strings :: "pyval \<Rightarrow> string list \<Rightarrow> bool res" where
  "in_strings v ss = (case v of
     PList _ \<Rightarrow> Inl (TypeError ''unhashable type'')
   | PDict _ \<Rightarrow> Inl (TypeError ''unhashable type'')
   | _ \<Rightarrow> Inr (v \<in> PStr ` set ss))"

definition validate_binding :: "pydict \<Rightarrow> unit res" where
  "validate_binding binding =
     (let invalid = Inl (RuntimeError ''RULE_PACKAGE_EVENT_BINDING_INVALID'') in
      if dget binding ''provider_event_type'' \<noteq> PStr ''state_changed'' then invalid
      else if str_or_empty (dget binding ''provider_entity_id'') = [] then invalid
      else rbind (in_strings (dget binding ''canonical_event_type'')
             [''latest_state.changed'', ''telemetry.ingested'', ''device.presence.changed'',
              ''device.status.changed'']) (\<lambda>known.
        if \<not> known then invalid
        else if str_or_empty (dget binding ''target_id'') = [] then invalid
        else Inr ()))"

definition validate_plan_action :: "pyval \<Rightarrow> unit res" where
  "validate_plan_action action =
     (let invalid = Inl (RuntimeError ''RULE_PACKAGE_ACTION_PLAN_INVALID'') in
      rbind (dict_or_empty action) (\<lambda>v.
        if dget v ''action_type'' \<noteq> PStr ''device_command'' then invalid
        else if dget v ''provider_domain'' \<noteq> PStr ''light'' then invalid
        else rbind (in_strings (dget v ''provider_service'') [''turn_on'', ''turn_off'']) (\<lambda>known.
          if \<not> known then invalid
          else if \<not> starts_with (str_or_empty (dget v ''provider_entity_id'')) ''light.'' then invalid
          else if dget v ''canonical_capability'' \<noteq> PStr ''light.power'' then invalid
          else if dget v ''template_code'' \<noteq> PStr ''set_light_power'' then invalid
          else if \<not> (\<exists>b \<in> {True, False}. dget v ''value'' = PBool b) then invalid
          else rbind (dict_or_empty (dget v ''command_safety_evidence'')) (\<lambda>safety.
            if \<not> truthy (dget safety ''reviewed'') \<or>
               dget safety ''risk_class'' \<noteq> PStr ''non_destructive''
            then Inl (RuntimeError ''RULE_PACKAGE_ACTION_SAFETY_INVALID'')
            else Inr ()))))"

definition validate_runtime_plan :: "pydict \<Rightarrow> unit res" where
  "validate_runtime_plan plan =
     rbind (dict_or_empty (dget plan ''event_binding'')) (\<lambda>binding.
     rbind (validate_binding binding) (\<lambda>_.
       case dget plan ''actions'' of
         PList actions \<Rightarrow>
           (if \<not> (1 \<le> length actions \<and> length actions \<le> 20)
            then Inl (RuntimeError ''RULE_PACKAGE_ACTION_PLAN_INVALID'')
            else rbind (rmap validate_plan_action actions) (\<lambda>_. Inr ()))
       | _ \<Rightarrow> Inl (RuntimeError ''RULE_PACKAGE_ACTION_PLAN_INVALID'')))"

section \<open>Verification\<close>

definition pad_base64 :: "string \<Rightarrow> string" where
  "pad_base64 s = s @ replicate (nat ((- int (length s)) mod 4)) (CHR ''='')"

definition is_ascii :: "string \<Rightarrow> bool" where
  "is_ascii s = list_all (\<lambda>c. (of_char c :: nat) < 128) s"

text \<open>The \<open>try\<close> block around the signature: whatever goes wrong in it is an invalid signature.\<close>

definition signature_valid :: "package_crypto \<Rightarrow> string \<Rightarrow> string \<Rightarrow> string \<Rightarrow> bool" where
  "signature_valid env pem sig canonical =
     (is_ascii pem \<and> is_ascii sig \<and> pc_ed25519 env pem (pad_base64 sig) canonical)"

definition METADATA_FIELDS :: "string list" where
  "METADATA_FIELDS = [''deployment_id'', ''rule_id'', ''version_id'', ''version_no'',
     ''integration_instance_id'']"

definition check :: "bool \<Rightarrow> string \<Rightarrow> unit res" where
  "check ok message = (if ok then Inr () else Inl (RuntimeError message))"

definition verify_rule_package_delivery ::
    "package_crypto \<Rightarrow> pydict \<Rightarrow> string \<Rightarrow> string set \<Rightarrow> time \<Rightarrow> verified_package res" where
  "verify_rule_package_delivery env delivery instance_id trusted_key_ids now =
     rbind (dict_or_empty (dget delivery ''payload'')) (\<lambda>pl.
     rbind (ensure_safe ''package'' (PDict pl)) (\<lambda>_.
     rbind (canonical_bytes pl) (\<lambda>canonical.
     let hash = pc_sha env canonical; pid = ''rpkg_'' @ take 24 hash in
     rbind (check (dget delivery ''package_id'' = PStr pid) ''RULE_PACKAGE_ID_MISMATCH'') (\<lambda>_.
     rbind (check (dget delivery ''payload_hash'' = PStr hash) ''RULE_PACKAGE_HASH_MISMATCH'') (\<lambda>_.
     rbind (check (list_all (\<lambda>f. dhas delivery f \<longrightarrow> py_eq (dget delivery f) (dget pl f))
              METADATA_FIELDS) ''RULE_PACKAGE_METADATA_MISMATCH'') (\<lambda>_.
     let key_id = str_or_empty (dget delivery ''signature_key_id'') in
     rbind (check (key_id \<in> trusted_key_ids) ''RULE_PACKAGE_SIGNING_KEY_UNTRUSTED'') (\<lambda>_.
     rbind (check (dget pl ''package_version'' = PStr PACKAGE_VERSION)
              ''RULE_PACKAGE_VERSION_UNSUPPORTED'') (\<lambda>_.
     rbind (check (dget pl ''runtime_version'' = PStr RUNTIME_VERSION)
              ''RULE_PACKAGE_RUNTIME_VERSION_UNSUPPORTED'') (\<lambda>_.
     rbind (check (dget pl ''profile_key'' = PStr ''home_assistant'')
              ''RULE_PACKAGE_PROFILE_MISMATCH'') (\<lambda>_.
     rbind (check (dget pl ''integration_instance_id'' = PStr instance_id)
              ''RULE_PACKAGE_INSTANCE_MISMATCH'') (\<lambda>_.
     rbind (dict_or_empty (dget pl ''runtime_plan'')) (\<lambda>plan.
     rbind (check (dget plan ''runtime'' = PStr ''home_assistant'' \<and>
              dget plan ''runtime_version'' = PStr RUNTIME_VERSION)
              ''RULE_PACKAGE_RUNTIME_PLAN_INVALID'') (\<lambda>_.
     rbind (validate_runtime_plan plan) (\<lambda>_.
     rbind (parse_time (pc_fromiso env) (dget pl ''issued_at'')) (\<lambda>issued_at.
     rbind (parse_time (pc_fromiso env) (dget pl ''valid_until'')) (\<lambda>until.
     rbind (check (issued_at \<le> now + MAX_CLOCK_SKEW) ''RULE_PACKAGE_CLOCK_SKEW'') (\<lambda>_.
     rbind (check (now < until) ''RULE_PACKAGE_EXPIRED'') (\<lambda>_.
     let sig = str_or_empty (dget delivery ''signature'');
         pem = str_or_empty (dget delivery ''signing_public_key_pem'') in
     rbind (check (signature_valid env pem sig canonical) ''RULE_PACKAGE_SIGNATURE_INVALID'') (\<lambda>_.
     Inr \<lparr>package_id = pid, package_hash = hash, signature = sig, signature_key_id = key_id,
          signing_public_key_pem = pem, package_payload = pl, valid_until = until\<rparr>)))))))))))))))))))"

definition verify_stored_rule_package ::
    "package_crypto \<Rightarrow> pydict \<Rightarrow> string \<Rightarrow> string set \<Rightarrow> time \<Rightarrow> verified_package res" where
  "verify_stored_rule_package env document instance_id trusted_key_ids now =
     verify_rule_package_delivery env
       [(''package_id'', dget document ''package_id''),
        (''payload_hash'', dget document ''payload_hash''),
        (''signature'', dget document ''signature''),
        (''signature_key_id'', dget document ''signature_key_id''),
        (''signing_public_key_pem'', dget document ''signing_public_key_pem''),
        (''payload'', dget document ''payload'')]
       instance_id trusted_key_ids now"

section \<open>What acceptance means\<close>

lemma check_simps [simp]:
  "check ok m = Inr u \<longleftrightarrow> ok"
  "check ok m = Inl e \<longleftrightarrow> \<not> ok \<and> e = RuntimeError m"
  by (auto simp: check_def)

definition event_binding_ok :: "pydict \<Rightarrow> bool" where
  "event_binding_ok b \<longleftrightarrow>
     dget b ''provider_event_type'' = PStr ''state_changed'' \<and>
     str_or_empty (dget b ''provider_entity_id'') \<noteq> [] \<and>
     dget b ''canonical_event_type'' \<in> PStr ` {''latest_state.changed'', ''telemetry.ingested'',
       ''device.presence.changed'', ''device.status.changed''} \<and>
     str_or_empty (dget b ''target_id'') \<noteq> []"

text \<open>A reviewed switch of a light: the one kind of action a package may hold.\<close>

definition reviewed :: "pydict \<Rightarrow> bool" where
  "reviewed v \<longleftrightarrow> (case dict_or_empty (dget v ''command_safety_evidence'') of
       Inr safety \<Rightarrow> truthy (dget safety ''reviewed'') \<and>
         dget safety ''risk_class'' = PStr ''non_destructive''
     | Inl _ \<Rightarrow> False)"

definition light_switch :: "pydict \<Rightarrow> bool" where
  "light_switch v \<longleftrightarrow>
     dget v ''action_type'' = PStr ''device_command'' \<and>
     dget v ''provider_domain'' = PStr ''light'' \<and>
     dget v ''provider_service'' \<in> {PStr ''turn_on'', PStr ''turn_off''} \<and>
     starts_with (str_or_empty (dget v ''provider_entity_id'')) ''light.'' \<and>
     dget v ''canonical_capability'' = PStr ''light.power'' \<and>
     dget v ''template_code'' = PStr ''set_light_power'' \<and>
     dget v ''value'' \<in> {PBool True, PBool False} \<and> reviewed v"

definition plan_ok :: "pydict \<Rightarrow> bool" where
  "plan_ok plan \<longleftrightarrow>
     (\<exists>b. dict_or_empty (dget plan ''event_binding'') = Inr b \<and> event_binding_ok b) \<and>
     (\<exists>actions. dget plan ''actions'' = PList actions \<and> 1 \<le> length actions \<and> length actions \<le> 20 \<and>
       (\<forall>a \<in> set actions. \<exists>v. dict_or_empty a = Inr v \<and> light_switch v))"

lemma guard_iff: "(if c then Inl e else g) = Inr x \<longleftrightarrow> \<not> c \<and> g = Inr x"
  by simp

lemma in_strings_guard:
  "rbind (in_strings v ss) (\<lambda>known. if \<not> known then Inl e else g) = Inr x \<longleftrightarrow>
     v \<in> PStr ` set ss \<and> g = Inr x"
  unfolding in_strings_def by (cases v) auto

lemma validate_binding_iff: "validate_binding b = Inr () \<longleftrightarrow> event_binding_ok b"
  unfolding validate_binding_def event_binding_ok_def Let_def guard_iff in_strings_guard by simp

lemma validate_plan_action_iff:
  "validate_plan_action a = Inr () \<longleftrightarrow> (\<exists>v. dict_or_empty a = Inr v \<and> light_switch v)"
proof (cases "dict_or_empty a")
  case (Inr v)
  show ?thesis
    by (cases "dict_or_empty (dget v ''command_safety_evidence'')")
      (auto simp: validate_plan_action_def light_switch_def reviewed_def Let_def Inr guard_iff
        in_strings_guard)
qed (simp add: validate_plan_action_def)

lemma validate_runtime_plan_iff: "validate_runtime_plan plan = Inr () \<longleftrightarrow> plan_ok plan"
proof -
  have "(\<exists>ys. rmap validate_plan_action xs = Inr ys) \<longleftrightarrow> (\<forall>a \<in> set xs. validate_plan_action a = Inr ())"
    for xs by (induction xs) (auto simp: rbind_Inr_iff)
  then show ?thesis
    unfolding validate_runtime_plan_def plan_ok_def
    by (auto simp: rbind_Inr_iff validate_binding_iff validate_plan_action_iff split: pyval.splits if_splits)
qed

definition payload_ok :: "package_crypto \<Rightarrow> pydict \<Rightarrow> string \<Rightarrow> time \<Rightarrow> time \<Rightarrow> bool" where
  "payload_ok env pl instance_id now until \<longleftrightarrow>
     (\<forall>key \<in> all_keys (PDict pl). \<not> forbidden_key key) \<and>
     dget pl ''package_version'' = PStr PACKAGE_VERSION \<and>
     dget pl ''runtime_version'' = PStr RUNTIME_VERSION \<and>
     dget pl ''profile_key'' = PStr ''home_assistant'' \<and>
     dget pl ''integration_instance_id'' = PStr instance_id \<and>
     (\<exists>plan. dict_or_empty (dget pl ''runtime_plan'') = Inr plan \<and>
        dget plan ''runtime'' = PStr ''home_assistant'' \<and>
        dget plan ''runtime_version'' = PStr RUNTIME_VERSION \<and> plan_ok plan) \<and>
     (\<exists>issued_at. parse_time (pc_fromiso env) (dget pl ''issued_at'') = Inr issued_at \<and>
        issued_at \<le> now + MAX_CLOCK_SKEW) \<and>
     parse_time (pc_fromiso env) (dget pl ''valid_until'') = Inr until \<and> now < until"

lemma verify_iff:
  "verify_rule_package_delivery env delivery instance_id trusted now = Inr p \<longleftrightarrow>
     dict_or_empty (dget delivery ''payload'') = Inr (package_payload p) \<and>
     payload_ok env (package_payload p) instance_id now (valid_until p) \<and>
     package_hash p = pc_sha env (json_dumps (PDict (package_payload p))) \<and>
     package_id p = ''rpkg_'' @ take 24 (package_hash p) \<and>
     dget delivery ''package_id'' = PStr (package_id p) \<and>
     dget delivery ''payload_hash'' = PStr (package_hash p) \<and>
     list_all (\<lambda>f. dhas delivery f \<longrightarrow> py_eq (dget delivery f) (dget (package_payload p) f))
       METADATA_FIELDS \<and>
     signature_key_id p = str_or_empty (dget delivery ''signature_key_id'') \<and>
     signature_key_id p \<in> trusted \<and>
     signature p = str_or_empty (dget delivery ''signature'') \<and>
     signing_public_key_pem p = str_or_empty (dget delivery ''signing_public_key_pem'') \<and>
     signature_valid env (signing_public_key_pem p) (signature p)
       (json_dumps (PDict (package_payload p)))"
  unfolding verify_rule_package_delivery_def payload_ok_def canonical_bytes_def Let_def
  by (cases p) (auto simp: rbind_Inr_iff ensure_safe_iff validate_runtime_plan_iff simp del: all_keys.simps)

text \<open>
  C9: a delivery the connector accepts is one whose payload hashes to the delivered hash and
  identifier, names a trusted key identifier, is signed with the delivered signature under the
  delivered key, is for this instance, has no forbidden key at any depth, was issued at most five
  minutes in the future, is not past the end of validity its payload states, which is the one the
  connector keeps, and plans only reviewed switches of lights.
\<close>

theorem accepted_package_is_vetted:
  assumes "verify_rule_package_delivery env delivery instance_id trusted now = Inr p"
  shows "dict_or_empty (dget delivery ''payload'') = Inr (package_payload p) \<and>
    dget delivery ''payload_hash'' = PStr (pc_sha env (json_dumps (PDict (package_payload p)))) \<and>
    dget delivery ''package_id'' =
      PStr (''rpkg_'' @ take 24 (pc_sha env (json_dumps (PDict (package_payload p))))) \<and>
    str_or_empty (dget delivery ''signature_key_id'') \<in> trusted \<and>
    pc_ed25519 env (str_or_empty (dget delivery ''signing_public_key_pem''))
      (pad_base64 (str_or_empty (dget delivery ''signature''))) (json_dumps (PDict (package_payload p))) \<and>
    signature_key_id p = str_or_empty (dget delivery ''signature_key_id'') \<and>
    signing_public_key_pem p = str_or_empty (dget delivery ''signing_public_key_pem'') \<and>
    signature p = str_or_empty (dget delivery ''signature'') \<and>
    dget (package_payload p) ''integration_instance_id'' = PStr instance_id \<and>
    (\<forall>key \<in> all_keys (PDict (package_payload p)). \<not> forbidden_key key) \<and>
    (\<exists>issued_at. parse_time (pc_fromiso env) (dget (package_payload p) ''issued_at'') = Inr issued_at \<and>
      issued_at \<le> now + 5 * 60 * 1000000) \<and>
    parse_time (pc_fromiso env) (dget (package_payload p) ''valid_until'') = Inr (valid_until p) \<and>
    now < valid_until p \<and>
    (\<exists>plan actions. dict_or_empty (dget (package_payload p) ''runtime_plan'') = Inr plan \<and>
      dget plan ''actions'' = PList actions \<and> length actions \<in> {1..20} \<and>
      (\<forall>a \<in> set actions. \<exists>v. dict_or_empty a = Inr v \<and> light_switch v))"
  using assms by (auto simp: verify_iff payload_ok_def plan_ok_def signature_valid_def MAX_CLOCK_SKEW_def
      simp del: all_keys.simps)

text \<open>
  The trusted set holds identifiers, not keys: the key comes with the delivery. Whoever can sign
  with a key of their own can put it and their signature into an accepted delivery, under the same
  trusted identifier, and it is accepted too.
\<close>

theorem any_key_passes_under_a_trusted_identifier:
  assumes "verify_rule_package_delivery env delivery instance_id trusted now = Inr p"
    and "signature_valid env pem sig (json_dumps (PDict (package_payload p)))"
  shows "verify_rule_package_delivery env
      (dset (dset delivery ''signing_public_key_pem'' (PStr pem)) ''signature'' (PStr sig))
      instance_id trusted now = Inr (p\<lparr>signing_public_key_pem := pem, signature := sig\<rparr>)"
proof -
  let ?d = "dset (dset delivery ''signing_public_key_pem'' (PStr pem)) ''signature'' (PStr sig)"
  have fields: "dget ?d ''payload'' = dget delivery ''payload''"
    "dget ?d ''package_id'' = dget delivery ''package_id''"
    "dget ?d ''payload_hash'' = dget delivery ''payload_hash''"
    "dget ?d ''signature_key_id'' = dget delivery ''signature_key_id''"
    "str_or_empty (dget ?d ''signature'') = sig"
    "str_or_empty (dget ?d ''signing_public_key_pem'') = pem"
    by (simp_all add: str_or_empty_def py_or_def py_str_def)
  have metadata: "list_all (\<lambda>f. dhas ?d f \<longrightarrow> py_eq (dget ?d f) (dget pl f)) METADATA_FIELDS =
      list_all (\<lambda>f. dhas delivery f \<longrightarrow> py_eq (dget delivery f) (dget pl f)) METADATA_FIELDS" for pl
    by (simp add: METADATA_FIELDS_def dhas_def)
  let ?p = "p\<lparr>signing_public_key_pem := pem, signature := sig\<rparr>"
  have parts: "package_payload ?p = package_payload p" "valid_until ?p = valid_until p"
    "package_hash ?p = package_hash p" "package_id ?p = package_id p"
    "signature_key_id ?p = signature_key_id p" "signature ?p = sig" "signing_public_key_pem ?p = pem"
    by simp_all
  show ?thesis
    using assms unfolding verify_iff fields metadata parts
    by (elim conjE) (intro conjI refl, assumption+)
qed

section \<open>A stored package stays acceptable\<close>

lemma all_keys_norm [simp]: "all_keys (json_norm v) = all_keys v"
proof (induction v)
  case (PDict d)
  have "(\<Union>(k, v) \<in> set d. all_keys (json_norm v)) = (\<Union>(k, v) \<in> set d. all_keys v)"
    using PDict.IH by (fastforce simp: snds.simps)
  moreover have "fst ` (\<lambda>(k, v). (k, json_norm v)) ` set d = fst ` set d" by force
  ultimately show ?case by (simp add: case_prod_unfold)
qed auto

lemma str_or_empty_norm_Nil [simp]: "str_or_empty (json_norm v) = [] \<longleftrightarrow> str_or_empty v = []"
proof (cases v)
  case (PDict d)
  then show ?thesis
    by (simp add: str_or_empty_def py_or_def py_str_def stored_payload_def [symmetric])
qed (auto simp: str_or_empty_def py_or_def py_str_def)

lemma str_or_empty_norm_light [simp]:
  "starts_with (str_or_empty (json_norm v)) ''light.'' = starts_with (str_or_empty v) ''light.''"
proof (cases v)
  case (PDict d)
  then show ?thesis
    by (simp add: str_or_empty_def py_or_def py_str_def stored_payload_def [symmetric] starts_with_def)
qed (auto simp: str_or_empty_def py_or_def py_str_def starts_with_def)

lemma event_binding_ok_norm: "event_binding_ok (stored_payload b) = event_binding_ok b"
proof -
  have "json_norm v \<in> PStr ` S \<longleftrightarrow> v \<in> PStr ` S" for v S by (auto simp: image_iff)
  then show ?thesis by (simp add: event_binding_ok_def)
qed

lemma light_switch_norm: "light_switch (stored_payload v) = light_switch v"
proof -
  have "reviewed (stored_payload v) = reviewed v"
    by (cases "dict_or_empty (dget v ''command_safety_evidence'')")
      (simp_all add: reviewed_def dict_or_empty_norm)
  then show ?thesis by (simp add: light_switch_def)
qed

lemma plan_ok_norm: "plan_ok plan \<Longrightarrow> plan_ok (stored_payload plan)"
  unfolding plan_ok_def
  by (fastforce simp: dict_or_empty_norm event_binding_ok_norm light_switch_norm)

text \<open>What ISO 8601 promises: no text that opens with a bracket is a point in time.\<close>

definition iso_no_brackets :: "iso_parser \<Rightarrow> bool" where
  "iso_no_brackets fromiso \<longleftrightarrow> (\<forall>s. fromiso (CHR ''['' # s) = None \<and> fromiso (CHR 0x7B # s) = None)"

lemma parse_time_norm:
  assumes "iso_no_brackets fromiso" "parse_time fromiso v = Inr t"
  shows "parse_time fromiso (json_norm v) = Inr t"
proof -
  have "\<not> (\<exists>xs. v = PList xs)" "\<not> (\<exists>d. v = PDict d)"
    using assms by (auto simp: parse_time_def py_str_def iso_no_brackets_def replace_zulu_def
        split: option.splits)
  then show ?thesis using assms(2) by (cases v) auto
qed

lemma payload_ok_norm:
  assumes "payload_ok env pl instance_id now until" "iso_no_brackets (pc_fromiso env)"
    "now \<le> later" "later < until"
  shows "payload_ok env (stored_payload pl) instance_id later until"
proof -
  have keys: "all_keys (PDict (stored_payload pl)) = all_keys (PDict pl)"
    by (metis all_keys_norm stored_payload_norm)
  from assms(1) obtain plan where "dict_or_empty (dget pl ''runtime_plan'') = Inr plan"
    "dget plan ''runtime'' = PStr ''home_assistant''"
    "dget plan ''runtime_version'' = PStr RUNTIME_VERSION" "plan_ok plan"
    unfolding payload_ok_def by blast
  then have plan: "\<exists>plan. dict_or_empty (dget (stored_payload pl) ''runtime_plan'') = Inr plan \<and>
        dget plan ''runtime'' = PStr ''home_assistant'' \<and>
        dget plan ''runtime_version'' = PStr RUNTIME_VERSION \<and> plan_ok plan"
    by (simp add: dict_or_empty_norm plan_ok_norm)
  from assms have issued: "\<exists>i. parse_time (pc_fromiso env) (dget (stored_payload pl) ''issued_at'') = Inr i \<and>
      i \<le> later + MAX_CLOCK_SKEW"
    unfolding payload_ok_def by (fastforce simp: parse_time_norm)
  show ?thesis
    using assms plan issued by (simp add: payload_ok_def keys parse_time_norm del: all_keys.simps)
qed

text \<open>The document as the store gives it back: \<open>json.loads\<close> of what \<open>as_document\<close> printed.\<close>

definition stored_document :: "verified_package \<Rightarrow> pydict" where
  "stored_document p = stored_payload (as_document p)"

definition stored_package :: "verified_package \<Rightarrow> verified_package" where
  "stored_package p = p\<lparr>package_payload := stored_payload (package_payload p)\<rparr>"

lemma dget_stored_document:
  "dget (stored_document p) ''package_id'' = PStr (package_id p)"
  "dget (stored_document p) ''payload_hash'' = PStr (package_hash p)"
  "dget (stored_document p) ''signature'' = PStr (signature p)"
  "dget (stored_document p) ''signature_key_id'' = PStr (signature_key_id p)"
  "dget (stored_document p) ''signing_public_key_pem'' = PStr (signing_public_key_pem p)"
  "dget (stored_document p) ''payload'' = PDict (stored_payload (package_payload p))"
  by (simp_all add: stored_document_def as_document_def dget_def stored_payload_norm [symmetric])

text \<open>
  C29: a package accepted once and stored as a document verifies again, with the same identity
  and contents, at every later time before its \<open>valid_until\<close>: re-serialising the payload does
  not break hash or signature.
\<close>

theorem stored_package_verifies_again:
  assumes "verify_rule_package_delivery env delivery instance_id trusted now = Inr p"
    and "iso_no_brackets (pc_fromiso env)"
    and "now \<le> later" "later < valid_until p"
  shows "verify_stored_rule_package env (stored_document p) instance_id trusted later =
    Inr (stored_package p)"
proof -
  have dumps: "json_dumps (PDict (stored_payload pl)) = json_dumps (PDict pl)" for pl
    by (metis json_dumps_norm stored_payload_norm)
  show ?thesis
    using assms payload_ok_norm [OF _ assms(2-4)]
    unfolding verify_stored_rule_package_def verify_iff
    by (auto simp: stored_package_def dget_stored_document dumps METADATA_FIELDS_def
        simp del: json_dumps.simps)
qed

section \<open>A concrete package\<close>

definition sample_action :: pyval where
  "sample_action = PDict [(''action_type'', PStr ''device_command''), (''provider_domain'', PStr ''light''),
     (''provider_service'', PStr ''turn_on''), (''provider_entity_id'', PStr ''light.porch''),
     (''canonical_capability'', PStr ''light.power''), (''template_code'', PStr ''set_light_power''),
     (''value'', PBool True),
     (''command_safety_evidence'', PDict [(''reviewed'', PBool True),
        (''risk_class'', PStr ''non_destructive'')])]"

definition sample_plan :: pyval where
  "sample_plan = PDict [(''runtime'', PStr ''home_assistant''),
     (''runtime_version'', PStr RUNTIME_VERSION),
     (''event_binding'', PDict [(''provider_event_type'', PStr ''state_changed''),
        (''provider_entity_id'', PStr ''binary_sensor.door''),
        (''canonical_event_type'', PStr ''latest_state.changed''), (''target_id'', PStr ''dev1'')]),
     (''actions'', PList [sample_action])]"

definition sample_payload :: pydict where
  "sample_payload = [(''package_version'', PStr PACKAGE_VERSION), (''runtime_version'', PStr RUNTIME_VERSION),
     (''profile_key'', PStr ''home_assistant''), (''integration_instance_id'', PStr ''inst''),
     (''deployment_id'', PStr ''dep''), (''rule_id'', PStr ''r1''), (''version_id'', PStr ''v1''),
     (''version_no'', PInt 1),
     (''rule'', PDict [(''condition'', PDict [(''op'', PStr ''eq''),
        (''left'', PDict [(''var'', PStr ''event.value'')]), (''right'', PBool True)])]),
     (''runtime_plan'', sample_plan),
     (''issued_at'', PStr ''t1''), (''valid_until'', PStr ''t9'')]"

definition sample_env :: package_crypto where
  "sample_env = \<lparr>pc_sha = (\<lambda>s. nat_digits (length s)), pc_ed25519 = (\<lambda>pem sig text. pem = ''pem'' \<and> sig = ''sig=''),
     pc_fromiso = (\<lambda>s. if s = ''t1'' then Some (1000, None) else if s = ''t9'' then Some (9000, Some 0) else None)\<rparr>"

definition sample_hash :: string where
  "sample_hash = pc_sha sample_env (json_dumps (PDict sample_payload))"

definition sample_delivery :: pydict where
  "sample_delivery = [(''package_id'', PStr (''rpkg_'' @ take 24 sample_hash)),
     (''payload_hash'', PStr sample_hash), (''rule_id'', PStr ''r1''),
     (''signature'', PStr ''sig''), (''signature_key_id'', PStr ''k1''),
     (''signing_public_key_pem'', PStr ''pem''), (''payload'', PDict sample_payload)]"

definition sample_package :: verified_package where
  "sample_package = \<lparr>package_id = ''rpkg_'' @ take 24 sample_hash, package_hash = sample_hash,
     signature = ''sig'', signature_key_id = ''k1'', signing_public_key_pem = ''pem'',
     package_payload = sample_payload, valid_until = 9000\<rparr>"

lemma sample_plan_ok: "validate_runtime_plan (case sample_plan of PDict d \<Rightarrow> d) = Inr ()"
  by code_simp

lemma sample_verifies:
  "verify_rule_package_delivery sample_env sample_delivery ''inst'' {''k1''} 2000 = Inr sample_package"
proof -
  have "ensure_safe ''package'' (PDict sample_payload) = Inr ()" by code_simp
  then have "payload_ok sample_env sample_payload ''inst'' 2000 9000"
    using sample_plan_ok
    unfolding payload_ok_def ensure_safe_iff validate_runtime_plan_iff
    by (simp add: sample_payload_def sample_plan_def parse_time_def sample_env_def replace_zulu_def
        to_utc_def MAX_CLOCK_SKEW_def)
  moreover have "pad_base64 ''sig'' = ''sig=''" by code_simp
  ultimately show ?thesis
    by (simp add: verify_iff sample_delivery_def sample_package_def METADATA_FIELDS_def
        sample_hash_def signature_valid_def is_ascii_def sample_env_def dget_def sample_payload_def
        del: json_dumps.simps)
qed

theorem accepted_package_is_vetted_witness:
  "signature_key_id sample_package \<in> {''k1''} \<and> (2000::time) < valid_until sample_package \<and>
   parse_time (pc_fromiso sample_env) (dget (package_payload sample_package) ''valid_until'') =
     Inr (valid_until sample_package) \<and>
   (\<exists>plan actions. dict_or_empty (dget (package_payload sample_package) ''runtime_plan'') = Inr plan \<and>
      dget plan ''actions'' = PList actions \<and> length actions \<in> {1..20} \<and>
      (\<forall>a \<in> set actions. \<exists>v. dict_or_empty a = Inr v \<and> light_switch v))"
  using accepted_package_is_vetted [OF sample_verifies] by (elim conjE) (intro conjI, metis, assumption+)

lemma sample_iso: "iso_no_brackets (pc_fromiso sample_env)"
  by (simp add: iso_no_brackets_def sample_env_def)

theorem stored_package_verifies_again_witness:
  "verify_stored_rule_package sample_env (stored_document sample_package) ''inst'' {''k1''} 8999 =
     Inr (stored_package sample_package)"
  by (rule stored_package_verifies_again [OF sample_verifies sample_iso]) (simp_all add: sample_package_def)

end
