(* ===== verification/Rule_Store.thy ===== *)
theory Rule_Store
  imports Rule_Package "HOL-Library.Product_Lexorder"
begin

text \<open>
  The module \<open>rule_store.py\<close>: the SQLite file of the local rules. Its tables are the active
  packages, at most one for each rule, and the executions with the evidence each leaves. A row's
  JSON text is kept as the value \<open>json.loads\<close> gives back for it, a timestamp as the number its
  ISO 8601 text in UTC stands for (the text order is the numbers' order). Every method is one
  transaction, undone when it raises; \<open>now\<close> and \<open>later\<close> are its readings of the clock.
\<close>

section \<open>State\<close>

record package_row =
  pr_package_id :: string
  pr_rule_id :: string
  pr_package_hash :: string
  pr_document :: pydict
  pr_valid_until :: time
  pr_updated :: time

datatype execution_status = Processing | Complete

datatype upload_status = Held | UploadPending | Uploaded

fun upload_text :: "upload_status \<Rightarrow> string" where
  "upload_text Held = ''held''"
| "upload_text UploadPending = ''pending''"
| "upload_text Uploaded = ''uploaded''"

record execution_row =
  ex_key :: string
  ex_id :: string
  ex_evidence :: pydict
  ex_status :: execution_status
  ex_upload :: upload_status
  ex_created :: time
  ex_updated :: time

record rule_store =
  evidence_max_rows :: int
  evidence_retention_seconds :: int
  rs_packages :: "package_row list"
  rs_executions :: "execution_row list"

text \<open>The file before \<open>_initialize\<close>: either table may be missing. Existing tables are left alone.\<close>

record rule_disk =
  disk_packages :: "package_row list option"
  disk_executions :: "execution_row list option"

definition rule_initialize :: "int \<Rightarrow> int \<Rightarrow> rule_disk \<Rightarrow> rule_store" where
  "rule_initialize max_rows retention d =
     \<lparr>evidence_max_rows = max_rows, evidence_retention_seconds = retention,
      rs_packages = (case disk_packages d of None \<Rightarrow> [] | Some rows \<Rightarrow> rows),
      rs_executions = (case disk_executions d of None \<Rightarrow> [] | Some rows \<Rightarrow> rows)\<rparr>"

section \<open>The order in which evidence is given up\<close>

text \<open>\<open>ORDER BY CASE upload_status WHEN 'uploaded' THEN 0 ELSE 1 END, created_at\<close>\<close>

datatype eviction_rank = EvictionRank (rank_class: nat) (rank_time: time)

instantiation eviction_rank :: linorder
begin

definition less_eq_eviction_rank :: "eviction_rank \<Rightarrow> eviction_rank \<Rightarrow> bool" where
  "less_eq_eviction_rank a b \<longleftrightarrow> (rank_class a, rank_time a) \<le> (rank_class b, rank_time b)"

definition less_eviction_rank :: "eviction_rank \<Rightarrow> eviction_rank \<Rightarrow> bool" where
  "less_eviction_rank a b \<longleftrightarrow> (rank_class a, rank_time a) < (rank_class b, rank_time b)"

instance
  by standard (auto simp: less_eq_eviction_rank_def less_eviction_rank_def less_le_not_le
      intro: eviction_rank.expand)

end

definition eviction_rank :: "execution_row \<Rightarrow> eviction_rank" where
  "eviction_rank r = EvictionRank (if ex_upload r = Uploaded then 0 else 1) (ex_created r)"

definition retained :: "time \<Rightarrow> rule_store \<Rightarrow> execution_row list" where
  "retained now s =
     filter (\<lambda>r. \<not> (ex_upload r = Uploaded \<and>
                    ex_updated r < now - evidence_retention_seconds s * 1000000)) (rs_executions s)"

definition prune_evidence :: "time \<Rightarrow> rule_store \<Rightarrow> rule_store" where
  "prune_evidence now s =
     (let rows = retained now s;
          excess = max (int (length rows) - evidence_max_rows s) 0;
          victims = map ex_key (take (nat excess) (sort_key eviction_rank rows))
      in s\<lparr>rs_executions := filter (\<lambda>r. ex_key r \<notin> set victims) rows\<rparr>)"

section \<open>Packages\<close>

definition apply_package :: "time \<Rightarrow> verified_package \<Rightarrow> rule_store \<Rightarrow> unit res \<times> rule_store" where
  "apply_package now p s =
     (case dindex (package_payload p) ''rule_id'' of
        Inl e \<Rightarrow> (Inl e, s)
      | Inr rid \<Rightarrow>
          (let kept = filter (\<lambda>r. pr_rule_id r \<noteq> py_str rid) (rs_packages s)
           in if package_id p \<in> pr_package_id ` set kept then (Inl IntegrityError, s)
              else (Inr (), s\<lparr>rs_packages := kept @
                [\<lparr>pr_package_id = package_id p, pr_rule_id = py_str rid,
                  pr_package_hash = package_hash p, pr_document = stored_document p,
                  pr_valid_until = valid_until p, pr_updated = now\<rparr>]\<rparr>)))"

definition apply_control :: "pydict \<Rightarrow> rule_store \<Rightarrow> bool res \<times> rule_store" where
  "apply_control control s =
     (case in_strings (dget control ''status'') [''revoked'', ''expired''] of
        Inl e \<Rightarrow> (Inl e, s)
      | Inr False \<Rightarrow> (Inl (RuntimeError ''RULE_PACKAGE_CONTROL_INVALID''), s)
      | Inr True \<Rightarrow>
          (let pid = str_or_empty (dget control ''package_id'')
           in (Inr (list_ex (\<lambda>r. pr_package_id r = pid) (rs_packages s)),
               s\<lparr>rs_packages := filter (\<lambda>r. pr_package_id r \<noteq> pid) (rs_packages s)\<rparr>)))"

definition active_documents :: "time \<Rightarrow> rule_store \<Rightarrow> pydict list \<times> rule_store" where
  "active_documents now s =
     (let rows = filter (\<lambda>r. now < pr_valid_until r) (rs_packages s)
      in (map pr_document (sort_key pr_rule_id rows), s\<lparr>rs_packages := rows\<rparr>))"

section \<open>Executions\<close>

definition execution_of :: "string \<Rightarrow> rule_store \<Rightarrow> execution_row option" where
  "execution_of key s = find (\<lambda>r. ex_key r = key) (rs_executions s)"

definition reserve_execution ::
    "time \<Rightarrow> time \<Rightarrow> string \<Rightarrow> string \<Rightarrow> pydict \<Rightarrow> rule_store \<Rightarrow> (pydict \<times> bool) res \<times> rule_store" where
  "reserve_execution now later key execution_id evidence s =
     (case execution_of key s of
        Some r \<Rightarrow>
          (Inr (dset (ex_evidence r) ''_upload_status'' (PStr (upload_text (ex_upload r))), False), s)
      | None \<Rightarrow>
          if execution_id \<in> ex_id ` set (rs_executions s) then (Inl IntegrityError, s)
          else (Inr (evidence, True),
                prune_evidence later (s\<lparr>rs_executions := rs_executions s @
                  [\<lparr>ex_key = key, ex_id = execution_id, ex_evidence = stored_payload evidence,
                    ex_status = Processing, ex_upload = Held, ex_created = now, ex_updated = now\<rparr>]\<rparr>)))"

definition finalize_execution :: "time \<Rightarrow> time \<Rightarrow> pydict \<Rightarrow> rule_store \<Rightarrow> unit res \<times> rule_store" where
  "finalize_execution now later evidence s =
     (case dindex evidence ''idempotency_key'' of
        Inl e \<Rightarrow> (Inl e, s)
      | Inr key \<Rightarrow>
          if length (filter (\<lambda>r. ex_key r = py_str key) (rs_executions s)) \<noteq> 1
          then (Inl (RuntimeError ''LOCAL_RULE_EXECUTION_RESERVATION_MISSING''), s)
          else (Inr (), prune_evidence later (s\<lparr>rs_executions :=
                  map (\<lambda>r. if ex_key r = py_str key
                           then r\<lparr>ex_evidence := stored_payload evidence, ex_status := Complete,
                                  ex_upload := UploadPending, ex_updated := now\<rparr>
                           else r) (rs_executions s)\<rparr>)))"

definition pending_evidence :: "int \<Rightarrow> rule_store \<Rightarrow> pydict list" where
  "pending_evidence limit s =
     map ex_evidence (sql_limit limit (sort_key ex_created
       (filter (\<lambda>r. ex_status r = Complete \<and> ex_upload r = UploadPending) (rs_executions s))))"

definition mark_uploaded :: "time \<Rightarrow> time \<Rightarrow> string list \<Rightarrow> rule_store \<Rightarrow> rule_store" where
  "mark_uploaded now later execution_ids s =
     (if execution_ids = [] then s
      else prune_evidence later (s\<lparr>rs_executions :=
             map (\<lambda>r. if ex_id r \<in> set execution_ids
                      then r\<lparr>ex_upload := Uploaded, ex_updated := now\<rparr> else r) (rs_executions s)\<rparr>))"

record rule_store_summary =
  active_package_count :: nat
  execution_count :: nat
  pending_evidence_count :: nat
  uploaded_evidence_count :: nat
  processing_count :: nat

definition rule_summary :: "rule_store \<Rightarrow> rule_store_summary" where
  "rule_summary s =
     \<lparr>active_package_count = length (rs_packages s), execution_count = length (rs_executions s),
      pending_evidence_count = length (filter (\<lambda>r. ex_upload r = UploadPending) (rs_executions s)),
      uploaded_evidence_count = length (filter (\<lambda>r. ex_upload r = Uploaded) (rs_executions s)),
      processing_count = length (filter (\<lambda>r. ex_status r = Processing) (rs_executions s))\<rparr>"

section \<open>Pruning\<close>

lemma mset_not_first:
  assumes "distinct (map key rows)"
  shows "mset (filter (\<lambda>r. key r \<notin> set (map key (take n (sort_key f rows)))) rows) =
    mset (drop n (sort_key f rows))"
proof -
  let ?xs = "sort_key f rows"
  let ?P = "\<lambda>r. key r \<notin> set (map key (take n ?xs))"
  have "mset (map key ?xs) = mset (map key rows)" by simp
  then have "distinct (map key ?xs)" using assms mset_eq_imp_distinct_iff by blast
  then have "distinct (map key (take n ?xs @ drop n ?xs))" by simp
  then have "filter ?P (take n ?xs @ drop n ?xs) = drop n ?xs"
    unfolding map_append distinct_append filter_append
    by (auto simp: filter_empty_conv filter_id_conv)
  then have "mset (filter ?P ?xs) = mset (drop n ?xs)" by simp
  then show ?thesis by (metis mset_filter mset_sort)
qed

definition excess :: "time \<Rightarrow> rule_store \<Rightarrow> nat" where
  "excess now s = nat (max (int (length (retained now s)) - evidence_max_rows s) 0)"

lemma prune_frame [simp]:
  "rs_packages (prune_evidence now s) = rs_packages s"
  "evidence_max_rows (prune_evidence now s) = evidence_max_rows s"
  "evidence_retention_seconds (prune_evidence now s) = evidence_retention_seconds s"
  by (simp_all add: prune_evidence_def Let_def)

lemma prune_rows_subset: "set (rs_executions (prune_evidence now s)) \<subseteq> set (rs_executions s)"
  by (auto simp: prune_evidence_def Let_def retained_def)

lemma prune_distinct:
  "distinct (map f (rs_executions s)) \<Longrightarrow> distinct (map f (rs_executions (prune_evidence now s)))"
  by (simp add: prune_evidence_def Let_def retained_def distinct_map_filter)

lemma prune_mset:
  assumes "distinct (map ex_key (rs_executions s))"
  shows "mset (rs_executions (prune_evidence now s)) =
    mset (drop (excess now s) (sort_key eviction_rank (retained now s)))"
  using assms mset_not_first [of ex_key "retained now s" "excess now s" eviction_rank]
  by (simp add: prune_evidence_def Let_def excess_def retained_def distinct_map_filter)

lemma prune_length:
  assumes "distinct (map ex_key (rs_executions s))"
  shows "int (length (rs_executions (prune_evidence now s))) \<le> max 0 (evidence_max_rows s)"
  using arg_cong [OF prune_mset [OF assms, of now], of size] by (simp add: excess_def)

lemma prune_keeps_retained:
  assumes "distinct (map ex_key (rs_executions s))" "int (length (rs_executions s)) \<le> evidence_max_rows s"
  shows "rs_executions (prune_evidence now s) = retained now s"
proof -
  have "length (retained now s) \<le> length (rs_executions s)" by (simp add: retained_def)
  with assms(2) have "max (int (length (retained now s)) - evidence_max_rows s) 0 = 0" by simp
  then show ?thesis by (simp add: prune_evidence_def Let_def)
qed

text \<open>
  Pruning gives up evidence in the order the store means to: a row it evicts for room
  (one that had not outlived its retention) never ranks after one it keeps, so evidence that was
  not uploaded goes only when no uploaded row is left, and then oldest first.
\<close>

theorem pruning_order:
  assumes "distinct (map ex_key (rs_executions s))"
    and "r \<in> set (rs_executions s)" "ex_upload r \<noteq> Uploaded"
    and "r \<notin> set (rs_executions (prune_evidence now s))"
    and "k \<in> set (rs_executions (prune_evidence now s))"
  shows "ex_upload k \<noteq> Uploaded \<and> ex_created r \<le> ex_created k"
proof -
  let ?xs = "sort_key eviction_rank (retained now s)"
  have kept: "set (rs_executions (prune_evidence now s)) = set (drop (excess now s) ?xs)"
    using prune_mset [OF assms(1)] by (metis set_mset_mset)
  have "r \<in> set ?xs" using assms(2,3) by (simp add: retained_def)
  with assms(4) have "r \<in> set (take (excess now s) ?xs)"
    by (metis append_take_drop_id in_set_conv_decomp Un_iff kept set_append)
  moreover have "k \<in> set (drop (excess now s) ?xs)" using assms(5) kept by simp
  moreover have "sorted (map eviction_rank (take (excess now s) ?xs @ drop (excess now s) ?xs))" by simp
  ultimately have "eviction_rank r \<le> eviction_rank k"
    unfolding map_append sorted_append by auto
  with assms(3) show ?thesis
    by (auto simp: eviction_rank_def less_eq_eviction_rank_def split: if_splits)
qed

section \<open>The invariant of the file\<close>

datatype rule_op =
    ApplyPackage time verified_package
  | ApplyControl pydict
  | ReadActive time
  | Reserve time time string string pydict
  | Finalize time time pydict
  | MarkUploaded time time "string list"

fun rule_step :: "rule_op \<Rightarrow> rule_store \<Rightarrow> rule_store" where
  "rule_step (ApplyPackage now p) s = snd (apply_package now p s)"
| "rule_step (ApplyControl control) s = snd (apply_control control s)"
| "rule_step (ReadActive now) s = snd (active_documents now s)"
| "rule_step (Reserve now later key eid evidence) s = snd (reserve_execution now later key eid evidence s)"
| "rule_step (Finalize now later evidence) s = snd (finalize_execution now later evidence s)"
| "rule_step (MarkUploaded now later eids) s = mark_uploaded now later eids s"

definition packages_ok :: "rule_store \<Rightarrow> bool" where
  "packages_ok s \<longleftrightarrow>
     distinct (map pr_rule_id (rs_packages s)) \<and> distinct (map pr_package_id (rs_packages s))"

definition executions_ok :: "rule_store \<Rightarrow> bool" where
  "executions_ok s \<longleftrightarrow> distinct (map ex_key (rs_executions s)) \<and> distinct (map ex_id (rs_executions s)) \<and>
     int (length (rs_executions s)) \<le> max 0 (evidence_max_rows s)"

lemma apply_package_cases:
  obtains (missing) k where "apply_package now p s = (Inl (KeyError k), s)"
  | (clash) "apply_package now p s = (Inl IntegrityError, s)"
  | (stored) rid row where
      "dindex (package_payload p) ''rule_id'' = Inr rid"
      "row = \<lparr>pr_package_id = package_id p, pr_rule_id = py_str rid, pr_package_hash = package_hash p,
         pr_document = stored_document p, pr_valid_until = valid_until p, pr_updated = now\<rparr>"
      "package_id p \<notin> pr_package_id ` set (filter (\<lambda>r. pr_rule_id r \<noteq> py_str rid) (rs_packages s))"
      "apply_package now p s =
         (Inr (), s\<lparr>rs_packages := filter (\<lambda>r. pr_rule_id r \<noteq> py_str rid) (rs_packages s) @ [row]\<rparr>)"
proof (cases "dindex (package_payload p) ''rule_id''")
  case (Inl e)
  then have "apply_package now p s = (Inl (KeyError ''rule_id''), s)"
    by (simp add: apply_package_def dindex_def split: option.splits)
  then show thesis by (rule missing)
next
  case (Inr rid)
  show thesis
  proof (cases "package_id p \<in> pr_package_id ` set (filter (\<lambda>r. pr_rule_id r \<noteq> py_str rid) (rs_packages s))")
    case True
    then have "apply_package now p s = (Inl IntegrityError, s)"
      by (simp add: apply_package_def Inr Let_def)
    then show thesis by (rule clash)
  next
    case False
    show thesis by (rule stored [OF Inr refl False]) (use False in \<open>simp add: apply_package_def Inr Let_def\<close>)
  qed
qed

lemma apply_control_effect:
  "snd (apply_control control s) = s \<or> snd (apply_control control s) = s\<lparr>rs_packages :=
     filter (\<lambda>r. pr_package_id r \<noteq> str_or_empty (dget control ''package_id'')) (rs_packages s)\<rparr>"
  by (auto simp: apply_control_def Let_def split: sum.splits bool.splits)

lemma packages_ok_step: "packages_ok s \<Longrightarrow> packages_ok (rule_step op s)"
proof (cases op)
  case (ApplyPackage now p)
  assume ok: "packages_ok s"
  show ?thesis
  proof (cases rule: apply_package_cases [of now p s])
    case (stored rid row)
    with ok show ?thesis
      by (auto simp: ApplyPackage packages_ok_def distinct_map_filter)
  qed (use ok in \<open>simp_all add: ApplyPackage\<close>)
next
  case (ApplyControl control)
  assume "packages_ok s"
  then show ?thesis using apply_control_effect [of control s]
    by (auto simp: ApplyControl packages_ok_def distinct_map_filter)
qed (auto simp: packages_ok_def active_documents_def Let_def distinct_map_filter reserve_execution_def
    finalize_execution_def mark_uploaded_def split: option.splits sum.splits)

lemma executions_ok_prune:
  assumes "distinct (map ex_key (rs_executions s))" "distinct (map ex_id (rs_executions s))"
  shows "executions_ok (prune_evidence now s)"
  using assms by (simp add: executions_ok_def prune_distinct prune_length)

lemma execution_of_None: "execution_of key s = None \<longleftrightarrow> key \<notin> ex_key ` set (rs_executions s)"
  by (auto simp: execution_of_def find_None_iff)

lemma execution_of_Some: "execution_of key s = Some r \<Longrightarrow> r \<in> set (rs_executions s) \<and> ex_key r = key"
  by (auto simp: execution_of_def find_Some_iff)

lemma map_update_frame [simp]:
  "(\<And>r. f (if P r then g r else r) = f r) \<Longrightarrow> map f (map (\<lambda>r. if P r then g r else r) rs) = map f rs"
  by simp

definition reserved_row :: "time \<Rightarrow> string \<Rightarrow> string \<Rightarrow> pydict \<Rightarrow> execution_row" where
  "reserved_row now key eid evidence =
     \<lparr>ex_key = key, ex_id = eid, ex_evidence = stored_payload evidence, ex_status = Processing,
      ex_upload = Held, ex_created = now, ex_updated = now\<rparr>"

lemma reserve_cases:
  obtains (repeated) r where "execution_of key s = Some r"
      "reserve_execution now later key eid evidence s =
         (Inr (dset (ex_evidence r) ''_upload_status'' (PStr (upload_text (ex_upload r))), False), s)"
  | (clash) "execution_of key s = None" "eid \<in> ex_id ` set (rs_executions s)"
      "reserve_execution now later key eid evidence s = (Inl IntegrityError, s)"
  | (created) "key \<notin> ex_key ` set (rs_executions s)" "eid \<notin> ex_id ` set (rs_executions s)"
      "reserve_execution now later key eid evidence s = (Inr (evidence, True), prune_evidence later
         (s\<lparr>rs_executions := rs_executions s @ [reserved_row now key eid evidence]\<rparr>))"
proof (cases "execution_of key s")
  case None
  then have key: "key \<notin> ex_key ` set (rs_executions s)" by (simp add: execution_of_None)
  show thesis
  proof (cases "eid \<in> ex_id ` set (rs_executions s)")
    case True
    with None show thesis by (intro clash) (simp_all add: reserve_execution_def)
  next
    case False
    with None key show thesis by (intro created) (simp_all add: reserve_execution_def reserved_row_def)
  qed
next
  case (Some r)
  then show thesis by (intro repeated) (simp_all add: reserve_execution_def)
qed

definition finalized_rows :: "time \<Rightarrow> string \<Rightarrow> pydict \<Rightarrow> execution_row list \<Rightarrow> execution_row list" where
  "finalized_rows now key evidence rows =
     map (\<lambda>r. if ex_key r = key
              then r\<lparr>ex_evidence := stored_payload evidence, ex_status := Complete,
                     ex_upload := UploadPending, ex_updated := now\<rparr> else r) rows"

lemma finalized_rows_frame [simp]:
  "map ex_key (finalized_rows now key evidence rows) = map ex_key rows"
  "map ex_id (finalized_rows now key evidence rows) = map ex_id rows"
  "map ex_created (finalized_rows now key evidence rows) = map ex_created rows"
  "length (finalized_rows now key evidence rows) = length rows"
  by (simp_all add: finalized_rows_def)

lemma finalized_rows_pending:
  assumes "r \<in> set rows" "ex_upload r \<noteq> Uploaded"
  shows "\<exists>r' \<in> set (finalized_rows now key evidence rows). ex_key r' = ex_key r \<and> ex_upload r' \<noteq> Uploaded"
proof -
  let ?g = "\<lambda>r. if ex_key r = key then r\<lparr>ex_evidence := stored_payload evidence, ex_status := Complete,
    ex_upload := UploadPending, ex_updated := now\<rparr> else r"
  have "?g r \<in> set (finalized_rows now key evidence rows)"
    using assms(1) unfolding finalized_rows_def set_map by (rule imageI)
  moreover have "ex_key (?g r) = ex_key r" "ex_upload (?g r) \<noteq> Uploaded"
    using assms(2) by simp_all
  ultimately show ?thesis by blast
qed

lemma one_row_iff:
  "distinct (map f xs) \<Longrightarrow> length (filter (\<lambda>r. f r = k) xs) = 1 \<longleftrightarrow> k \<in> f ` set xs"
  by (induction xs) (auto simp: filter_empty_conv image_iff)

lemma finalize_cases:
  obtains (failed) e where "finalize_execution now later evidence s = (Inl e, s)"
  | (completed) key where "dindex evidence ''idempotency_key'' = Inr key"
      "py_str key \<in> ex_key ` set (rs_executions s)"
      "finalize_execution now later evidence s = (Inr (), prune_evidence later
         (s\<lparr>rs_executions := finalized_rows now (py_str key) evidence (rs_executions s)\<rparr>))"
proof (cases "dindex evidence ''idempotency_key''")
  case (Inl e)
  then show thesis by (intro failed) (simp add: finalize_execution_def)
next
  case (Inr key)
  show thesis
  proof (cases "length (filter (\<lambda>r. ex_key r = py_str key) (rs_executions s)) = 1")
    case True
    then have "filter (\<lambda>r. ex_key r = py_str key) (rs_executions s) \<noteq> []" by auto
    then have "py_str key \<in> ex_key ` set (rs_executions s)"
      by (force simp: filter_empty_conv)
    with True Inr show thesis
      by (intro completed) (simp_all add: finalize_execution_def finalized_rows_def)
  next
    case False
    with Inr show thesis by (intro failed) (simp add: finalize_execution_def)
  qed
qed

lemma executions_ok_step: "executions_ok s \<Longrightarrow> executions_ok (rule_step op s)"
proof (cases op)
  case (Reserve now later key eid evidence)
  assume ok: "executions_ok s"
  show ?thesis
  proof (cases rule: reserve_cases [of key s now later eid evidence])
    case created
    have "executions_ok (prune_evidence later
        (s\<lparr>rs_executions := rs_executions s @ [reserved_row now key eid evidence]\<rparr>))"
      by (rule executions_ok_prune) (use ok created in \<open>simp_all add: executions_ok_def reserved_row_def\<close>)
    then show ?thesis by (simp add: Reserve created(3))
  qed (use ok in \<open>simp_all add: Reserve\<close>)
next
  case (Finalize now later evidence)
  assume ok: "executions_ok s"
  show ?thesis
  proof (cases rule: finalize_cases [of now later evidence s])
    case (completed key)
    have "executions_ok (prune_evidence later
        (s\<lparr>rs_executions := finalized_rows now (py_str key) evidence (rs_executions s)\<rparr>))"
      by (rule executions_ok_prune) (use ok in \<open>simp_all add: executions_ok_def\<close>)
    then show ?thesis by (simp add: Finalize completed(3))
  qed (use ok in \<open>simp add: Finalize\<close>)
next
  case (MarkUploaded now later eids)
  assume ok: "executions_ok s"
  let ?rows = "map (\<lambda>r. if ex_id r \<in> set eids then r\<lparr>ex_upload := Uploaded, ex_updated := now\<rparr>
    else r) (rs_executions s)"
  have "executions_ok (prune_evidence later (s\<lparr>rs_executions := ?rows\<rparr>))"
    by (rule executions_ok_prune) (use ok in \<open>simp_all add: executions_ok_def del: map_map\<close>)
  with ok show ?thesis by (simp add: MarkUploaded mark_uploaded_def)
next
  case (ApplyPackage now p)
  then show "executions_ok s \<Longrightarrow> ?thesis"
    by (cases rule: apply_package_cases [of now p s]) (simp_all add: executions_ok_def)
next
  case (ApplyControl control)
  then show "executions_ok s \<Longrightarrow> ?thesis"
    using apply_control_effect [of control s] by (auto simp: executions_ok_def)
qed (simp add: executions_ok_def active_documents_def Let_def)

interpretation rules: invariant_system rule_step "\<lambda>_. True" "\<lambda>s. packages_ok s \<and> executions_ok s"
  by unfold_locales (simp add: packages_ok_step executions_ok_step)

text \<open>
  C35: whatever the connector does with its rule file, each rule has at most one active package,
  each idempotency key and each execution identifier at most one row, and the evidence never
  exceeds \<open>evidence_max_rows\<close> rows.
\<close>

theorem rule_file_well_formed:
  "let s = fold rule_step ops (rule_initialize max_rows retention \<lparr>disk_packages = None, disk_executions = None\<rparr>)
   in distinct (map pr_rule_id (rs_packages s)) \<and> distinct (map pr_package_id (rs_packages s)) \<and>
      distinct (map ex_key (rs_executions s)) \<and> distinct (map ex_id (rs_executions s)) \<and>
      int (length (rs_executions s)) \<le> max 0 max_rows"
proof -
  let ?s = "rule_initialize max_rows retention \<lparr>disk_packages = None, disk_executions = None\<rparr>"
  have "packages_ok ?s \<and> executions_ok ?s"
    by (simp add: rule_initialize_def packages_ok_def executions_ok_def)
  then have "packages_ok (fold rule_step ops ?s) \<and> executions_ok (fold rule_step ops ?s)"
    by (intro rules.run_inv) (simp_all add: list_all_iff)
  moreover have "evidence_max_rows (rule_step op s) = evidence_max_rows s" for op s
  proof (cases op)
    case (ApplyPackage now p)
    then show ?thesis by (cases rule: apply_package_cases [of now p s]) simp_all
  next
    case (ApplyControl c)
    then show ?thesis using apply_control_effect [of c s] by auto
  qed (auto simp: active_documents_def Let_def reserve_execution_def finalize_execution_def
      mark_uploaded_def split: option.split sum.split)
  then have "evidence_max_rows (fold rule_step ops s) = evidence_max_rows s" for s
    by (induction ops arbitrary: s) simp_all
  ultimately show ?thesis
    by (simp add: Let_def packages_ok_def executions_ok_def) (simp add: rule_initialize_def)
qed

section \<open>What the callers rely on\<close>

lemma active_rows: "set (fst (active_documents t s)) = pr_document ` {r \<in> set (rs_packages s). t < pr_valid_until r}"
  by (simp add: active_documents_def Let_def)

text \<open>
  Applying a package makes it the only active package of its rule until its
  \<open>valid_until\<close>, whatever version was active before; revoking it takes it out.
\<close>

theorem applied_package_is_the_active_one:
  assumes "apply_package now p s = (Inr (), s')" and "t < valid_until p"
    and "\<forall>r \<in> set (rs_packages s). pr_document r \<noteq> stored_document p"
  shows "stored_document p \<in> set (fst (active_documents t s')) \<and>
    (\<exists>rid. dindex (package_payload p) ''rule_id'' = Inr rid \<and>
      map pr_document (filter (\<lambda>r. pr_rule_id r = py_str rid) (rs_packages s')) = [stored_document p]) \<and>
    stored_document p \<notin> set (fst (active_documents t (snd (apply_control
      [(''status'', PStr ''revoked''), (''package_id'', PStr (package_id p))] s'))))"
proof (cases rule: apply_package_cases [of now p s])
  case (stored rid row)
  from assms(1) stored(4) have s': "s' = s\<lparr>rs_packages :=
      filter (\<lambda>r. pr_rule_id r \<noteq> py_str rid) (rs_packages s) @ [row]\<rparr>" by simp
  have "snd (apply_control [(''status'', PStr ''revoked''), (''package_id'', PStr (package_id p))] s') =
      s'\<lparr>rs_packages := filter (\<lambda>r. pr_package_id r \<noteq> package_id p) (rs_packages s')\<rparr>"
    by (simp add: apply_control_def in_strings_def Let_def)
  moreover have "stored_document p \<in> set (fst (active_documents t s'))"
    using assms(2) unfolding active_rows by (intro image_eqI [of _ _ row]) (simp_all add: s' stored(2))
  ultimately show ?thesis
    using assms(3) by (auto simp: active_rows s' stored(1,2))
qed (use assms(1) in simp_all)

lemma reserved_row_survives:
  assumes "distinct (map ex_key (rs_executions s @ [row]))" "1 \<le> evidence_max_rows s"
    and "ex_upload row \<noteq> Uploaded" "\<forall>r \<in> set (rs_executions s). ex_created r \<le> ex_created row"
  shows "row \<in> set (rs_executions (prune_evidence later (s\<lparr>rs_executions := rs_executions s @ [row]\<rparr>)))"
proof -
  let ?s = "s\<lparr>rs_executions := rs_executions s @ [row]\<rparr>"
  have kept: "retained later ?s = retained later s @ [row]"
    using assms(3) by (simp add: retained_def)
  have "\<forall>r \<in> set (retained later s). eviction_rank r \<le> eviction_rank row"
    using assms(3,4) by (auto simp: retained_def eviction_rank_def less_eq_eviction_rank_def)
  then have "sort_key eviction_rank (retained later ?s) =
      sort_key eviction_rank (retained later s) @ [row]"
    unfolding kept by (rule sort_key_snoc)
  moreover have "excess later ?s \<le> length (retained later s)"
    using assms(2) by (simp add: excess_def kept)
  moreover have "set (rs_executions (prune_evidence later ?s)) =
      set (drop (excess later ?s) (sort_key eviction_rank (retained later ?s)))"
    by (rule mset_eq_setD, rule prune_mset) (use assms(1) in simp)
  ultimately show ?thesis by simp
qed

lemma execution_of_row:
  "distinct (map ex_key (rs_executions s)) \<Longrightarrow> r \<in> set (rs_executions s) \<Longrightarrow> execution_of (ex_key r) s = Some r"
proof -
  have "distinct (map ex_key rs) \<Longrightarrow> r \<in> set rs \<Longrightarrow> find (\<lambda>x. ex_key x = ex_key r) rs = Some r" for rs
    by (induction rs) (auto simp: image_iff)
  then show "distinct (map ex_key (rs_executions s)) \<Longrightarrow> r \<in> set (rs_executions s) \<Longrightarrow> ?thesis"
    by (simp add: execution_of_def)
qed

text \<open>
  A reservation holds: reserving the same key again, with whatever evidence and at whatever
  time, gives back the evidence first stored, marked as held, reports that nothing was created and
  leaves the file as it is.
\<close>

theorem reservation_is_idempotent:
  assumes "executions_ok s" and "1 \<le> evidence_max_rows s"
    and "\<forall>r \<in> set (rs_executions s). ex_created r \<le> now"
    and "reserve_execution now later key eid evidence s = (Inr (evidence, True), s')"
    and "execution_of key s = None"
  shows "reserve_execution now2 later2 key eid2 evidence2 s' =
    (Inr (dset (stored_payload evidence) ''_upload_status'' (PStr ''held''), False), s')"
proof (cases rule: reserve_cases [of key s now later eid evidence])
  case created
  let ?row = "reserved_row now key eid evidence"
  have s': "s' = prune_evidence later (s\<lparr>rs_executions := rs_executions s @ [?row]\<rparr>)"
    using created(3) assms(4) by simp
  have keys: "distinct (map ex_key (rs_executions s @ [?row]))"
    using assms(1) created(1) by (simp add: executions_ok_def reserved_row_def)
  have "?row \<in> set (rs_executions s')"
    unfolding s' by (rule reserved_row_survives) (use assms keys in \<open>simp_all add: reserved_row_def\<close>)
  moreover have "distinct (map ex_key (rs_executions s'))"
    unfolding s' by (rule prune_distinct) (use keys in simp)
  ultimately have "execution_of (ex_key ?row) s' = Some ?row"
    by (intro execution_of_row)
  then show ?thesis by (simp add: reserve_execution_def reserved_row_def)
qed (use assms in simp_all)

text \<open>
  Completed evidence is not lost: once an execution is finalised its evidence is pending,
  and stays out of the pending list once it is marked as uploaded.
\<close>

theorem finalized_evidence_is_pending_until_uploaded:
  assumes "executions_ok s" and "0 \<le> evidence_max_rows s"
    and "finalize_execution now later evidence s = (Inr (), s')"
    and "execution_of (py_str (dget evidence ''idempotency_key'')) s = Some r"
  shows "stored_payload evidence \<in> set (pending_evidence (-1) s') \<and>
    (\<forall>x \<in> set (rs_executions (mark_uploaded now2 later2 [ex_id r] s')).
       ex_id x = ex_id r \<longrightarrow> ex_upload x = Uploaded)"
proof (cases rule: finalize_cases [of now later evidence s])
  case (completed key)
  let ?t = "s\<lparr>rs_executions := finalized_rows now (py_str key) evidence (rs_executions s)\<rparr>"
  let ?r = "r\<lparr>ex_evidence := stored_payload evidence, ex_status := Complete,
    ex_upload := UploadPending, ex_updated := now\<rparr>"
  from completed(1) have key: "py_str (dget evidence ''idempotency_key'') = py_str key"
    by (simp add: dindex_dget)
  with assms(4) have r: "r \<in> set (rs_executions s)" "ex_key r = py_str key"
    by (auto dest: execution_of_Some)
  have "s' = prune_evidence later ?t" using assms(3) completed(3) by simp
  moreover have "rs_executions (prune_evidence later ?t) = retained later ?t"
    by (rule prune_keeps_retained) (use assms(1,2) in \<open>simp_all add: executions_ok_def\<close>)
  moreover have "?r \<in> set (finalized_rows now (py_str key) evidence (rs_executions s))"
    using r by (force simp: finalized_rows_def)
  ultimately have "?r \<in> set (rs_executions s')" by (simp add: retained_def)
  then have "stored_payload evidence \<in> set (pending_evidence (-1) s')"
    by (force simp: pending_evidence_def sql_limit_def)
  moreover have "\<forall>x \<in> set (rs_executions (mark_uploaded now2 later2 [ex_id r] s')).
       ex_id x = ex_id r \<longrightarrow> ex_upload x = Uploaded"
    using prune_rows_subset by (fastforce simp: mark_uploaded_def)
  ultimately show ?thesis by blast
qed (use assms(3) in simp)

section \<open>Concrete runs\<close>

definition fresh_store :: rule_store where
  "fresh_store = rule_initialize 2 60 \<lparr>disk_packages = None, disk_executions = None\<rparr>"

lemma fresh_store_rows [simp]:
  "rs_packages fresh_store = []" "rs_executions fresh_store = []" "evidence_max_rows fresh_store = 2"
  "executions_ok fresh_store"
  by (simp_all add: fresh_store_def rule_initialize_def executions_ok_def)

definition with_package :: rule_store where
  "with_package = fresh_store\<lparr>rs_packages :=
     [\<lparr>pr_package_id = package_id sample_package, pr_rule_id = ''r1'',
       pr_package_hash = package_hash sample_package, pr_document = stored_document sample_package,
       pr_valid_until = valid_until sample_package, pr_updated = 2000\<rparr>]\<rparr>"

lemma sample_rule_id: "dindex (package_payload sample_package) ''rule_id'' = Inr (PStr ''r1'')"
  by (simp add: sample_package_def sample_payload_def dindex_def)

lemma sample_applied: "apply_package 2000 sample_package fresh_store = (Inr (), with_package)"
  by (simp add: apply_package_def sample_rule_id with_package_def)

theorem applied_package_is_the_active_one_witness:
  "stored_document sample_package \<in> set (fst (active_documents 8999 with_package))"
  using applied_package_is_the_active_one [OF sample_applied, of 8999]
  by (simp add: sample_package_def)

definition sample_evidence :: pydict where
  "sample_evidence = [(''result'', PStr ''hit''), (''idempotency_key'', PStr ''k'')]"

definition with_reservation :: rule_store where
  "with_reservation = fresh_store\<lparr>rs_executions := [reserved_row 10 ''k'' ''e'' sample_evidence]\<rparr>"

lemma with_reservation_rows: "rs_executions with_reservation = [reserved_row 10 ''k'' ''e'' sample_evidence]"
  "evidence_max_rows with_reservation = 2"
  by (simp_all add: with_reservation_def)

lemma sample_reserved:
  "reserve_execution 10 11 ''k'' ''e'' sample_evidence fresh_store = (Inr (sample_evidence, True), with_reservation)"
  by (simp add: reserve_execution_def execution_of_def prune_evidence_def retained_def Let_def
      with_reservation_def reserved_row_def)

theorem reservation_is_idempotent_witness:
  "reserve_execution 20 21 ''k'' ''e2'' [] with_reservation =
     (Inr (dset (stored_payload sample_evidence) ''_upload_status'' (PStr ''held''), False), with_reservation)"
  by (rule reservation_is_idempotent [OF _ _ _ sample_reserved]) (simp_all add: execution_of_def)

theorem finalized_evidence_is_pending_until_uploaded_witness:
  "stored_payload sample_evidence \<in>
     set (pending_evidence (-1) (snd (finalize_execution 12 13 sample_evidence with_reservation)))"
proof -
  have "executions_ok with_reservation"
    by (simp add: executions_ok_def with_reservation_rows)
  moreover have "finalize_execution 12 13 sample_evidence with_reservation =
      (Inr (), snd (finalize_execution 12 13 sample_evidence with_reservation))"
    by (simp add: finalize_execution_def sample_evidence_def with_reservation_rows reserved_row_def dindex_def)
  moreover have "execution_of (py_str (dget sample_evidence ''idempotency_key'')) with_reservation =
      Some (reserved_row 10 ''k'' ''e'' sample_evidence)"
    by (simp add: sample_evidence_def execution_of_def with_reservation_rows reserved_row_def)
  moreover have "0 \<le> evidence_max_rows with_reservation" by (simp add: with_reservation_rows)
  ultimately show ?thesis
    using finalized_evidence_is_pending_until_uploaded by blast
qed

definition full_store :: rule_store where
  "full_store = fresh_store\<lparr>evidence_max_rows := 1, rs_executions :=
     [reserved_row 10 ''a'' ''ea'' [], reserved_row 20 ''b'' ''eb'' []]\<rparr>"

theorem pruning_order_witness:
  "ex_upload (reserved_row 20 ''b'' ''eb'' []) \<noteq> Uploaded \<and>
   ex_created (reserved_row 10 ''a'' ''ea'' []) \<le> ex_created (reserved_row 20 ''b'' ''eb'' [])"
proof (rule pruning_order [of full_store _ 30])
  show "reserved_row 10 ''a'' ''ea'' [] \<notin> set (rs_executions (prune_evidence 30 full_store))"
    "reserved_row 20 ''b'' ''eb'' [] \<in> set (rs_executions (prune_evidence 30 full_store))"
    by (simp_all add: full_store_def prune_evidence_def retained_def reserved_row_def Let_def
        eviction_rank_def less_eq_eviction_rank_def)
qed (simp_all add: full_store_def reserved_row_def)

end
