(* ===== verification/Rule_Condition.thy ===== *)
theory Rule_Condition
  imports Py_Values
begin

text \<open>
  The condition language of local rules, \<open>evaluate_condition\<close> and its helpers in
  \<open>rule_runtime.py\<close>: a condition is a JSON tree, the context a dict with five roots, and the
  result a value together with a trace that is uploaded as evidence.
\<close>

definition ALLOWED_ROOTS :: "string list" where
  "ALLOWED_ROOTS = [''event'', ''latest_state'', ''device'', ''space'', ''time'']"

definition DENIED_SEGMENTS :: "string list" where
  "DENIED_SEGMENTS =
     [''raw'', ''raw_payload'', ''provider_payload'', ''provider_raw'', ''source_payload'']"

section \<open>Paths\<close>

text \<open>The loop that walks the path; \<open>path\<close> is only there for the message.\<close>

fun walk :: "string \<Rightarrow> string list \<Rightarrow> pyval \<Rightarrow> pyval res" where
  "walk path [] current = Inr current"
| "walk path (part # parts) current =
     (case current of
        PDict d \<Rightarrow> (case map_of d part of
            Some v \<Rightarrow> walk path parts v
          | None \<Rightarrow> Inl (LocalRuleEvaluationError ''missing_field''
              (''missing condition field: '' @ path)))
      | _ \<Rightarrow> Inl (LocalRuleEvaluationError ''missing_field''
              (''missing condition field: '' @ path)))"

definition resolve :: "string \<Rightarrow> pydict \<Rightarrow> pyval res" where
  "resolve path context =
     (let parts = split_on (CHR ''.'') path in
      if path = [] \<or> hd parts \<notin> set ALLOWED_ROOTS
      then Inl (LocalRuleEvaluationError ''missing_field''
             (''context root not allowed: '' @ hd parts))
      else if list_ex (\<lambda>part. part \<in> set DENIED_SEGMENTS) parts
      then Inl (LocalRuleEvaluationError ''raw_payload_access_denied''
             ''raw provider payload access is denied'')
      else walk path parts (PDict context))"

section \<open>Comparisons\<close>

definition is_infix :: "string \<Rightarrow> string \<Rightarrow> bool" where
  "is_infix s t = list_ex (\<lambda>u. prefix s u) (suffixes t)"

definition fval_le :: "fval \<Rightarrow> fval \<Rightarrow> bool" where
  "fval_le x y = (fval_less x y \<or> fval_eq x y)"

definition is_bool :: "pyval \<Rightarrow> bool" where
  "is_bool v = (case v of PBool _ \<Rightarrow> True | _ \<Rightarrow> False)"

definition comparable_error :: "string \<Rightarrow> exn" where
  "comparable_error opr = LocalRuleEvaluationError ''type_mismatch''
     (opr @ '' requires comparable operands'')"

definition compare_values :: "string \<Rightarrow> pyval \<Rightarrow> pyval \<Rightarrow> bool res" where
  "compare_values opr left right =
     (if opr = ''eq'' then Inr (py_eq left right)
      else if opr = ''ne'' then Inr (\<not> py_eq left right)
      else if opr = ''contains'' then
        (case (left, right) of
           (PStr s, PStr t) \<Rightarrow> Inr (is_infix t s)
         | (PList xs, _) \<Rightarrow> Inr (list_ex (\<lambda>x. py_eq x right) xs)
         | _ \<Rightarrow> Inl (LocalRuleEvaluationError ''type_mismatch'' ''contains requires string or list''))
      else if is_bool left \<or> is_bool right then Inl (comparable_error opr)
      else
        (case (num_of left, num_of right) of
           (Some x, Some y) \<Rightarrow>
             Inr (if opr = ''gt'' then fval_less y x
                  else if opr = ''gte'' then fval_le y x
                  else if opr = ''lt'' then fval_less x y
                  else fval_le x y)
         | _ \<Rightarrow>
           (case (left, right) of
              (PStr s, PStr t) \<Rightarrow>
                Inr (if opr = ''gt'' then t < s
                     else if opr = ''gte'' then t \<le> s
                     else if opr = ''lt'' then s < t
                     else s \<le> t)
            | _ \<Rightarrow> Inl (comparable_error opr))))"

definition COMPARISONS :: "string list" where
  "COMPARISONS = [''eq'', ''ne'', ''gt'', ''gte'', ''lt'', ''lte'', ''contains'']"

section \<open>Evaluation\<close>

definition node_op :: "pydict \<Rightarrow> string" where
  "node_op d = str_or_empty (dget d ''op'')"

definition node_path :: "pydict \<Rightarrow> string" where
  "node_path d = str_or_empty (dget d ''var'')"

definition bool_of :: "pyval \<Rightarrow> bool" where
  "bool_of v = (v = PBool True)"

lemma size_dget: "size (dget d k) < size (PDict d)"
proof -
  have "size v < size (PDict d)" if "(k, v) \<in> set d" for k v
    using that by (induction d) auto
  then show ?thesis
    by (auto simp: dget_def split: option.splits dest: map_of_SomeD)
qed

lemma size_dget_list: "dget d k = PList xs \<Longrightarrow> x \<in> set xs \<Longrightarrow> size x < size (PDict d)"
proof -
  assume "dget d k = PList xs" "x \<in> set xs"
  moreover from this(2) have "size x < size (PList xs)" by (induction xs) auto
  ultimately show ?thesis using size_dget [of d k] by simp
qed

function eval_node :: "pyval \<Rightarrow> pydict \<Rightarrow> (pyval \<times> pyval) res" where
  "eval_node node context =
     (case node of
        PDict d \<Rightarrow>
          (if dhas d ''var'' \<and> \<not> truthy (dget d ''op'')
           then rbind (resolve (node_path d) context) (\<lambda>v.
             Inr (v, PDict [(''var'', PStr (node_path d)), (''value'', v)]))
           else if node_op d = ''exists''
           then (case resolve (node_path d) context of
                   Inr _ \<Rightarrow> Inr (PBool True, PDict [(''op'', PStr (node_op d)),
                     (''var'', PStr (node_path d)), (''result'', PBool True)])
                 | Inl (LocalRuleEvaluationError reason m) \<Rightarrow>
                     if reason \<noteq> ''missing_field'' then Inl (LocalRuleEvaluationError reason m)
                     else Inr (PBool False, PDict [(''op'', PStr (node_op d)),
                       (''var'', PStr (node_path d)), (''result'', PBool False)])
                 | Inl e \<Rightarrow> Inl e)
           else if node_op d = ''and'' \<or> node_op d = ''or''
           then (case dget d ''args'' of
                   PList args \<Rightarrow>
                     (if args = []
                      then Inl (LocalRuleEvaluationError ''invalid_condition''
                             (node_op d @ '' requires non-empty args''))
                      else rbind (rmap (\<lambda>child. eval_node child context) args) (\<lambda>children.
                        if \<not> list_all (\<lambda>c. is_bool (fst c)) children
                        then Inl (LocalRuleEvaluationError ''type_mismatch''
                               (node_op d @ '' child must be boolean''))
                        else let result = (if node_op d = ''and''
                                           then list_all (\<lambda>c. bool_of (fst c)) children
                                           else list_ex (\<lambda>c. bool_of (fst c)) children)
                             in Inr (PBool result, PDict [(''op'', PStr (node_op d)),
                                  (''args'', PList (map snd children)), (''result'', PBool result)])))
                 | _ \<Rightarrow> Inl (LocalRuleEvaluationError ''invalid_condition''
                          (node_op d @ '' requires non-empty args'')))
           else if node_op d = ''not''
           then rbind (eval_node (dget d ''arg'') context) (\<lambda>c.
             if \<not> is_bool (fst c)
             then Inl (LocalRuleEvaluationError ''type_mismatch'' ''not arg must be boolean'')
             else Inr (PBool (\<not> bool_of (fst c)), PDict [(''op'', PStr (node_op d)),
               (''arg'', snd c), (''result'', PBool (\<not> bool_of (fst c)))]))
           else if node_op d \<in> set COMPARISONS
           then rbind (eval_node (dget d ''left'') context) (\<lambda>l.
             rbind (eval_node (dget d ''right'') context) (\<lambda>r.
             rbind (compare_values (node_op d) (fst l) (fst r)) (\<lambda>result.
               Inr (PBool result, PDict [(''op'', PStr (node_op d)), (''left'', snd l),
                 (''right'', snd r), (''result'', PBool result)]))))
           else Inl (LocalRuleEvaluationError ''invalid_operator''
                  (''unsupported condition operator: '' @ node_op d)))
      | _ \<Rightarrow> Inr (node, PDict [(''literal'', node)]))"
  by pat_completeness auto
termination
  by (relation "measure (\<lambda>(node, _). size node)")
    (auto simp del: pyval.size simp: size_dget size_dget_list)

declare eval_node.simps [simp del]

definition evaluate_condition :: "pydict \<Rightarrow> pydict \<Rightarrow> (bool \<times> pyval) res" where
  "evaluate_condition condition context =
     (if condition = [] then Inr (True, PDict [(''op'', PStr ''always''), (''result'', PBool True)])
      else rbind (eval_node (PDict condition) context) (\<lambda>(v, trace).
        case v of
          PBool b \<Rightarrow> Inr (b, trace)
        | _ \<Rightarrow> Inl (LocalRuleEvaluationError ''type_mismatch''
                 ''condition root must evaluate to boolean'')))"

section \<open>One equation per kind of node\<close>

text \<open>The shapes of a node, in the order the code tests them.\<close>

definition is_var :: "pydict \<Rightarrow> bool" where
  "is_var d \<longleftrightarrow> dhas d ''var'' \<and> \<not> truthy (dget d ''op'')"

lemma eval_literal:
  "\<not> (\<exists>d. node = PDict d) \<Longrightarrow> eval_node node c = Inr (node, PDict [(''literal'', node)])"
  by (subst eval_node.simps) (auto split: pyval.split)

lemma eval_var:
  "is_var d \<Longrightarrow> eval_node (PDict d) c = rbind (resolve (node_path d) c) (\<lambda>v.
     Inr (v, PDict [(''var'', PStr (node_path d)), (''value'', v)]))"
  by (subst eval_node.simps) (simp add: is_var_def)

lemma walk_error:
  "walk p parts v = Inl e \<Longrightarrow> \<exists>m. e = LocalRuleEvaluationError ''missing_field'' m"
  by (induction p parts v rule: walk.induct) (auto split: pyval.splits option.splits)

lemma resolve_error:
  assumes "resolve path c = Inl e"
  obtains m where "e = LocalRuleEvaluationError ''missing_field'' m"
  | m where "e = LocalRuleEvaluationError ''raw_payload_access_denied'' m"
proof -
  from assms have "\<exists>m. e = LocalRuleEvaluationError ''missing_field'' m \<or>
      e = LocalRuleEvaluationError ''raw_payload_access_denied'' m"
    by (auto simp: resolve_def Let_def dest: walk_error split: if_splits)
  with that show thesis by blast
qed

lemma eval_exists:
  "\<not> is_var d \<Longrightarrow> node_op d = ''exists'' \<Longrightarrow> eval_node (PDict d) c =
     (case resolve (node_path d) c of
        Inr _ \<Rightarrow> Inr (PBool True, PDict [(''op'', PStr (node_op d)),
          (''var'', PStr (node_path d)), (''result'', PBool True)])
      | Inl e \<Rightarrow> if \<exists>m. e = LocalRuleEvaluationError ''missing_field'' m
          then Inr (PBool False, PDict [(''op'', PStr (node_op d)),
            (''var'', PStr (node_path d)), (''result'', PBool False)])
          else Inl e)"
  by (subst eval_node.simps)
    (auto simp: is_var_def [symmetric] elim: resolve_error split: sum.splits exn.splits)

lemma eval_junction:
  "\<not> is_var d \<Longrightarrow> node_op d = ''and'' \<or> node_op d = ''or'' \<Longrightarrow> eval_node (PDict d) c =
     (case dget d ''args'' of
        PList args \<Rightarrow>
          (if args = []
           then Inl (LocalRuleEvaluationError ''invalid_condition''
                  (node_op d @ '' requires non-empty args''))
           else rbind (rmap (\<lambda>child. eval_node child c) args) (\<lambda>children.
             if \<not> list_all (\<lambda>c. is_bool (fst c)) children
             then Inl (LocalRuleEvaluationError ''type_mismatch''
                    (node_op d @ '' child must be boolean''))
             else let result = (if node_op d = ''and''
                                then list_all (\<lambda>c. bool_of (fst c)) children
                                else list_ex (\<lambda>c. bool_of (fst c)) children)
                  in Inr (PBool result, PDict [(''op'', PStr (node_op d)),
                       (''args'', PList (map snd children)), (''result'', PBool result)])))
      | _ \<Rightarrow> Inl (LocalRuleEvaluationError ''invalid_condition''
               (node_op d @ '' requires non-empty args'')))"
  by (subst eval_node.simps) (auto simp: is_var_def [symmetric])

lemma eval_not:
  "\<not> is_var d \<Longrightarrow> node_op d = ''not'' \<Longrightarrow> eval_node (PDict d) c =
     rbind (eval_node (dget d ''arg'') c) (\<lambda>r.
       if \<not> is_bool (fst r)
       then Inl (LocalRuleEvaluationError ''type_mismatch'' ''not arg must be boolean'')
       else Inr (PBool (\<not> bool_of (fst r)), PDict [(''op'', PStr (node_op d)),
         (''arg'', snd r), (''result'', PBool (\<not> bool_of (fst r)))]))"
  by (subst eval_node.simps) (simp add: is_var_def [symmetric])

lemma eval_comparison:
  "\<not> is_var d \<Longrightarrow> node_op d \<in> set COMPARISONS \<Longrightarrow> eval_node (PDict d) c =
     rbind (eval_node (dget d ''left'') c) (\<lambda>l.
       rbind (eval_node (dget d ''right'') c) (\<lambda>r.
       rbind (compare_values (node_op d) (fst l) (fst r)) (\<lambda>result.
         Inr (PBool result, PDict [(''op'', PStr (node_op d)), (''left'', snd l),
           (''right'', snd r), (''result'', PBool result)]))))"
  by (subst eval_node.simps) (auto simp: is_var_def [symmetric] COMPARISONS_def)

lemma eval_unsupported:
  assumes "\<not> is_var d"
    "node_op d \<notin> {''exists'', ''and'', ''or'', ''not''} \<union> set COMPARISONS"
  shows "eval_node (PDict d) c = Inl (LocalRuleEvaluationError ''invalid_operator''
    (''unsupported condition operator: '' @ node_op d))"
  using assms by (subst eval_node.simps) (simp add: is_var_def [symmetric])

lemma node_cases [case_names literal var_ref exists junction negation comparison unsupported]:
  obtains "\<not> (\<exists>d. node = PDict d)"
  | d where "node = PDict d" "is_var d"
  | d where "node = PDict d" "\<not> is_var d" "node_op d = ''exists''"
  | d where "node = PDict d" "\<not> is_var d" "node_op d = ''and'' \<or> node_op d = ''or''"
  | d where "node = PDict d" "\<not> is_var d" "node_op d = ''not''"
  | d where "node = PDict d" "\<not> is_var d" "node_op d \<in> set COMPARISONS"
  | d where "node = PDict d" "\<not> is_var d"
      "node_op d \<notin> {''exists'', ''and'', ''or'', ''not''} \<union> set COMPARISONS"
  by (cases node) auto

lemmas eval_equations = eval_literal eval_var eval_exists eval_junction eval_not eval_comparison
  eval_unsupported

section \<open>The trace justifies the result\<close>

text \<open>
  Recomputing a result from its trace alone: literals and resolved variables are taken as the
  trace records them, every operator is applied again.
\<close>

function replay :: "pyval \<Rightarrow> pyval res" where
  "replay trace =
     (case trace of
        PDict t \<Rightarrow>
          (if dhas t ''literal'' then Inr (dget t ''literal'')
           else if \<not> dhas t ''op'' then Inr (dget t ''value'')
           else if dget t ''op'' = PStr ''and'' \<or> dget t ''op'' = PStr ''or''
           then (case dget t ''args'' of
                   PList args \<Rightarrow> rbind (rmap replay args) (\<lambda>vs.
                     Inr (PBool (if dget t ''op'' = PStr ''and'' then list_all bool_of vs
                                 else list_ex bool_of vs)))
                 | _ \<Rightarrow> Inl (TypeError ''args''))
           else if dget t ''op'' = PStr ''not''
           then rbind (replay (dget t ''arg'')) (\<lambda>v. Inr (PBool (\<not> bool_of v)))
           else if dhas t ''left''
           then rbind (replay (dget t ''left'')) (\<lambda>l.
             rbind (replay (dget t ''right'')) (\<lambda>r.
             rbind (compare_values (str_or_empty (dget t ''op'')) l r) (\<lambda>b. Inr (PBool b))))
           else Inr (dget t ''result''))
      | _ \<Rightarrow> Inl (TypeError ''trace''))"
  by pat_completeness auto
termination
  by (relation "measure size") (auto simp del: pyval.size simp: size_dget size_dget_list)

declare replay.simps [simp del]

lemma replay_literal: "replay (PDict [(''literal'', v)]) = Inr v"
  by (simp add: replay.simps [of "PDict _"] dhas_def dget_def)

lemma replay_var: "replay (PDict [(''var'', p), (''value'', v)]) = Inr v"
  by (simp add: replay.simps [of "PDict _"] dhas_def dget_def)

lemma replay_exists: "replay (PDict [(''op'', PStr ''exists''), (''var'', p), (''result'', v)]) = Inr v"
  by (simp add: replay.simps [of "PDict _"] dhas_def dget_def)

lemma replay_junction:
  assumes "opr = ''and'' \<or> opr = ''or''" "rmap replay ts = Inr vs"
  shows "replay (PDict [(''op'', PStr opr), (''args'', PList ts), (''result'', r)]) =
    Inr (PBool (if opr = ''and'' then list_all bool_of vs else list_ex bool_of vs))"
  using assms by (subst replay.simps) (auto simp: dhas_def dget_def)

lemma replay_not:
  "replay t = Inr v \<Longrightarrow>
     replay (PDict [(''op'', PStr ''not''), (''arg'', t), (''result'', r)]) = Inr (PBool (\<not> bool_of v))"
  by (subst replay.simps) (simp add: dhas_def dget_def)

lemma replay_comparison:
  assumes "opr \<in> set COMPARISONS" "replay l = Inr lv" "replay r = Inr rv" "compare_values opr lv rv = Inr b"
  shows "replay (PDict [(''op'', PStr opr), (''left'', l), (''right'', r), (''result'', v)]) = Inr (PBool b)"
  using assms by (subst replay.simps) (auto simp: dhas_def dget_def COMPARISONS_def)

lemma eval_replay: "eval_node node c = Inr (v, t) \<Longrightarrow> replay t = Inr v"
proof (induction node arbitrary: v t rule: measure_induct_rule [of size])
  case (less node)
  show ?case
  proof (cases node rule: node_cases)
    case literal
    with less.prems show ?thesis by (auto simp: eval_literal replay_literal)
  next
    case (var_ref d)
    with less.prems show ?thesis by (auto simp: eval_var rbind_Inr_iff replay_var)
  next
    case (exists d)
    with less.prems show ?thesis
      by (auto simp: eval_exists replay_exists split: sum.splits if_splits)
  next
    case (junction d)
    with less.prems obtain args children where
      args: "dget d ''args'' = PList args" and
      ch: "list_all2 (\<lambda>x y. eval_node x c = Inr y) args children" and
      res: "v = PBool (if node_op d = ''and'' then list_all (\<lambda>c. bool_of (fst c)) children
          else list_ex (\<lambda>c. bool_of (fst c)) children)"
        "t = PDict [(''op'', PStr (node_op d)), (''args'', PList (map snd children)), (''result'', v)]"
      by (auto simp: eval_junction rbind_Inr_iff rmap_Inr_iff Let_def split: pyval.splits if_splits)
    have "replay (snd y) = Inr (fst y)" if "(x, y) \<in> set (zip args children)" for x y
    proof -
      from that ch have "eval_node x c = Inr y" by (auto simp: list_all2_iff)
      moreover from that args have "size x < size node"
        unfolding junction(1) by (blast intro: size_dget_list dest: set_zip_leftD)
      ultimately show ?thesis using less.IH [of x "fst y" "snd y"] by simp
    qed
    then have "list_all2 (\<lambda>x y. replay x = Inr y) (map snd children) (map fst children)"
      using list_all2_lengthD [OF ch]
      by (simp add: list_all2_conv_all_nth) (metis length_zip min.idem nth_mem nth_zip)
    then have "rmap replay (map snd children) = Inr (map fst children)" by (simp add: rmap_Inr_iff)
    from replay_junction [OF junction(3) this] show ?thesis
      by (simp add: res list.pred_map list_ex_map comp_def)
  next
    case (negation d)
    with less.prems obtain r where r: "eval_node (dget d ''arg'') c = Inr r"
      and res: "v = PBool (\<not> bool_of (fst r))"
        "t = PDict [(''op'', PStr ''not''), (''arg'', snd r), (''result'', v)]"
      by (auto simp: eval_not rbind_Inr_iff split: if_splits)
    have "replay (snd r) = Inr (fst r)"
      using less.IH [of "dget d ''arg''" "fst r" "snd r"] r size_dget [of d] negation(1) by simp
    from replay_not [OF this] show ?thesis by (simp add: res)
  next
    case (comparison d)
    with less.prems obtain l r b where
      lr: "eval_node (dget d ''left'') c = Inr l" "eval_node (dget d ''right'') c = Inr r"
        "compare_values (node_op d) (fst l) (fst r) = Inr b" and
      res: "v = PBool b" "t = PDict [(''op'', PStr (node_op d)), (''left'', snd l),
        (''right'', snd r), (''result'', PBool b)]"
      by (auto simp: eval_comparison rbind_Inr_iff)
    have "replay (snd l) = Inr (fst l)" "replay (snd r) = Inr (fst r)"
      using less.IH [of "dget d ''left''" "fst l" "snd l"] less.IH [of "dget d ''right''" "fst r" "snd r"]
        lr size_dget [of d] comparison(1) by simp_all
    from replay_comparison [OF comparison(3) this lr(3)] show ?thesis by (simp add: res)
  next
    case (unsupported d)
    with less.prems show ?thesis by (simp add: eval_unsupported)
  qed
qed

text \<open>
  C30: the trace a condition leaves as evidence justifies its verdict: recomputing the operators
  of the trace from the literals and variable values it records gives the verdict again.
\<close>

theorem condition_trace_justifies_verdict:
  assumes "evaluate_condition condition context = Inr (verdict, trace)"
  shows "replay trace = Inr (PBool verdict)"
proof (cases "condition = []")
  case True
  with assms show ?thesis
    by (auto simp: evaluate_condition_def replay.simps [of "PDict _"] dhas_def dget_def)
next
  case False
  with assms obtain v where v: "eval_node (PDict condition) context = Inr (v, trace)"
    "(case v of PBool b \<Rightarrow> Inr (b, trace)
      | _ \<Rightarrow> Inl (LocalRuleEvaluationError ''type_mismatch''
          ''condition root must evaluate to boolean'')) = Inr (verdict, trace)"
    by (cases "eval_node (PDict condition) context")
      (auto simp: evaluate_condition_def split: pyval.splits)
  then have "eval_node (PDict condition) context = Inr (PBool verdict, trace)"
    by (cases v) simp_all
  then show ?thesis by (rule eval_replay)
qed

definition sample_context :: pydict where
  "sample_context = [(''event'', PDict [(''entity_id'', PStr ''light.desk''), (''value'', PBool True)]),
     (''latest_state'', PDict [(''value'', PBool True), (''raw'', PStr ''secret'')])]"

definition sample_condition :: pydict where
  "sample_condition = [(''op'', PStr ''and''), (''args'', PList
     [PDict [(''op'', PStr ''eq''), (''left'', PDict [(''var'', PStr ''event.value'')]), (''right'', PBool True)],
      PDict [(''op'', PStr ''not''), (''arg'', PDict [(''op'', PStr ''exists''), (''var'', PStr ''device.id'')])]])]"

lemma sample_verdict: "\<exists>t. evaluate_condition sample_condition sample_context = Inr (True, t)"
proof -
  have "(case evaluate_condition sample_condition sample_context of
      Inr (verdict, t) \<Rightarrow> verdict | Inl _ \<Rightarrow> False)"
    unfolding sample_condition_def sample_context_def by code_simp
  then show ?thesis by (auto split: sum.splits)
qed

theorem condition_trace_justifies_verdict_witness:
  "\<exists>t. evaluate_condition sample_condition sample_context = Inr (True, t) \<and> replay t = Inr (PBool True)"
  using sample_verdict condition_trace_justifies_verdict by blast

section \<open>What a condition can read\<close>

text \<open>A path whose root is allowed and that names no denied segment.\<close>

definition readable :: "string \<Rightarrow> bool" where
  "readable path \<longleftrightarrow> path \<noteq> [] \<and> hd (split_on (CHR ''.'') path) \<in> set ALLOWED_ROOTS \<and>
     list_all (\<lambda>part. part \<notin> set DENIED_SEGMENTS) (split_on (CHR ''.'') path)"

definition same_readable :: "pydict \<Rightarrow> pydict \<Rightarrow> bool" where
  "same_readable c c' \<longleftrightarrow> (\<forall>path. readable path \<longrightarrow>
     walk path (split_on (CHR ''.'') path) (PDict c) = walk path (split_on (CHR ''.'') path) (PDict c'))"

lemma resolve_same: "same_readable c c' \<Longrightarrow> resolve path c = resolve path c'"
  by (auto simp: resolve_def same_readable_def readable_def Let_def list_ex_iff list_all_iff)

lemma eval_same: "same_readable c c' \<Longrightarrow> eval_node node c = eval_node node c'"
proof (induction node rule: measure_induct_rule [of size])
  case (less node)
  note same = resolve_same [OF less.prems]
  show ?case
  proof (cases node rule: node_cases)
    case (junction d)
    have "rmap (\<lambda>child. eval_node child c) args = rmap (\<lambda>child. eval_node child c') args"
      if "dget d ''args'' = PList args" for args
      using that less.IH less.prems size_dget_list [of d "''args''" args] junction(1)
      by (auto intro!: rmap_cong)
    then show ?thesis
      using junction by (auto simp: eval_junction split: pyval.splits)
  next
    case (negation d)
    then show ?thesis using less size_dget [of d] by (simp add: eval_not)
  next
    case (comparison d)
    then show ?thesis using less size_dget [of d] by (simp add: eval_comparison)
  qed (simp_all add: eval_literal eval_var eval_exists eval_unsupported same)
qed

text \<open>
  A condition reads the context only through paths that start at an allowed root and name no
  denied segment: two contexts that agree on those paths get the same verdict, the same trace or
  the same error, whatever else they hold.
\<close>

theorem condition_reads_only_allowed_paths:
  assumes "same_readable context context'"
  shows "evaluate_condition condition context = evaluate_condition condition context'"
  using eval_same [OF assms] by (simp add: evaluate_condition_def)

lemma walk_snoc_root:
  "walk path (part # parts) (PDict c) = walk path (part # parts) (PDict c')"
  if "map_of c part = map_of c' part"
  using that by (simp split: option.splits)

theorem condition_reads_only_allowed_paths_witness:
  "evaluate_condition sample_condition sample_context =
   evaluate_condition sample_condition (sample_context @ [(''provider'', PStr ''secret'')])"
proof (rule condition_reads_only_allowed_paths)
  have roots: "map_of sample_context r = map_of (sample_context @ [(''provider'', PStr ''secret'')]) r"
    if "r \<in> set ALLOWED_ROOTS" for r
    using that by (auto simp: ALLOWED_ROOTS_def sample_context_def)
  show "same_readable sample_context (sample_context @ [(''provider'', PStr ''secret'')])"
    unfolding same_readable_def
  proof (intro allI impI)
    fix path assume "readable path"
    then obtain r rs where "split_on (CHR ''.'') path = r # rs" "r \<in> set ALLOWED_ROOTS"
      by (cases "split_on (CHR ''.'') path") (auto simp: readable_def)
    then show "walk path (split_on (CHR ''.'') path) (PDict sample_context) =
        walk path (split_on (CHR ''.'') path) (PDict (sample_context @ [(''provider'', PStr ''secret'')]))"
      using walk_snoc_root [OF roots] by simp
  qed
qed

text \<open>
  \<open>and\<close> and \<open>or\<close> evaluate every child, in order: the first child that raises decides the
  exception, a child that is not boolean is a type mismatch even when the other children already
  decide the verdict, and otherwise the verdict is the conjunction or the disjunction of all.
\<close>

theorem junctions_are_strict:
  assumes "opr = ''and'' \<or> opr = ''or''" "children \<noteq> []"
  shows "case rmap (\<lambda>child. eval_node child context) children of
      Inl e \<Rightarrow> evaluate_condition [(''op'', PStr opr), (''args'', PList children)] context = Inl e
    | Inr results \<Rightarrow>
        (if list_all (\<lambda>r. is_bool (fst r)) results
         then \<exists>trace. evaluate_condition [(''op'', PStr opr), (''args'', PList children)] context =
           Inr (if opr = ''and'' then \<forall>r \<in> set results. fst r = PBool True
                else \<exists>r \<in> set results. fst r = PBool True, trace)
         else evaluate_condition [(''op'', PStr opr), (''args'', PList children)] context =
           Inl (LocalRuleEvaluationError ''type_mismatch'' (opr @ '' child must be boolean'')))"
proof -
  let ?d = "[(''op'', PStr opr), (''args'', PList children)]"
  have d: "\<not> is_var ?d" "node_op ?d = ''and'' \<or> node_op ?d = ''or''" "node_op ?d = opr"
    "dget ?d ''args'' = PList children"
    using assms(1) by (auto simp: is_var_def dhas_def node_op_def dget_def)
  note node = eval_junction [OF d(1,2), of "context", unfolded d(3,4)]
  show ?thesis
  proof (cases "rmap (\<lambda>child. eval_node child context) children")
    case (Inl e)
    then show ?thesis using assms(2) by (simp add: evaluate_condition_def node)
  next
    case (Inr results)
    then show ?thesis
      using assms(2)
      by (simp add: evaluate_condition_def node Let_def bool_of_def list_all_iff list_ex_iff)
  qed
qed

theorem junctions_are_strict_witness:
  "evaluate_condition [(''op'', PStr ''or''), (''args'', PList [PBool True, PInt 1])] [] =
    Inl (LocalRuleEvaluationError ''type_mismatch'' (''or'' @ '' child must be boolean''))"
  using junctions_are_strict [of "''or''" "[PBool True, PInt 1]" "[]"]
  by (simp add: eval_literal is_bool_def)

end
