(* ===== verification/Event_Identity.thy ===== *)
theory Event_Identity
  imports Py_Values
begin

text \<open>
  The module \<open>event_identity.py\<close>: the source event id that is both the idempotency key of the
  uplink and of local rule execution. SHA-256 is the parameter \<open>sha\<close>: the hexadecimal digest of
  the UTF-8 encoding of a text.
\<close>

definition event_last_updated :: "pydict \<Rightarrow> pydict \<Rightarrow> string" where
  "event_last_updated event new_state =
     py_str (py_or (py_or (dget new_state ''last_updated'') (dget event ''time_fired'')) (PStr []))"

definition build_source_event_id :: "(string \<Rightarrow> string) \<Rightarrow> pydict \<Rightarrow> pydict \<Rightarrow> string res" where
  "build_source_event_id sha event new_state =
     rbind (py_dict (py_or (py_or (dget event ''context'') (dget new_state ''context'')) (PDict [])))
       (\<lambda>ctx.
         let context_id = str_or_empty (dget ctx ''id'');
             entity_id = str_or_empty (dget new_state ''entity_id'');
             last_updated = event_last_updated event new_state
         in if context_id \<noteq> []
            then Inr (''ha:'' @ context_id @ '':'' @ take 16 (sha (entity_id @ '':'' @ last_updated)))
            else Inr (''haevt:'' @ take 24
                   (sha (entity_id @ '':'' @ last_updated @ '':'' @ py_str (dget new_state ''state'')))))"

section \<open>Distinct changes have distinct ids\<close>

text \<open>Text in front of the first colon is determined by the whole text.\<close>

lemma before_colon:
  assumes "a @ '':'' @ b = a' @ '':'' @ b'" "CHR '':'' \<notin> set a" "CHR '':'' \<notin> set a'"
  shows "a = a' \<and> b = b'"
  using assms
proof (induction a arbitrary: a')
  case Nil
  then show ?case by (cases a') auto
next
  case (Cons c a)
  then show ?case by (cases a') auto
qed

text \<open>A state change as the id sees it: the entity and its time.\<close>

definition change_of :: "pydict \<Rightarrow> pydict \<Rightarrow> string \<times> string" where
  "change_of event new_state =
     (str_or_empty (dget new_state ''entity_id''), event_last_updated event new_state)"

definition change_text :: "pydict \<Rightarrow> pydict \<Rightarrow> string" where
  "change_text event new_state =
     fst (change_of event new_state) @ '':'' @ snd (change_of event new_state)"

definition context_id_of :: "pydict \<Rightarrow> pydict \<Rightarrow> string res" where
  "context_id_of event new_state =
     rbind (py_dict (py_or (py_or (dget event ''context'') (dget new_state ''context'')) (PDict [])))
       (\<lambda>ctx. Inr (str_or_empty (dget ctx ''id'')))"

lemma source_event_id_in_context:
  assumes "context_id_of event new_state = Inr cid" "cid \<noteq> []"
  shows "build_source_event_id sha event new_state =
    Inr (''ha:'' @ cid @ '':'' @ take 16 (sha (change_text event new_state)))"
  using assms
  by (auto simp: build_source_event_id_def context_id_of_def change_text_def change_of_def
      rbind_Inr_iff Let_def)

text \<open>
  C36: two changes that Home Assistant reports under one context get different source event ids
  as soon as the entity or the time of the change differs, unless the truncated digests of the two
  texts collide. Entity ids hold no colon; a digest has at least sixteen digits.
\<close>

theorem distinct_changes_distinct_ids:
  assumes ctx: "context_id_of e1 s1 = Inr cid1" "context_id_of e2 s2 = Inr cid2" "cid1 \<noteq> []" "cid2 \<noteq> []"
    and entity: "CHR '':'' \<notin> set (fst (change_of e1 s1))" "CHR '':'' \<notin> set (fst (change_of e2 s2))"
    and digest: "\<And>t. 16 \<le> length (sha t)"
    and no_collision: "take 16 (sha (change_text e1 s1)) = take 16 (sha (change_text e2 s2)) \<Longrightarrow>
      change_text e1 s1 = change_text e2 s2"
    and differ: "change_of e1 s1 \<noteq> change_of e2 s2"
  shows "build_source_event_id sha e1 s1 \<noteq> build_source_event_id sha e2 s2"
proof
  assume "build_source_event_id sha e1 s1 = build_source_event_id sha e2 s2"
  then have eq: "(cid1 @ '':'') @ take 16 (sha (change_text e1 s1)) =
      (cid2 @ '':'') @ take 16 (sha (change_text e2 s2))"
    using ctx by (simp add: source_event_id_in_context)
  have "length (take 16 (sha (change_text e1 s1))) = length (take 16 (sha (change_text e2 s2)))"
    using digest by (simp add: min_absorb2)
  with eq have "take 16 (sha (change_text e1 s1)) = take 16 (sha (change_text e2 s2))"
    using append_eq_append_conv by blast
  then have "change_text e1 s1 = change_text e2 s2" by (rule no_collision)
  then have "fst (change_of e1 s1) = fst (change_of e2 s2) \<and> snd (change_of e1 s1) = snd (change_of e2 s2)"
    unfolding change_text_def using entity by (rule before_colon)
  with differ show False by (simp add: prod_eq_iff)
qed

text \<open>A stand-in digest that no two texts of one length share.\<close>

definition sample_digest :: "string \<Rightarrow> string" where
  "sample_digest t = rev t @ replicate 64 (CHR ''0'')"

theorem distinct_changes_distinct_ids_witness:
  "build_source_event_id sample_digest [(''context'', PDict [(''id'', PStr ''c1'')])]
     [(''entity_id'', PStr ''light.a''), (''last_updated'', PStr ''t1'')] \<noteq>
   build_source_event_id sample_digest [(''context'', PDict [(''id'', PStr ''c1'')])]
     [(''entity_id'', PStr ''light.a''), (''last_updated'', PStr ''t2'')]"
  by (rule distinct_changes_distinct_ids [of _ _ "''c1''" _ _ "''c1''"])
    (simp_all add: context_id_of_def change_of_def change_text_def event_last_updated_def dget_def
      py_or_def sample_digest_def)

end
