(* ===== verification/Ha_Client.thy ===== *)
theory Ha_Client
  imports Py_Values
begin

text \<open>
  The module \<open>ha_client.py\<close>: the WebSocket client of Home Assistant. The \<open>websocket\<close> package is
  outside the repository: what it does is the parameter \<open>hw_peer\<close> of the world, which tells for
  the n-th connection, opened with some timeout, that it is refused or what the peer does on it.
  A peer is a script: one entry for each \<open>recv\<close>, with the time it spans, from the reading of
  \<open>time.monotonic()\<close> before it to its return, and what it gives, a decoded message or an
  exception (a message that is no JSON object is an exception too: the code calls \<open>.get\<close> on it). A
  \<open>recv\<close> past the script raises, as one on a closed socket does. The connection records what the
  client sent on it.
\<close>

section \<open>Connections\<close>

type_synonym frame = pydict

type_synonym span = "time \<times> time" \<comment> \<open>when a \<open>recv\<close> begins and when it returns or raises\<close>

record ws =
  ws_script :: "(span \<times> frame res) list"
  ws_send_limit :: "nat option" \<comment> \<open>the send after so many raises\<close>
  ws_sent :: "frame list"
  ws_closed :: bool

record ha_world =
  hw_peer :: "nat \<Rightarrow> time \<Rightarrow> ((span \<times> frame res) list \<times> nat option) res"
  hw_attempts :: nat
  hw_conns :: "ws list"

record ha_client =
  hc_token :: string
  hc_snapshot_deadline :: time

definition DEFAULT_SNAPSHOT_DEADLINE :: time where
  "DEFAULT_SNAPSHOT_DEADLINE = 20 * 1000000"

definition ha_client_init :: "string \<Rightarrow> time option \<Rightarrow> ha_client" where
  "ha_client_init token deadline =
     \<lparr>hc_token = token,
      hc_snapshot_deadline = (case deadline of None \<Rightarrow> DEFAULT_SNAPSHOT_DEADLINE | Some d \<Rightarrow> d)\<rparr>"

definition ws_send :: "frame \<Rightarrow> (ws, unit) eff" where
  "ws_send m c =
     (if ws_send_limit c = Some (length (ws_sent c)) then (Inl (TransportError ''send''), c)
      else (Inr (), c\<lparr>ws_sent := ws_sent c @ [m]\<rparr>))"

definition ws_close :: "ws \<Rightarrow> ws" where
  "ws_close c = c\<lparr>ws_closed := True\<rparr>"

definition is_ping :: "frame \<Rightarrow> bool" where
  "is_ping m \<longleftrightarrow> dget m ''type'' = PStr ''ping''"

definition pong :: "frame \<Rightarrow> frame" where
  "pong m = [(''id'', dget m ''id''), (''type'', PStr ''pong'')]"

text \<open>The loop of \<open>_receive_non_ping\<close>, over what is left of the script\<close>

fun receive_loop :: "time option \<Rightarrow> (span \<times> frame res) list \<Rightarrow> ws \<Rightarrow> frame res \<times> ws" where
  "receive_loop deadline [] c = (Inl (TransportError ''recv''), c\<lparr>ws_script := []\<rparr>)"
| "receive_loop deadline ((t, r) # script) c =
     (if (case deadline of None \<Rightarrow> False | Some d \<Rightarrow> d \<le> fst t)
      then (Inl (TimeoutError ''HA_SNAPSHOT_DEADLINE_EXCEEDED''), c\<lparr>ws_script := (t, r) # script\<rparr>)
      else case r of
        Inl e \<Rightarrow> (Inl e, c\<lparr>ws_script := script\<rparr>)
      | Inr m \<Rightarrow>
          if is_ping m
          then (case ws_send (pong m) c of
                  (Inl e, c') \<Rightarrow> (Inl e, c'\<lparr>ws_script := script\<rparr>)
                | (Inr _, c') \<Rightarrow> receive_loop deadline script c')
          else (Inr m, c\<lparr>ws_script := script\<rparr>))"

definition receive_non_ping :: "time option \<Rightarrow> (ws, frame) eff" where
  "receive_non_ping deadline c = receive_loop deadline (ws_script c) c"

definition succeeded :: "int \<Rightarrow> frame \<Rightarrow> bool" where
  "succeeded n response \<longleftrightarrow> py_eq (dget response ''id'') (PInt n) \<and> truthy (dget response ''success'')"

definition command :: "int \<Rightarrow> string \<Rightarrow> time option \<Rightarrow> (ws, pyval) eff" where
  "command n command_type deadline =
     seq (ws_send [(''id'', PInt n), (''type'', PStr command_type)]) (\<lambda>_.
     seq (receive_non_ping deadline) (\<lambda>response.
       if \<not> succeeded n response then throw (RuntimeError (''HA_COMMAND_FAILED:'' @ command_type))
       else ret (dget response ''result'')))"

section \<open>Opening\<close>

definition connect_timeout :: "time option \<Rightarrow> time \<Rightarrow> time" where
  "connect_timeout deadline now =
     (case deadline of None \<Rightarrow> 30000000 | Some d \<Rightarrow> max 1000000 (min 30000000 (d - now)))"

definition auth_frame :: "ha_client \<Rightarrow> frame" where
  "auth_frame client = [(''type'', PStr ''auth''), (''access_token'', PStr (hc_token client))]"

text \<open>The exchange of \<open>_open\<close>. Only a wrong message closes the socket, an exception does not.\<close>

definition handshake :: "ha_client \<Rightarrow> time option \<Rightarrow> (ws, unit) eff" where
  "handshake client deadline =
     seq (receive_non_ping deadline) (\<lambda>required.
       if dget required ''type'' \<noteq> PStr ''auth_required''
       then seq (modify ws_close) (\<lambda>_. throw (RuntimeError ''HA_AUTH_PROTOCOL_ERROR''))
       else seq (ws_send (auth_frame client)) (\<lambda>_.
         seq (receive_non_ping deadline) (\<lambda>authenticated.
           if dget authenticated ''type'' \<noteq> PStr ''auth_ok''
           then seq (modify ws_close) (\<lambda>_. throw (RuntimeError ''HA_AUTH_FAILED''))
           else ret ())))"

text \<open>
  \<open>_open\<close> gives the socket to its caller; one that it raises on is done with and joins the
  connections of the past as it is.
\<close>

definition open_socket :: "ha_client \<Rightarrow> time option \<Rightarrow> time \<Rightarrow> (ha_world, ws) eff" where
  "open_socket client deadline now w =
     (let w1 = w\<lparr>hw_attempts := Suc (hw_attempts w)\<rparr>
      in case hw_peer w (hw_attempts w) (connect_timeout deadline now) of
           Inl e \<Rightarrow> (Inl e, w1)
         | Inr (script, limit) \<Rightarrow>
             (case handshake client deadline
                 \<lparr>ws_script = script, ws_send_limit = limit, ws_sent = [], ws_closed = False\<rparr> of
                (Inl e, c) \<Rightarrow> (Inl e, w1\<lparr>hw_conns := hw_conns w1 @ [c]\<rparr>)
              | (Inr _, c) \<Rightarrow> (Inr c, w1)))"

text \<open>\<open>socket = self._open(...)\<close>, then \<open>try: ... finally: socket.close()\<close>\<close>

definition with_socket :: "ha_client \<Rightarrow> time option \<Rightarrow> time \<Rightarrow> (ws, 'a) eff \<Rightarrow> (ha_world, 'a) eff" where
  "with_socket client deadline now body =
     seq (open_socket client deadline now) (\<lambda>c w.
       case body c of (r, c') \<Rightarrow> (r, w\<lparr>hw_conns := hw_conns w @ [ws_close c']\<rparr>))"

section \<open>The client's methods\<close>

record ha_snapshot =
  areas :: "pyval list"
  devices :: "pyval list"
  entities :: "pyval list"
  states :: "pyval list"
  observed_at :: time

text \<open>
  \<open>start\<close> and \<open>now\<close> are readings of the monotonic clock, \<open>wall\<close> the time of day at the end.
\<close>

definition collect_snapshot ::
    "ha_client \<Rightarrow> time \<Rightarrow> time \<Rightarrow> time \<Rightarrow> (ha_world, ha_snapshot) eff" where
  "collect_snapshot client start now wall =
     (let deadline = Some (start + hc_snapshot_deadline client) in
      with_socket client deadline now
       (seq (command 1 ''config/area_registry/list'' deadline) (\<lambda>ar.
        seq (command 2 ''config/device_registry/list'' deadline) (\<lambda>dv.
        seq (command 3 ''config/entity_registry/list'' deadline) (\<lambda>en.
        seq (command 4 ''get_states'' deadline) (\<lambda>st.
        seq (lift_res (py_list ar)) (\<lambda>ar.
        seq (lift_res (py_list dv)) (\<lambda>dv.
        seq (lift_res (py_list en)) (\<lambda>en.
        seq (lift_res (py_list st)) (\<lambda>st.
          ret \<lparr>areas = ar, devices = dv, entities = en, states = st, observed_at = wall\<rparr>))))))))))"

record service_call =
  sc_domain :: string
  sc_service :: string
  sc_entity_id :: string
  sc_data :: pydict

definition call_frame :: "service_call \<Rightarrow> frame" where
  "call_frame s = [(''id'', PInt 200), (''type'', PStr ''call_service''),
     (''domain'', PStr (sc_domain s)), (''service'', PStr (sc_service s)),
     (''service_data'', PDict (dset (sc_data s) ''entity_id'' (PStr (sc_entity_id s)))),
     (''return_response'', PBool False)]"

definition call_service :: "ha_client \<Rightarrow> service_call \<Rightarrow> (ha_world, pydict) eff" where
  "call_service client s =
     with_socket client None 0
       (seq (ws_send (call_frame s)) (\<lambda>_.
        seq (receive_non_ping None) (\<lambda>response.
          if \<not> succeeded 200 response then throw (RuntimeError ''HA_SERVICE_CALL_FAILED'')
          else ret [(''request_id'', PStr (py_str (dget response ''id''))),
                    (''result'', dget response ''result'')])))"

fun find_state :: "string \<Rightarrow> pyval list \<Rightarrow> pydict option res" where
  "find_state entity_id [] = Inr None"
| "find_state entity_id (PDict st # sts) =
     (if dget st ''entity_id'' = PStr entity_id
      then Inr (Some [(''entity_id'', PStr entity_id), (''state'', PStr (str_or_empty (dget st ''state''))),
        (''last_changed'', dget st ''last_changed''), (''last_updated'', dget st ''last_updated'')])
      else find_state entity_id sts)"
| "find_state entity_id (_ # sts) = Inl (AttributeError ''get'')"

definition read_entity_state :: "ha_client \<Rightarrow> string \<Rightarrow> (ha_world, pydict option) eff" where
  "read_entity_state client entity_id =
     with_socket client None 0
       (seq (command 201 ''get_states'' None) (\<lambda>sts.
        seq (lift_res (py_list sts)) (\<lambda>sts.
          lift_res (find_state entity_id sts))))"

section \<open>The event stream\<close>

text \<open>
  The generator of \<open>subscribe_state_events\<close> as what it yields until the exception that ends it;
  the script is finite, so one does. Its \<open>finally\<close> closes the socket, also when the consumer
  abandons it.
\<close>

lemma receive_shrinks:
  "receive_loop deadline script c = (Inr m, c') \<Longrightarrow> length (ws_script c') < length script"
  by (induction deadline script c arbitrary: c' rule: receive_loop.induct)
    (fastforce split: if_splits sum.splits prod.splits)+

function event_loop :: "ws \<Rightarrow> pydict list \<times> exn \<times> ws" where
  "event_loop c =
     (case receive_non_ping None c of
        (Inl e, c') \<Rightarrow> ([], e, ws_close c')
      | (Inr m, c') \<Rightarrow>
          if dget m ''type'' = PStr ''event''
          then (case dict_or_empty (dget m ''event'') of
                  Inl e \<Rightarrow> ([], e, ws_close c')
                | Inr event \<Rightarrow> (case event_loop c' of (events, e, c'') \<Rightarrow> (event # events, e, c'')))
          else event_loop c')"
  by pat_completeness auto
termination
  by (relation "measure (\<lambda>c. length (ws_script c))")
    (auto simp: receive_non_ping_def dest: receive_shrinks [OF sym])

declare event_loop.simps [simp del]

definition subscribe_frame :: frame where
  "subscribe_frame = [(''id'', PInt 100), (''type'', PStr ''subscribe_events''),
     (''event_type'', PStr ''state_changed'')]"

definition subscribe_state_events :: "ha_client \<Rightarrow> ha_world \<Rightarrow> pydict list \<times> exn \<times> ha_world" where
  "subscribe_state_events client w =
     (case open_socket client None 0 w of
        (Inl e, w1) \<Rightarrow> ([], e, w1)
      | (Inr c, w1) \<Rightarrow>
          (case seq (ws_send subscribe_frame) (\<lambda>_. receive_non_ping None) c of
             (Inl e, c1) \<Rightarrow> ([], e, w1\<lparr>hw_conns := hw_conns w1 @ [c1]\<rparr>)
           | (Inr confirmation, c1) \<Rightarrow>
               if \<not> truthy (dget confirmation ''success'')
               then ([], RuntimeError ''HA_SUBSCRIPTION_FAILED'', w1\<lparr>hw_conns := hw_conns w1 @ [ws_close c1]\<rparr>)
               else (case event_loop c1 of
                       (events, e, c2) \<Rightarrow> (events, e, w1\<lparr>hw_conns := hw_conns w1 @ [c2]\<rparr>))))"

section \<open>What a connection sends\<close>

definition is_call :: "frame \<Rightarrow> bool" where
  "is_call m \<longleftrightarrow> dget m ''type'' = PStr ''call_service''"

definition is_auth :: "frame \<Rightarrow> bool" where
  "is_auth m \<longleftrightarrow> dget m ''type'' = PStr ''auth''"

text \<open>The service calls that ever left for Home Assistant, in order\<close>

definition calls_sent :: "ha_world \<Rightarrow> frame list" where
  "calls_sent w = filter is_call (concat (map ws_sent (hw_conns w)))"

lemma ws_close_simps [simp]:
  "ws_sent (ws_close c) = ws_sent c" "ws_script (ws_close c) = ws_script c" "ws_closed (ws_close c)"
  by (simp_all add: ws_close_def)

lemma frame_kinds [simp]:
  "\<not> is_call (pong m)" "\<not> is_auth (pong m)" "\<not> is_call (auth_frame client)" "is_auth (auth_frame client)"
  "is_call (call_frame s)" "\<not> is_auth (call_frame s)"
  by (simp_all add: is_call_def is_auth_def pong_def auth_frame_def call_frame_def)

text \<open>
  What reading does: it consumes pings, each answered at once by its pong, and the message it
  returns; with a deadline, no read of it began at or after it.
\<close>

definition in_time :: "time option \<Rightarrow> span \<Rightarrow> bool" where
  "in_time deadline t \<longleftrightarrow> (case deadline of None \<Rightarrow> True | Some d \<Rightarrow> fst t < d)"

lemma receive_loop_reads:
  "receive_loop deadline script c = (Inr m, c') \<Longrightarrow>
     \<exists>pings t. script = map (\<lambda>(t, p). (t, Inr p)) pings @ (t, Inr m) # ws_script c' \<and>
       list_all (\<lambda>(t, p). is_ping p \<and> in_time deadline t) pings \<and> \<not> is_ping m \<and> in_time deadline t \<and>
       ws_sent c' = ws_sent c @ map (\<lambda>(t, p). pong p) pings \<and> ws_closed c' = ws_closed c"
proof (induction deadline script c arbitrary: c' rule: receive_loop.induct)
  case (2 deadline t r script c)
  have time: "in_time deadline t"
    using "2.prems" by (auto simp: in_time_def split: if_splits option.splits)
  from "2.prems" obtain p where r: "r = Inr p" by (auto split: if_splits sum.splits)
  show ?case
  proof (cases "is_ping p")
    case False
    with "2.prems" r time show ?thesis
      by (intro exI [of _ "[]"]) (auto split: if_splits)
  next
    case True
    with "2.prems" r time obtain c1 where c1: "ws_send (pong p) c = (Inr (), c1)"
      "receive_loop deadline script c1 = (Inr m, c')"
      by (auto split: if_splits sum.splits prod.splits)
    have sent: "ws_sent c1 = ws_sent c @ [pong p]" "ws_closed c1 = ws_closed c"
      using c1(1) by (auto simp: ws_send_def split: if_splits)
    have "\<not> (case deadline of None \<Rightarrow> False | Some d \<Rightarrow> d \<le> fst t)"
      using time by (auto simp: in_time_def split: option.splits)
    from "2.IH" [OF this r True c1(1) [symmetric] refl c1(2)] obtain pings u where
      "script = map (\<lambda>(t, p). (t, Inr p)) pings @ (u, Inr m) # ws_script c'"
      "list_all (\<lambda>(t, p). is_ping p \<and> in_time deadline t) pings" "\<not> is_ping m" "in_time deadline u"
      "ws_sent c' = ws_sent c1 @ map (\<lambda>(t, p). pong p) pings" "ws_closed c' = ws_closed c1"
      by blast
    then show ?thesis
      using r True time sent
      by (intro exI [of _ "(t, p) # pings"] exI [of _ u]) simp
  qed
qed simp

text \<open>Reading sends nothing but pongs and closes nothing, also when it raises.\<close>

lemma receive_loop_sends:
  "receive_loop deadline script c = (r, c') \<Longrightarrow>
     (\<exists>ps. ws_sent c' = ws_sent c @ map pong ps) \<and> ws_closed c' = ws_closed c"
proof (induction deadline script c arbitrary: c' rule: receive_loop.induct)
  case (2 deadline t r' script c)
  show ?case
  proof (cases "\<exists>p. r' = Inr p \<and> is_ping p \<and> \<not> (case deadline of None \<Rightarrow> False | Some d \<Rightarrow> d \<le> fst t)")
    case True
    then obtain p where p: "r' = Inr p" "is_ping p"
      "\<not> (case deadline of None \<Rightarrow> False | Some d \<Rightarrow> d \<le> fst t)" by blast
    show ?thesis
    proof (cases "ws_send (pong p) c")
      case (Pair r1 c1)
      show ?thesis
      proof (cases r1)
        case (Inl e)
        with "2.prems" p Pair show ?thesis
          by (auto simp: ws_send_def intro!: exI [of _ "[]"] split: if_splits)
      next
        case (Inr u)
        with "2.prems" p Pair have "receive_loop deadline script c1 = (r, c')" by simp
        with "2.IH" [OF p(3) p(1) p(2) Pair [symmetric] Inr] obtain ps where
          "ws_sent c' = ws_sent c1 @ map pong ps" "ws_closed c' = ws_closed c1" by blast
        moreover have "ws_sent c1 = ws_sent c @ [pong p]" "ws_closed c1 = ws_closed c"
          using Pair Inr by (auto simp: ws_send_def split: if_splits)
        ultimately show ?thesis by (intro conjI exI [of _ "p # ps"]) simp_all
      qed
    qed
  next
    case False
    with "2.prems" show ?thesis
      by (auto intro!: exI [of _ "[]"] split: if_splits sum.splits)
  qed
qed (auto intro!: exI [of _ "[]"])

definition sent_calls :: "ws \<Rightarrow> frame list" where
  "sent_calls c = filter is_call (ws_sent c)"

text \<open>A computation on a connection that sends no service call\<close>

definition same_calls :: "ws \<Rightarrow> ws \<Rightarrow> bool" where
  "same_calls c c' \<longleftrightarrow> sent_calls c' = sent_calls c"

interpretation calls: frame_condition same_calls
  by unfold_locales (simp_all add: same_calls_def)

abbreviation quiet :: "(ws, 'a) eff \<Rightarrow> bool" where
  "quiet \<equiv> framed same_calls"

lemma quiet_close: "quiet (modify ws_close)"
  by (simp add: framed_def same_calls_def sent_calls_def eff_simps)

lemma quiet_send: "\<not> is_call m \<Longrightarrow> quiet (ws_send m)"
  by (simp add: framed_def same_calls_def sent_calls_def ws_send_def)

lemma quiet_receive: "quiet (receive_non_ping deadline)"
proof -
  have "sent_calls c' = sent_calls c" if "receive_loop deadline (ws_script c) c = (r, c')" for r c c'
    using receive_loop_sends [OF that] by (auto simp: sent_calls_def filter_empty_conv)
  then show ?thesis by (simp add: framed_def same_calls_def receive_non_ping_def) (metis prod.collapse)
qed

lemmas quiet_intros = calls.framed_seq calls.framed_basic calls.framed_if quiet_close quiet_send
  quiet_receive

lemma quiet_handshake: "quiet (handshake client deadline)"
  unfolding handshake_def by (intro quiet_intros) simp

lemma quiet_command: "ct \<noteq> ''call_service'' \<Longrightarrow> quiet (command n ct deadline)"
  unfolding command_def by (intro quiet_intros) (simp add: is_call_def)

lemma calls_sent_append [simp]:
  "calls_sent (w\<lparr>hw_attempts := n\<rparr>) = calls_sent w"
  "calls_sent (w\<lparr>hw_conns := cs @ [c]\<rparr>) = calls_sent (w\<lparr>hw_conns := cs\<rparr>) @ sent_calls c"
  "calls_sent (w\<lparr>hw_attempts := n, hw_conns := cs\<rparr>) = calls_sent (w\<lparr>hw_conns := cs\<rparr>)"
  "w\<lparr>hw_conns := hw_conns w\<rparr> = w"
  by (simp_all add: calls_sent_def sent_calls_def)

lemma open_socket_calls:
  assumes "open_socket client deadline now w = (r, w')"
  shows "calls_sent w' = calls_sent w \<and> (\<forall>c. r = Inr c \<longrightarrow> sent_calls c = [])"
proof -
  have "sent_calls c' = []" if "handshake client deadline c = (q, c')" "ws_sent c = []" for c c' q
    using framedD [OF quiet_handshake that(1)] that(2) by (simp add: same_calls_def sent_calls_def)
  then show ?thesis
    using assms by (auto simp: open_socket_def Let_def split: sum.splits prod.splits)
qed

lemma with_socket_quiet:
  assumes "quiet body"
  shows "calls_sent (snd (with_socket client deadline now body w)) = calls_sent w"
proof (cases "open_socket client deadline now w")
  case (Pair r w1)
  show ?thesis
  proof (cases r)
    case (Inl e)
    with Pair open_socket_calls [OF Pair] show ?thesis by (simp add: with_socket_def eff_simps)
  next
    case (Inr c)
    obtain q c' where body: "body c = (q, c')" by (cases "body c")
    with assms have "sent_calls c' = sent_calls c" by (auto dest: framedD simp: same_calls_def)
    then show ?thesis
      using open_socket_calls [OF Pair] Inr
      by (simp add: with_socket_def eff_simps Pair body) (simp add: sent_calls_def)
  qed
qed

lemma read_entity_state_quiet [simp]:
  "calls_sent (snd (read_entity_state client e w)) = calls_sent w"
  unfolding read_entity_state_def
  by (rule with_socket_quiet) (intro quiet_intros quiet_command; simp)

lemma collect_snapshot_quiet [simp]:
  "calls_sent (snd (collect_snapshot client start now wall w)) = calls_sent w"
  unfolding collect_snapshot_def Let_def
  by (rule with_socket_quiet) (intro quiet_intros quiet_command; simp)

lemma event_loop_quiet: "sent_calls (snd (snd (event_loop c))) = sent_calls c"
proof (induction c rule: event_loop.induct)
  case (1 c)
  obtain r c' where rc: "receive_non_ping None c = (r, c')" by (cases "receive_non_ping None c")
  have step: "sent_calls c' = sent_calls c"
    using framedD [OF quiet_receive rc] by (simp add: same_calls_def)
  have close: "sent_calls (ws_close c') = sent_calls c'" by (simp add: sent_calls_def)
  show ?case
  proof (cases r)
    case (Inl e)
    then show ?thesis by (simp add: event_loop.simps [of c] rc step close)
  next
    case (Inr m)
    show ?thesis
    proof (cases "dget m ''type'' = PStr ''event''")
      case True
      then show ?thesis
        using "1.IH"(1) [OF rc [symmetric] Inr True] step close
        by (cases "event_loop c'") (simp add: event_loop.simps [of c] rc Inr split: sum.split)
    next
      case False
      then show ?thesis
        using "1.IH"(2) [OF rc [symmetric] Inr False]
        by (simp add: event_loop.simps [of c] rc Inr step)
    qed
  qed
qed

lemma subscribe_quiet [simp]: "calls_sent (snd (snd (subscribe_state_events client w))) = calls_sent w"
proof (cases "open_socket client None 0 w")
  case (Pair r w1)
  show ?thesis
  proof (cases r)
    case (Inl e)
    with open_socket_calls [OF Pair] Pair show ?thesis by (simp add: subscribe_state_events_def)
  next
    case (Inr c)
    let ?m = "seq (ws_send subscribe_frame) (\<lambda>_. receive_non_ping None)"
    obtain q c1 where q: "?m c = (q, c1)" by (cases "?m c")
    have "quiet ?m" by (intro quiet_intros) (simp add: subscribe_frame_def is_call_def)
    with q have c1: "sent_calls c1 = sent_calls c" by (auto dest: framedD simp: same_calls_def)
    then have "sent_calls (ws_close c1) = []" "sent_calls c1 = []"
      using open_socket_calls [OF Pair] Inr by (simp_all add: sent_calls_def)
    with event_loop_quiet [of c1] open_socket_calls [OF Pair] show ?thesis
      by (cases "event_loop c1") (simp add: subscribe_state_events_def Pair Inr q split: sum.split)
  qed
qed

lemma call_body_calls:
  assumes "seq (ws_send (call_frame s)) (\<lambda>_. seq (receive_non_ping None) f) c = (r, c')"
    and "\<And>a. quiet (f a)"
  shows "sent_calls c' = sent_calls c @ [call_frame s] \<or> sent_calls c' = sent_calls c \<and> isl r"
proof (cases "ws_send (call_frame s) c")
  case (Pair q c1)
  have "quiet (seq (receive_non_ping None) f)" using assms(2) by (intro quiet_intros)
  then have rest: "sent_calls (snd (seq (receive_non_ping None) f c1)) = sent_calls c1"
    by (simp add: framed_def same_calls_def)
  show ?thesis
  proof (cases q)
    case (Inl e)
    with assms(1) Pair show ?thesis
      by (auto simp: eff_simps ws_send_def sent_calls_def split: if_splits)
  next
    case (Inr u)
    then have "seq (receive_non_ping None) f c1 = (r, c')"
      using assms(1) Pair by (subst (asm) seq_def) simp
    moreover have "sent_calls c1 = sent_calls c @ [call_frame s]"
      using Inr Pair by (auto simp: ws_send_def sent_calls_def split: if_splits)
    ultimately show ?thesis using rest by simp
  qed
qed

lemma call_service_calls:
  "calls_sent (snd (call_service client s w)) = calls_sent w @ [call_frame s] \<or>
   calls_sent (snd (call_service client s w)) = calls_sent w \<and> isl (fst (call_service client s w))"
proof (cases "open_socket client None 0 w")
  case (Pair r w1)
  show ?thesis
  proof (cases r)
    case (Inl e)
    with open_socket_calls [OF Pair] Pair show ?thesis
      by (simp add: call_service_def with_socket_def eff_simps)
  next
    case (Inr c)
    let ?f = "\<lambda>response. if \<not> succeeded 200 response then throw (RuntimeError ''HA_SERVICE_CALL_FAILED'')
          else ret [(''request_id'', PStr (py_str (dget response ''id''))),
                    (''result'', dget response ''result'')]"
    obtain q c' where q: "seq (ws_send (call_frame s)) (\<lambda>_. seq (receive_non_ping None) ?f) c = (q, c')"
      by (cases "seq (ws_send (call_frame s)) (\<lambda>_. seq (receive_non_ping None) ?f) c")
    have "sent_calls c' = [call_frame s] \<or> sent_calls c' = [] \<and> isl q"
      using call_body_calls [OF q] open_socket_calls [OF Pair] Inr by (simp add: calls.framed_basic)
    then show ?thesis
      using open_socket_calls [OF Pair]
      by (simp add: call_service_def with_socket_def seq_def [of "open_socket _ _ _"] Pair Inr q)
        (auto simp: sent_calls_def)
  qed
qed

text \<open>
  \<open>call_service\<close> sends Home Assistant the one call it was asked for, or none if it fails
  before it can, and certainly has sent it when it returns normally; reading states, taking a
  snapshot and listening to events never send a call.
\<close>

theorem only_the_requested_call_is_sent:
  "(calls_sent (snd (call_service client s w)) = calls_sent w @ [call_frame s] \<or>
    calls_sent (snd (call_service client s w)) = calls_sent w \<and> isl (fst (call_service client s w))) \<and>
   calls_sent (snd (read_entity_state client entity w)) = calls_sent w \<and>
   calls_sent (snd (collect_snapshot client start now wall w)) = calls_sent w \<and>
   calls_sent (snd (snd (subscribe_state_events client w))) = calls_sent w"
  by (simp add: call_service_calls)

lemma with_socket_attempts: "hw_attempts (snd (with_socket client deadline now body w)) = Suc (hw_attempts w)"
  by (auto simp: with_socket_def open_socket_def seq_def Let_def split: sum.split prod.split)

section \<open>Calls that switch a light\<close>

text \<open>Switching one light on or off, nothing else\<close>

definition light_call :: "string \<Rightarrow> string \<Rightarrow> service_call" where
  "light_call service entity = \<lparr>sc_domain = ''light'', sc_service = service, sc_entity_id = entity,
     sc_data = [(''entity_id'', PStr entity)]\<rparr>"

definition light_frame :: "frame \<Rightarrow> bool" where
  "light_frame f \<longleftrightarrow> (\<exists>service entity. service \<in> {''turn_on'', ''turn_off''} \<and> prefix ''light.'' entity \<and>
     f = call_frame (light_call service entity))"

definition lights_sent :: "ha_world \<Rightarrow> ha_world \<Rightarrow> bool" where
  "lights_sent w w' \<longleftrightarrow> (\<exists>fs. calls_sent w' = calls_sent w @ fs \<and> list_all light_frame fs)"

lemma lights_sent_refl: "calls_sent w' = calls_sent w \<Longrightarrow> lights_sent w w'"
  by (simp add: lights_sent_def)

lemma lights_sent_trans: "lights_sent w w1 \<Longrightarrow> lights_sent w1 w2 \<Longrightarrow> lights_sent w w2"
  unfolding lights_sent_def by (metis append_assoc list_all_append)

lemma call_service_light:
  assumes "service \<in> {''turn_on'', ''turn_off''}" "prefix ''light.'' entity"
  shows "lights_sent w (snd (call_service client (light_call service entity) w))"
proof -
  let ?call = "light_call service entity"
  have "list_all light_frame [call_frame ?call]"
    using assms unfolding light_frame_def by auto
  moreover have "calls_sent (snd (call_service client ?call w)) = calls_sent w \<or>
      calls_sent (snd (call_service client ?call w)) = calls_sent w @ [call_frame ?call]"
    using call_service_calls [of client ?call w] by auto
  ultimately show ?thesis
    unfolding lights_sent_def by (metis append_Nil2 list.pred_inject(1))
qed

lemma str_or_empty_light:
  "starts_with (str_or_empty v) ''light.'' \<Longrightarrow> py_str v = str_or_empty v \<and> prefix ''light.'' (py_str v)"
  by (auto simp: starts_with_def str_or_empty_def py_or_def split: if_splits)

section \<open>Reading\<close>

text \<open>The first message that is no ping, if nothing goes wrong before it\<close>

fun first_message :: "(span \<times> frame res) list \<Rightarrow> frame option" where
  "first_message [] = None"
| "first_message ((t, Inl e) # script) = None"
| "first_message ((t, Inr m) # script) = (if is_ping m then first_message script else Some m)"

lemma first_message_reads:
  "list_all (\<lambda>(t, p). is_ping p) pings \<Longrightarrow> \<not> is_ping m \<Longrightarrow>
     first_message (map (\<lambda>(t, p). (t, Inr p)) pings @ (t, Inr m) # rest) = Some m"
  by (induction pings) auto

lemma receive_first: "receive_loop deadline script c = (Inr m, c') \<Longrightarrow> first_message script = Some m"
  using receive_loop_reads [of deadline script c m c'] first_message_reads
  by (fastforce simp: list_all_iff)

text \<open>
  Reading from Home Assistant returns its first message that is not a ping, having answered
  every ping before it with a pong of the same id, in order, and nothing else; under a deadline no
  part of this is read at or after it.
\<close>

theorem reading_answers_every_ping:
  assumes "receive_non_ping deadline c = (Inr m, c')"
  shows "\<exists>pings t. ws_script c = map (\<lambda>(t, p). (t, Inr p)) pings @ (t, Inr m) # ws_script c' \<and>
    list_all (\<lambda>(t, p). is_ping p \<and> in_time deadline t) pings \<and> \<not> is_ping m \<and> in_time deadline t \<and>
    ws_sent c' = ws_sent c @ map (\<lambda>(t, p). [(''id'', dget p ''id''), (''type'', PStr ''pong'')]) pings"
  using receive_loop_reads [OF assms [unfolded receive_non_ping_def]] by (auto simp: pong_def)

text \<open>
  The access token leaves only for a peer that asked for it: a connection on which an
  \<open>auth\<close> message was sent during \<open>_open\<close> is one whose first message was \<open>auth_required\<close>.
\<close>

theorem token_only_when_asked_for:
  assumes "handshake client deadline c = (r, c')" and "\<not> list_ex is_auth (ws_sent c)"
    and "list_ex is_auth (ws_sent c')"
  shows "\<exists>m. first_message (ws_script c) = Some m \<and> dget m ''type'' = PStr ''auth_required''"
proof (cases "receive_non_ping deadline c")
  case (Pair q c1)
  have no_auth: "\<not> list_ex is_auth (ws_sent c1)"
    using Pair assms(2) receive_loop_sends [of deadline "ws_script c" c q c1]
    by (auto simp: receive_non_ping_def list_ex_iff)
  show ?thesis
  proof (cases q)
    case (Inl e)
    with assms(1,3) Pair no_auth show ?thesis by (simp add: handshake_def seq_def)
  next
    case (Inr m)
    with Pair have first: "first_message (ws_script c) = Some m"
      by (simp add: receive_non_ping_def receive_first)
    show ?thesis
    proof (cases "dget m ''type'' = PStr ''auth_required''")
      case False
      with assms(1,3) Pair Inr no_auth show ?thesis
        by (simp add: handshake_def seq_def modify_def throw_def) (metis ws_close_simps(1))
    qed (use first in blast)
  qed
qed

text \<open>Every read of a connection began in time.\<close>

definition read_in_time :: "time option \<Rightarrow> ws \<Rightarrow> ws \<Rightarrow> bool" where
  "read_in_time deadline c c' \<longleftrightarrow>
     (\<exists>used. ws_script c = used @ ws_script c' \<and> list_all (\<lambda>(t, _). in_time deadline t) used)"

interpretation timely: frame_condition "read_in_time deadline"
proof unfold_locales
  fix c d e
  show "read_in_time deadline c c" by (simp add: read_in_time_def)
  assume "read_in_time deadline c d" "read_in_time deadline d e"
  then obtain us vs where
    "ws_script c = us @ ws_script d" "list_all (\<lambda>(t, _). in_time deadline t) us"
    "ws_script d = vs @ ws_script e" "list_all (\<lambda>(t, _). in_time deadline t) vs"
    unfolding read_in_time_def by blast
  then show "read_in_time deadline c e"
    unfolding read_in_time_def by (intro exI [of _ "us @ vs"]) simp
qed

lemma receive_loop_timely:
  "receive_loop deadline script c = (r, c') \<Longrightarrow>
     \<exists>used. script = used @ ws_script c' \<and> list_all (\<lambda>(t, _). in_time deadline t) used"
proof (induction deadline script c arbitrary: c' rule: receive_loop.induct)
  case (2 deadline t r' script c)
  show ?case
  proof (cases "in_time deadline t")
    case False
    with "2.prems" show ?thesis
      by (auto simp: in_time_def intro!: exI [of _ "[]"] split: option.splits)
  next
    case True
    then have not_due: "\<not> (case deadline of None \<Rightarrow> False | Some d \<Rightarrow> d \<le> fst t)"
      by (auto simp: in_time_def split: option.splits)
    show ?thesis
    proof (cases "\<exists>p c1. r' = Inr p \<and> is_ping p \<and> ws_send (pong p) c = (Inr (), c1)")
      case ping: True
      then obtain p c1 where p: "r' = Inr p" "is_ping p" "ws_send (pong p) c = (Inr (), c1)" by blast
      with "2.prems" not_due have "receive_loop deadline script c1 = (r, c')" by simp
      from "2.IH" [OF not_due p(1,2) p(3) [symmetric] refl this] obtain used where
        "script = used @ ws_script c'" "list_all (\<lambda>(t, _). in_time deadline t) used" by blast
      then show ?thesis using True by (intro exI [of _ "(t, r') # used"]) simp
    next
      case False
      with "2.prems" not_due have "ws_script c' = script"
        by (auto split: sum.splits if_splits prod.splits)
      then show ?thesis using True by (intro exI [of _ "[(t, r')]"]) simp
    qed
  qed
qed simp

lemma timely_intros:
  "framed (read_in_time deadline) (receive_non_ping deadline)"
  "framed (read_in_time deadline) (ws_send m)"
  "framed (read_in_time deadline) (modify ws_close)"
proof -
  show "framed (read_in_time deadline) (receive_non_ping deadline)"
    unfolding framed_def receive_non_ping_def read_in_time_def
    using receive_loop_timely by (metis prod.collapse)
qed (simp_all add: framed_def read_in_time_def ws_send_def modify_def)

lemmas timely_rules = timely.framed_seq timely.framed_basic timely.framed_if timely_intros

lemma timely_handshake: "framed (read_in_time deadline) (handshake client deadline)"
  unfolding handshake_def by (intro timely_rules)

lemma timely_command: "framed (read_in_time deadline) (command n ct deadline)"
  unfolding command_def by (intro timely_rules)

text \<open>
  The clock does not run backwards while a connection is read; and a connection is prompt when no
  \<open>recv\<close> keeps its caller longer than the timeout, as one does not whose message comes in one
  piece: the timeout is that of a single read of the socket.
\<close>

definition well_timed :: "(span \<times> frame res) list \<Rightarrow> bool" where
  "well_timed script \<longleftrightarrow> sorted_wrt (\<lambda>(s, _) (t, _). snd s \<le> fst t) script"

definition prompt :: "time \<Rightarrow> (span \<times> frame res) list \<Rightarrow> bool" where
  "prompt timeout script \<longleftrightarrow> list_all (\<lambda>(t, _). snd t \<le> fst t + timeout) script"

text \<open>
  C33: reading a snapshot ends soon after its deadline: whatever the peer sends, pings without end
  included, no \<open>recv\<close> begins once \<open>snapshot_deadline_seconds\<close> have passed since the start, and all of
  them but the last have returned by then. The last, which may be waiting when the deadline comes,
  ends, if the peer is prompt, before the same time has passed once more (or one second, for a
  deadline shorter than that), because the connection's timeout is cut down to the time that was
  left when it was opened.
\<close>

theorem snapshot_reads_stop_at_deadline:
  assumes "hw_peer w (hw_attempts w) (connect_timeout (Some (start + hc_snapshot_deadline client)) now) =
    Inr (script, limit)"
    and "well_timed script" "start \<le> now"
  shows "\<exists>c used. hw_conns (snd (collect_snapshot client start now wall w)) = hw_conns w @ [c] \<and>
    script = used @ ws_script c \<and>
    list_all (\<lambda>((began, _), _). began < start + hc_snapshot_deadline client) used \<and>
    list_all (\<lambda>((_, ended), _). ended < start + hc_snapshot_deadline client) (butlast used) \<and>
    (prompt (connect_timeout (Some (start + hc_snapshot_deadline client)) now) script \<longrightarrow>
     list_all (\<lambda>((_, ended), _). ended < start + hc_snapshot_deadline client +
       max 1000000 (hc_snapshot_deadline client)) used)"
proof -
  let ?d = "Some (start + hc_snapshot_deadline client)"
  let ?c0 = "\<lparr>ws_script = script, ws_send_limit = limit, ws_sent = [], ws_closed = False\<rparr>"
  have timely: "\<exists>c. hw_conns (snd (with_socket client ?d now body w)) = hw_conns w @ [c] \<and>
      read_in_time ?d ?c0 c" if "framed (read_in_time ?d) body" for body :: "(ws, ha_snapshot) eff"
  proof (cases "handshake client ?d ?c0")
    case (Pair r c1)
    have open_t: "read_in_time ?d ?c0 c1" by (rule framedD [OF timely_handshake Pair])
    show ?thesis
    proof (cases r)
      case (Inl e)
      with Pair open_t assms show ?thesis
        by (simp add: with_socket_def open_socket_def seq_def Let_def)
    next
      case (Inr u)
      obtain q c2 where q: "body c1 = (q, c2)" by (cases "body c1")
      have "read_in_time ?d ?c0 (ws_close c2)"
        using timely.trans [OF open_t framedD [OF that q]] by (simp add: read_in_time_def)
      with Pair Inr q assms show ?thesis
        by (simp add: with_socket_def open_socket_def seq_def Let_def)
    qed
  qed
  have "\<exists>c. hw_conns (snd (collect_snapshot client start now wall w)) = hw_conns w @ [c] \<and>
      read_in_time ?d ?c0 c"
    unfolding collect_snapshot_def Let_def
    by (rule timely) (intro timely_rules timely_command)
  then obtain c used where c: "hw_conns (snd (collect_snapshot client start now wall w)) = hw_conns w @ [c]"
    "script = used @ ws_script c" and "list_all (\<lambda>(t, _). in_time ?d t) used"
    by (auto simp: read_in_time_def)
  then have began: "fst t < start + hc_snapshot_deadline client" if "(t, r) \<in> set used" for t r
    using that by (auto simp: in_time_def list_all_iff)
  have timed: "sorted_wrt (\<lambda>(s, _) (t, _). snd s \<le> fst t) used"
    "\<And>t r. prompt (connect_timeout ?d now) script \<Longrightarrow> (t, r) \<in> set used \<Longrightarrow>
      snd t \<le> fst t + connect_timeout ?d now"
    using assms(2) c(2) by (fastforce simp: well_timed_def prompt_def list_all_iff sorted_wrt_append)+
  have "snd t < start + hc_snapshot_deadline client" if t: "(t, r) \<in> set (butlast used)" for t r
  proof -
    have used: "used = butlast used @ [last used]" using t by (cases used) auto
    obtain u q where u: "last used = (u, q)" by (cases "last used")
    have "sorted_wrt (\<lambda>(s, _) (t, _). snd s \<le> fst t) (butlast used @ [(u, q)])"
      using timed(1) used u by metis
    then have "snd t \<le> fst u" using t by (auto simp: sorted_wrt_append)
    moreover have "(u, q) \<in> set used" using used u by (metis in_set_conv_decomp)
    ultimately show ?thesis using began by fastforce
  qed
  moreover have "snd t < start + hc_snapshot_deadline client + max 1000000 (hc_snapshot_deadline client)"
    if "prompt (connect_timeout ?d now) script" "(t, r) \<in> set used" for t r
    using timed(2) [OF that] began [OF that(2)] assms(3) by (simp add: connect_timeout_def)
  ultimately show ?thesis using c began by (intro exI [of _ c] exI [of _ used]) (auto simp: list_all_iff)
qed

section \<open>Sockets\<close>

text \<open>
  A socket that was opened is closed: once \<open>_open\<close> has handed it over, it is closed when
  the method ends, normally or by an exception.
\<close>

theorem opened_socket_is_closed:
  assumes "open_socket client deadline now w = (Inr c, w1)"
  shows "\<exists>c'. hw_conns (snd (with_socket client deadline now body w)) = hw_conns w @ [c'] \<and> ws_closed c'"
proof -
  have "hw_conns w1 = hw_conns w"
    using assms by (auto simp: open_socket_def Let_def split: sum.splits prod.splits)
  then show ?thesis
    using assms by (simp add: with_socket_def seq_def split: prod.split)
qed

text \<open>
  A socket whose handshake breaks off leaks: when the peer's first message fails to arrive,
  \<open>call_service\<close> raises and leaves the socket it created open for good.
\<close>

theorem broken_handshake_leaks_the_socket:
  assumes "hw_peer w (hw_attempts w) 30000000 = Inr ((t, Inl e) # script, limit)"
  shows "\<exists>c. fst (call_service client s w) = Inl e \<and>
    hw_conns (snd (call_service client s w)) = hw_conns w @ [c] \<and> \<not> ws_closed c"
  using assms
  by (simp add: call_service_def with_socket_def open_socket_def connect_timeout_def seq_def
      handshake_def receive_non_ping_def Let_def)

section \<open>Concrete connections\<close>

definition sample_client :: ha_client where
  "sample_client = ha_client_init ''token'' None"

definition sample_call :: service_call where
  "sample_call = \<lparr>sc_domain = ''light'', sc_service = ''turn_on'', sc_entity_id = ''light.porch'',
     sc_data = [(''entity_id'', PStr ''light.porch'')]\<rparr>"

definition frame_of_type :: "string \<Rightarrow> frame" where
  "frame_of_type t = [(''type'', PStr t)]"

text \<open>A peer that pings once, lets the client in and confirms its first request\<close>

definition sample_script :: "int \<Rightarrow> (span \<times> frame res) list" where
  "sample_script n =
     [((1, 1), Inr [(''id'', PInt 7), (''type'', PStr ''ping'')]), ((2, 2), Inr (frame_of_type ''auth_required'')),
      ((3, 3), Inr (frame_of_type ''auth_ok'')),
      ((4, 4), Inr [(''id'', PInt n), (''success'', PBool True), (''result'', PList [])])]"

definition fresh_conn :: "(span \<times> frame res) list \<Rightarrow> ws" where
  "fresh_conn script = \<lparr>ws_script = script, ws_send_limit = None, ws_sent = [], ws_closed = False\<rparr>"

definition sample_world :: "(span \<times> frame res) list \<Rightarrow> ha_world" where
  "sample_world script = \<lparr>hw_peer = (\<lambda>n timeout. Inr (script, None)), hw_attempts = 0, hw_conns = []\<rparr>"

lemmas sample_defs = sample_script_def fresh_conn_def frame_of_type_def receive_non_ping_def
  is_ping_def pong_def ws_send_def eff_simps

theorem reading_answers_every_ping_witness:
  "\<exists>pings t. sample_script 200 = map (\<lambda>(t, p). (t, Inr p)) pings @
     (t, Inr (frame_of_type ''auth_required'')) # drop 2 (sample_script 200)"
  using reading_answers_every_ping [of None "fresh_conn (sample_script 200)"
      "frame_of_type ''auth_required''"
      "(fresh_conn (drop 2 (sample_script 200)))\<lparr>ws_sent := [pong [(''id'', PInt 7), (''type'', PStr ''ping'')]]\<rparr>"]
  by (simp add: sample_defs) metis

theorem token_only_when_asked_for_witness:
  "\<exists>m. first_message (ws_script (fresh_conn (sample_script 200))) = Some m \<and>
     dget m ''type'' = PStr ''auth_required''"
proof (rule token_only_when_asked_for [OF prod.collapse [symmetric]])
  show "list_ex is_auth (ws_sent (snd (handshake sample_client None (fresh_conn (sample_script 200)))))"
    by (simp add: handshake_def sample_defs is_auth_def auth_frame_def)
qed (simp add: fresh_conn_def)

text \<open>A peer that pings until the deadline and is silent then: the last read waits past it.\<close>

definition late_script :: "(span \<times> frame res) list" where
  "late_script = [((0, 1), Inr (frame_of_type ''auth_required'')), ((2, 3), Inr (frame_of_type ''auth_ok'')),
     ((4, 19999998), Inr [(''id'', PInt 7), (''type'', PStr ''ping'')]),
     ((19999999, 39999999), Inl (TimeoutError ''timed out''))]"

theorem snapshot_reads_stop_at_deadline_witness:
  "\<exists>c used. hw_conns (snd (collect_snapshot sample_client 0 0 9 (sample_world late_script))) = [c] \<and>
     late_script = used @ ws_script c \<and> list_all (\<lambda>((_, ended), _). ended < 40000000) used"
proof -
  have "prompt (connect_timeout (Some (0 + hc_snapshot_deadline sample_client)) 0) late_script"
    "well_timed late_script"
    by (simp_all add: well_timed_def prompt_def late_script_def connect_timeout_def sample_client_def
        ha_client_init_def DEFAULT_SNAPSHOT_DEADLINE_def)
  moreover have "hw_peer (sample_world late_script) n t = Inr (late_script, None)"
    "hw_conns (sample_world late_script) = []" "hc_snapshot_deadline sample_client = 20000000" for n t
    by (simp_all add: sample_world_def sample_client_def ha_client_init_def DEFAULT_SNAPSHOT_DEADLINE_def)
  ultimately show ?thesis
    using snapshot_reads_stop_at_deadline [of "sample_world late_script" 0 sample_client 0 late_script None 9]
    by auto
qed

lemma sample_opens: "\<exists>c. open_socket sample_client None 0 (sample_world (sample_script 200)) =
    (Inr c, (sample_world (sample_script 200))\<lparr>hw_attempts := 1\<rparr>)"
  by (simp add: open_socket_def sample_world_def handshake_def sample_defs Let_def)

theorem opened_socket_is_closed_witness:
  "\<exists>c'. hw_conns (snd (with_socket sample_client None 0 (throw (OtherError ''x''))
     (sample_world (sample_script 200)))) = [c'] \<and> ws_closed c'"
  using sample_opens opened_socket_is_closed [of sample_client None 0 "sample_world (sample_script 200)"]
  by (fastforce simp: sample_world_def)

theorem broken_handshake_leaks_the_socket_witness:
  "\<exists>c. hw_conns (snd (call_service sample_client sample_call
      (sample_world [((0, 0), Inl (TransportError ''reset''))]))) = [c] \<and> \<not> ws_closed c"
  using broken_handshake_leaks_the_socket [of "sample_world [((0, 0), Inl (TransportError ''reset''))]" "(0, 0)"
      "TransportError ''reset''" "[]" None sample_client sample_call]
  by (simp add: sample_world_def)

end
