(* ===== verification/Rule_Runtime.thy ===== *)
theory Rule_Runtime
  imports Rule_Store Rule_Condition Event_Identity Ha_Client
begin

text \<open>
  The rest of \<open>rule_runtime.py\<close>: a state event is matched against the active packages, each
  matching rule is evaluated, its execution reserved under an idempotency key, its actions carried
  out through Home Assistant, and the evidence finalised. The state is the rule file and the
  connections to Home Assistant; the n-th reading of \<open>datetime.now\<close> is \<open>re_clock n\<close>.
  \<open>re_float\<close> is \<open>float\<close> on a text: its value with the text \<open>repr\<close> gives for it.
\<close>

section \<open>State and environment\<close>

record rule_env =
  re_crypto :: package_crypto
  re_client :: ha_client
  re_instance :: string
  re_trusted :: "string set"
  re_float :: "string \<Rightarrow> (fval \<times> string) option"
  re_clock :: "nat \<Rightarrow> time"

record rule_runtime =
  rt_store :: rule_store
  rt_world :: ha_world
  rt_tick :: nat

definition clock_now :: "rule_env \<Rightarrow> (rule_runtime, time) eff" where
  "clock_now env s = (Inr (re_clock env (rt_tick s)), s\<lparr>rt_tick := Suc (rt_tick s)\<rparr>)"

definition on_store :: "(rule_store, 'a) eff \<Rightarrow> (rule_runtime, 'a) eff" where
  "on_store m s = (case m (rt_store s) of (r, st) \<Rightarrow> (r, s\<lparr>rt_store := st\<rparr>))"

definition on_world :: "(ha_world, 'a) eff \<Rightarrow> (rule_runtime, 'a) eff" where
  "on_world m s = (case m (rt_world s) of (r, w) \<Rightarrow> (r, s\<lparr>rt_world := w\<rparr>))"

section \<open>Helpers\<close>

definition stable_id :: "rule_env \<Rightarrow> string \<Rightarrow> string \<Rightarrow> string" where
  "stable_id env p v = p @ ''_'' @ take 24 (pc_sha (re_crypto env) v)"

definition failed_action :: "string \<Rightarrow> nat \<Rightarrow> string \<Rightarrow> pyval" where
  "failed_action action_result_id index reason =
     PDict [(''action_result_id'', PStr action_result_id), (''action_index'', PInt (int index)),
       (''action_type'', PStr ''device_command''), (''status'', PStr ''failed''),
       (''reason_code'', PStr reason), (''evidence'', PDict [])]"

definition validate_action :: "pydict \<Rightarrow> unit res" where
  "validate_action action =
     (let expected_service = (if dget action ''value'' = PBool True then ''turn_on'' else ''turn_off'') in
      if dget action ''action_type'' \<noteq> PStr ''device_command'' \<or>
         dget action ''canonical_capability'' \<noteq> PStr ''light.power'' \<or>
         dget action ''template_code'' \<noteq> PStr ''set_light_power'' \<or>
         dget action ''provider_domain'' \<noteq> PStr ''light'' \<or>
         dget action ''provider_service'' \<noteq> PStr expected_service \<or>
         \<not> starts_with (str_or_empty (dget action ''provider_entity_id'')) ''light.''
      then Inl (RuntimeError ''LOCAL_RULE_ACTION_NOT_ALLOWLISTED'')
      else rbind (dict_or_empty (dget action ''command_safety_evidence'')) (\<lambda>safety.
        if \<not> truthy (dget safety ''reviewed'') \<or>
           dget safety ''risk_class'' \<noteq> PStr ''non_destructive''
        then Inl (RuntimeError ''LOCAL_RULE_ACTION_NOT_REVIEWED'')
        else Inr ()))"

definition canonical_state_value :: "rule_env \<Rightarrow> pyval \<Rightarrow> pyval" where
  "canonical_state_value env v =
     (let normalized = strip (str_or_empty v) in
      if normalized = ''on'' then PBool True
      else if normalized = ''off'' then PBool False
      else case re_float env normalized of Some (x, t) \<Rightarrow> PFloat x t | None \<Rightarrow> PStr normalized)"

definition event_identity :: "rule_env \<Rightarrow> pydict \<Rightarrow> (rule_runtime, string \<times> time \<times> pydict) eff" where
  "event_identity env event =
     seq (lift_res (dict_or_empty (dget event ''data''))) (\<lambda>data.
     seq (lift_res (dict_or_empty (dget data ''new_state''))) (\<lambda>new_state.
       if str_or_empty (dget new_state ''entity_id'') = []
       then throw (RuntimeError ''HA_STATE_EVENT_MISSING_NEW_STATE'')
       else
         seq (let stamp = py_or (dget event ''time_fired'') (dget new_state ''last_updated'')
              in if truthy stamp then lift_res (parse_time (pc_fromiso (re_crypto env)) stamp)
                 else clock_now env) (\<lambda>event_time.
         seq (lift_res (build_source_event_id (pc_sha (re_crypto env)) event new_state)) (\<lambda>source_event_id.
           ret (source_event_id, event_time, new_state)))))"

section \<open>Actions\<close>

definition service_call_of :: "pydict \<Rightarrow> service_call res" where
  "service_call_of action =
     rbind (dindex action ''provider_service'') (\<lambda>service.
     rbind (dindex action ''provider_entity_id'') (\<lambda>entity.
       Inr \<lparr>sc_domain = ''light'', sc_service = py_str service, sc_entity_id = py_str entity,
            sc_data = [(''entity_id'', PStr (py_str entity))]\<rparr>))"

definition action_failure :: "exn \<Rightarrow> string" where
  "action_failure e =
     (case e of TimeoutError _ \<Rightarrow> ''ha_service_timeout'' | _ \<Rightarrow> ''ha_service_call_failed'')"

text \<open>One iteration: \<open>dict(raw_action)\<close> stands outside the \<open>try\<close>.\<close>

definition dispatch_action :: "rule_env \<Rightarrow> string \<Rightarrow> nat \<Rightarrow> pyval \<Rightarrow> (rule_runtime, pyval) eff" where
  "dispatch_action env execution_id index raw_action =
     seq (lift_res (py_dict raw_action)) (\<lambda>action.
       let rid = stable_id env ''lract'' (execution_id @ '':'' @ nat_digits index) in
       catch
         (seq (lift_res (validate_action action)) (\<lambda>_.
          seq (lift_res (service_call_of action)) (\<lambda>call.
          seq (on_world (call_service (re_client env) call)) (\<lambda>response.
            ret (PDict [(''action_result_id'', PStr rid), (''action_index'', PInt (int index)),
              (''action_type'', PStr ''device_command''), (''status'', PStr ''succeeded''),
              (''reason_code'', PNone),
              (''evidence'', PDict [(''provider_request_id'', PStr (str_or_empty (dget response ''request_id''))),
                 (''provider_result'', PStr ''success'')])])))))
         (\<lambda>e. ret (failed_action rid index (action_failure e))))"

fun dispatch_loop :: "rule_env \<Rightarrow> string \<Rightarrow> nat \<Rightarrow> pyval list \<Rightarrow> (rule_runtime, pyval list) eff" where
  "dispatch_loop env execution_id index [] = ret []"
| "dispatch_loop env execution_id index (a # as) =
     seq (dispatch_action env execution_id index a) (\<lambda>r.
     seq (dispatch_loop env execution_id (Suc index) as) (\<lambda>rs. ret (r # rs)))"

definition dispatch_actions :: "rule_env \<Rightarrow> verified_package \<Rightarrow> string \<Rightarrow> (rule_runtime, pyval list) eff" where
  "dispatch_actions env p execution_id =
     seq (lift_res (rbind (dindex (package_payload p) ''runtime_plan'') (\<lambda>plan.
                    rbind (vindex plan ''actions'') py_iter)))
       (dispatch_loop env execution_id 0)"

section \<open>One rule\<close>

definition package_binding :: "verified_package \<Rightarrow> pydict res" where
  "package_binding p =
     rbind (dindex (package_payload p) ''runtime_plan'') (\<lambda>plan.
     rbind (vindex plan ''event_binding'') py_dict)"

definition rule_context :: "rule_env \<Rightarrow> pydict \<Rightarrow> time \<Rightarrow> pyval \<Rightarrow> pyval \<Rightarrow> time \<Rightarrow> pydict" where
  "rule_context env new_state event_time entity target now =
     [(''event'', PDict [(''entity_id'', PStr (py_str entity)),
         (''value'', canonical_state_value env (dget new_state ''state'')),
         (''observed_at'', PStr (isoformat event_time))]),
      (''latest_state'', PDict [(''value'', canonical_state_value env (dget new_state ''state'')),
         (''observed_at'', PStr (isoformat event_time))]),
      (''device'', PDict [(''device_id'', target)]),
      (''space'', PDict []),
      (''time'', PDict [(''evaluated_at'', PStr (isoformat now))])]"

text \<open>\<open>result\<close> and \<open>trace\<close>: only the language's own errors are caught.\<close>

definition rule_verdict :: "pyval \<Rightarrow> pydict \<Rightarrow> (string \<times> pyval) res" where
  "rule_verdict rule context =
     (case rule of
        PDict d \<Rightarrow>
          (case rbind (dict_or_empty (dget d ''condition'')) (\<lambda>c. evaluate_condition c context) of
             Inr (matched, trace) \<Rightarrow> Inr (if matched then ''hit'' else ''skipped'', trace)
           | Inl (LocalRuleEvaluationError reason m) \<Rightarrow>
               Inr (''error'', PDict [(''error_reason'', PStr reason), (''error_message'', PStr m)])
           | Inl e \<Rightarrow> Inl e)
      | _ \<Rightarrow> Inl (AttributeError ''get''))"

definition idempotency_key :: "pydict \<Rightarrow> string \<Rightarrow> string res" where
  "idempotency_key pl source_event_id =
     rbind (dindex pl ''deployment_id'') (\<lambda>deployment.
     rbind (dindex pl ''version_id'') (\<lambda>version.
       Inr (py_str deployment @ '':'' @ py_str version @ '':'' @ source_event_id)))"

definition base_evidence ::
    "rule_env \<Rightarrow> verified_package \<Rightarrow> string \<Rightarrow> string \<Rightarrow> pyval \<Rightarrow> pyval \<Rightarrow> int \<Rightarrow> pyval \<Rightarrow>
     string \<Rightarrow> pyval \<Rightarrow> time \<Rightarrow> string \<Rightarrow> pydict" where
  "base_evidence env p key source_event_id deployment version version_no target result trace now connectivity =
     [(''execution_id'', PStr (stable_id env ''lrex'' key)), (''package_id'', PStr (package_id p)),
      (''package_hash'', PStr (package_hash p)), (''deployment_id'', PStr (py_str deployment)),
      (''rule_id'', PStr (py_str (dget (package_payload p) ''rule_id''))),
      (''version_id'', PStr (py_str version)), (''version_no'', PInt version_no),
      (''source_event_id'', PStr source_event_id), (''target_id'', PStr (py_str target)),
      (''idempotency_key'', PStr key), (''result'', PStr result), (''condition_trace'', trace),
      (''action_results'', PList []), (''executed_at'', PStr (isoformat now)),
      (''trace_id'', PStr (stable_id env ''hatrace'' key)),
      (''connectivity_state'', PStr connectivity)]"

text \<open>\<open>_execute\<close> up to the evidence it reserves: the key, the verdict and \<open>base\<close>\<close>

definition prepare_execution ::
    "rule_env \<Rightarrow> verified_package \<Rightarrow> string \<Rightarrow> time \<Rightarrow> pydict \<Rightarrow> string \<Rightarrow>
     (rule_runtime, string \<times> string \<times> pydict) eff" where
  "prepare_execution env p source_event_id event_time new_state connectivity =
     (let pl = package_payload p in
      seq (lift_res (idempotency_key pl source_event_id)) (\<lambda>key.
      seq (lift_res (package_binding p)) (\<lambda>binding.
      seq (lift_res (dindex new_state ''entity_id'')) (\<lambda>entity.
      seq (lift_res (dindex binding ''target_id'')) (\<lambda>target.
      seq (clock_now env) (\<lambda>evaluated_at.
      seq (lift_res (dindex pl ''rule'')) (\<lambda>rule.
      seq (lift_res (rule_verdict rule (rule_context env new_state event_time entity target evaluated_at)))
        (\<lambda>verdict.
      seq (lift_res (dindex pl ''rule_id'')) (\<lambda>_.
      seq (lift_res (rbind (dindex pl ''version_no'') py_int)) (\<lambda>version_no.
      seq (clock_now env) (\<lambda>executed_at.
        ret (key, fst verdict,
             base_evidence env p key source_event_id (dget pl ''deployment_id'') (dget pl ''version_id'')
               version_no target (fst verdict) (snd verdict) executed_at connectivity))))))))))))"

text \<open>The rest: reserve, dispatch if it is a hit, finalise.\<close>

definition reserve_now :: "rule_env \<Rightarrow> string \<Rightarrow> pydict \<Rightarrow> (rule_runtime, pydict \<times> bool) eff" where
  "reserve_now env key base =
     seq (clock_now env) (\<lambda>now. seq (clock_now env) (\<lambda>later.
       on_store (reserve_execution now later key (stable_id env ''lrex'' key) base)))"

definition finalize_now :: "rule_env \<Rightarrow> pydict \<Rightarrow> (rule_runtime, unit) eff" where
  "finalize_now env final =
     seq (clock_now env) (\<lambda>now. seq (clock_now env) (\<lambda>later.
       on_store (finalize_execution now later final)))"

definition act_on_verdict ::
    "rule_env \<Rightarrow> verified_package \<Rightarrow> string \<Rightarrow> string \<Rightarrow> pydict \<Rightarrow> (rule_runtime, pydict) eff" where
  "act_on_verdict env p key result base =
     (if result = ''hit''
      then seq (dispatch_actions env p (stable_id env ''lrex'' key))
             (\<lambda>results. ret (dset base ''action_results'' (PList results)))
      else ret base)"

definition carry_out :: "rule_env \<Rightarrow> verified_package \<Rightarrow> string \<Rightarrow> string \<Rightarrow> pydict \<Rightarrow> (rule_runtime, pydict) eff" where
  "carry_out env p key result base =
     seq (reserve_now env key base) (\<lambda>reserved.
       if \<not> snd reserved then ret (fst reserved)
       else
         seq (act_on_verdict env p key result base) (\<lambda>final.
         seq (finalize_now env final) (\<lambda>_. ret final)))"

definition execute_rule ::
    "rule_env \<Rightarrow> verified_package \<Rightarrow> string \<Rightarrow> time \<Rightarrow> pydict \<Rightarrow> string \<Rightarrow> (rule_runtime, pydict) eff" where
  "execute_rule env p source_event_id event_time new_state connectivity =
     seq (prepare_execution env p source_event_id event_time new_state connectivity)
       (\<lambda>(key, result, base). carry_out env p key result base)"

section \<open>One event\<close>

fun process_documents ::
    "rule_env \<Rightarrow> string \<Rightarrow> time \<Rightarrow> pydict \<Rightarrow> string \<Rightarrow> pydict list \<Rightarrow> (rule_runtime, pydict list) eff" where
  "process_documents env sid event_time new_state connectivity [] = ret []"
| "process_documents env sid event_time new_state connectivity (doc # docs) =
     seq (clock_now env) (\<lambda>now.
     seq (lift_res (verify_stored_rule_package (re_crypto env) doc (re_instance env) (re_trusted env) now)) (\<lambda>p.
     seq (lift_res (package_binding p)) (\<lambda>binding.
     seq (lift_res (dindex binding ''provider_entity_id'')) (\<lambda>bound.
     seq (lift_res (dindex new_state ''entity_id'')) (\<lambda>entity.
       if \<not> py_eq bound entity then process_documents env sid event_time new_state connectivity docs
       else
         seq (execute_rule env p sid event_time new_state connectivity) (\<lambda>r.
         seq (process_documents env sid event_time new_state connectivity docs) (\<lambda>rs. ret (r # rs))))))))"

definition process_event :: "rule_env \<Rightarrow> pydict \<Rightarrow> string \<Rightarrow> (rule_runtime, pydict list) eff" where
  "process_event env event connectivity =
     seq (event_identity env event) (\<lambda>(sid, event_time, new_state).
     seq (clock_now env) (\<lambda>now.
     seq (on_store (\<lambda>st. case active_documents now st of (docs, st') \<Rightarrow> (Inr docs, st')))
       (process_documents env sid event_time new_state connectivity)))"

section \<open>What leaves for Home Assistant\<close>

definition only_lights :: "rule_runtime \<Rightarrow> rule_runtime \<Rightarrow> bool" where
  "only_lights s s' \<longleftrightarrow> lights_sent (rt_world s) (rt_world s')"

interpretation lights: frame_condition only_lights
  by unfold_locales (auto simp: only_lights_def lights_sent_refl intro: lights_sent_trans)

lemma valid_action_is_light:
  assumes "validate_action a = Inr ()" "service_call_of a = Inr call"
  shows "\<exists>service entity. service \<in> {''turn_on'', ''turn_off''} \<and> prefix ''light.'' entity \<and>
    call = light_call service entity"
proof -
  have "dget a ''provider_service'' \<in> {PStr ''turn_on'', PStr ''turn_off''}"
    "starts_with (str_or_empty (dget a ''provider_entity_id'')) ''light.''"
    using assms(1) by (auto simp: validate_action_def Let_def split: if_splits)
  then show ?thesis
    using assms(2) str_or_empty_light [of "dget a ''provider_entity_id''"]
    by (auto simp: service_call_of_def rbind_Inr_iff light_call_def dest!: dindex_dget)
qed

lemma call_service_lights:
  assumes "service \<in> {''turn_on'', ''turn_off''}" "prefix ''light.'' entity"
  shows "framed only_lights (on_world (call_service client (light_call service entity)))"
  using call_service_light [OF assms] by (simp add: framed_def only_lights_def on_world_def split: prod.split)
    (metis snd_conv)

lemma framed_lights_clock: "framed only_lights (clock_now env)"
  by (simp add: framed_def only_lights_def clock_now_def lights_sent_refl)

lemma framed_lights_store: "framed only_lights (on_store m)"
  by (simp add: framed_def only_lights_def on_store_def lights_sent_refl split: prod.split)

lemma framed_lights_action: "framed only_lights (dispatch_action env eid i a)"
proof -
  have step: "framed only_lights (seq (lift_res (validate_action d)) (\<lambda>_.
      seq (lift_res (service_call_of d)) (\<lambda>call.
      seq (on_world (call_service (re_client env) call)) k)))" if "\<And>x. framed only_lights (k x)" for d k
  proof (cases "validate_action d = Inr ()")
    case True
    show ?thesis
    proof (cases "service_call_of d")
      case (Inr call)
      with True obtain service entity where
        call: "service \<in> {''turn_on'', ''turn_off''}" "prefix ''light.'' entity" "call = light_call service entity"
        using valid_action_is_light by blast
      then have "framed only_lights (seq (on_world (call_service (re_client env) call)) k)"
        using that by (intro lights.framed_seq) (auto intro: call_service_lights)
      then show ?thesis using True Inr by (simp add: framed_def eff_simps)
    qed (use True in \<open>simp add: framed_def eff_simps lights.refl\<close>)
  next
    case False
    then obtain e where "validate_action d = Inl e" by (cases "validate_action d") auto
    then show ?thesis by (simp add: framed_def eff_simps lights.refl)
  qed
  show ?thesis
    unfolding dispatch_action_def Let_def
    by (intro lights.framed_seq lights.framed_catch lights.framed_basic step)
qed

lemma framed_lights_loop: "framed only_lights (dispatch_loop env eid i as)"
  by (induction as arbitrary: i) (auto intro!: lights.framed_seq framed_lights_action simp: lights.framed_basic)

lemmas lights_rules = lights.framed_seq lights.framed_basic lights.framed_if framed_lights_clock
  framed_lights_store framed_lights_loop

lemma framed_lights_execute: "framed only_lights (execute_rule env p sid t ns conn)"
  unfolding execute_rule_def prepare_execution_def carry_out_def act_on_verdict_def reserve_now_def finalize_now_def
    dispatch_actions_def Let_def case_prod_unfold
  by (intro lights_rules)

lemma framed_lights_documents: "framed only_lights (process_documents env sid t ns conn docs)"
  by (induction docs) (auto intro!: lights_rules framed_lights_execute)

lemma framed_lights_event: "framed only_lights (process_event env event connectivity)"
proof -
  have "framed only_lights (event_identity env event)"
    unfolding event_identity_def Let_def by (intro lights_rules)
  then show ?thesis
    unfolding process_event_def case_prod_unfold
    by (intro lights.framed_seq lights_rules framed_lights_documents)
qed

text \<open>
  Whatever the packages in the store and whatever the event, the service calls that leave
  for Home Assistant while it is processed, whether that ends normally or not, are \<open>turn_on\<close>
  and \<open>turn_off\<close> of domain \<open>light\<close> on one entity of that domain, without further data.
\<close>

theorem rules_only_switch_lights:
  "\<exists>fs. calls_sent (rt_world (snd (process_event env event connectivity s))) = calls_sent (rt_world s) @ fs \<and>
     list_all light_frame fs"
  using framed_lights_event by (simp add: framed_def only_lights_def lights_sent_def)

section \<open>At most once\<close>

text \<open>What happens around the reservation: nothing before it, and the store untouched by actions.\<close>

definition idle :: "rule_runtime \<Rightarrow> rule_runtime \<Rightarrow> bool" where
  "idle s s' \<longleftrightarrow> rt_store s' = rt_store s \<and> rt_world s' = rt_world s \<and> rt_tick s \<le> rt_tick s'"

definition keeps_store :: "rule_runtime \<Rightarrow> rule_runtime \<Rightarrow> bool" where
  "keeps_store s s' \<longleftrightarrow> rt_store s' = rt_store s \<and> rt_tick s \<le> rt_tick s'"

interpretation idle: frame_condition idle
  by unfold_locales (auto simp: idle_def)

interpretation keeps: frame_condition keeps_store
  by unfold_locales (auto simp: keeps_store_def)

lemma idle_clock: "framed idle (clock_now env)"
  by (simp add: framed_def idle_def clock_now_def)

lemma idle_prepare: "framed idle (prepare_execution env p sid t ns conn)"
  unfolding prepare_execution_def Let_def by (intro idle.framed_seq idle.framed_basic idle_clock)

lemma keeps_action: "framed keeps_store (dispatch_action env eid i a)"
  unfolding dispatch_action_def Let_def
  by (intro keeps.framed_seq keeps.framed_catch keeps.framed_basic)
    (simp add: framed_def keeps_store_def on_world_def split: prod.split)

lemma keeps_loop: "framed keeps_store (dispatch_loop env eid i as)"
  by (induction as arbitrary: i) (auto intro!: keeps.framed_seq keeps_action simp: keeps.framed_basic)

lemma keeps_act: "framed keeps_store (act_on_verdict env p key result base)"
  unfolding act_on_verdict_def dispatch_actions_def
  by (intro keeps.framed_if keeps.framed_seq keeps.framed_basic keeps_loop)

text \<open>The course of \<open>carry_out\<close>: nothing reserved, or reserved and then acting fails, or finalised\<close>

lemma carry_out_cases:
  assumes "carry_out env p key result base s = (r, s')"
  obtains (unreserved) q where "reserve_now env key base s = (q, s')" "\<not> (\<exists>ev. q = Inr (ev, True))"
  | (broken) ev e s1 where "reserve_now env key base s = (Inr (ev, True), s1)" "keeps_store s1 s'"
      "r = Inl e"
  | (finished) ev final q s1 s2 where "reserve_now env key base s = (Inr (ev, True), s1)"
      "act_on_verdict env p key result base s1 = (Inr final, s2)" "keeps_store s1 s2"
      "finalize_now env final s2 = (q, s')"
proof (cases "reserve_now env key base s")
  case (Pair q s1)
  show thesis
  proof (cases "\<exists>ev. q = Inr (ev, True)")
    case False
    then have "s' = s1"
      using assms Pair by (auto simp: carry_out_def seq_def ret_def split: sum.splits if_splits)
    with Pair have "reserve_now env key base s = (q, s')" by simp
    then show thesis using False by (rule unreserved)
  next
    case True
    then obtain ev where q: "reserve_now env key base s = (Inr (ev, True), s1)" using Pair by blast
    obtain q2 s2 where act: "act_on_verdict env p key result base s1 = (q2, s2)"
      by (cases "act_on_verdict env p key result base s1")
    have k: "keeps_store s1 s2" using keeps_act act by (rule framedD)
    show thesis
    proof (cases q2)
      case (Inl e)
      then have "(r, s') = (Inl e, s2)"
        using assms act q by (simp add: carry_out_def seq_Inr seq_Inl)
      with q k show thesis by (intro broken) simp_all
    next
      case (Inr final)
      obtain q3 s3 where fin: "finalize_now env final s2 = (q3, s3)" by (cases "finalize_now env final s2")
      have "s' = s3"
        using assms act Inr fin q
        by (cases q3) (simp_all add: carry_out_def seq_Inr seq_Inl ret_def)
      with q act k Inr fin show thesis by (intro finished) simp_all
    qed
  qed
qed

text \<open>The keys the file holds, and those whose row pruning cannot take by age\<close>

definition claimed :: "rule_runtime \<Rightarrow> string set" where
  "claimed s = ex_key ` set (rs_executions (rt_store s))"

definition live :: "rule_store \<Rightarrow> string set" where
  "live st = ex_key ` {r \<in> set (rs_executions st). ex_upload r \<noteq> Uploaded}"

lemma live_claimed: "live (rt_store s) \<subseteq> claimed s"
  by (auto simp: live_def claimed_def)

definition once_ok :: "rule_env \<Rightarrow> rule_runtime \<Rightarrow> bool" where
  "once_ok env s \<longleftrightarrow> mono (re_clock env) \<and> executions_ok (rt_store s) \<and>
     1 \<le> evidence_max_rows (rt_store s) \<and>
     (\<forall>r \<in> set (rs_executions (rt_store s)). ex_created r \<le> re_clock env (rt_tick s))"

lemma once_ok_keeps: "once_ok env s \<Longrightarrow> keeps_store s s' \<Longrightarrow> once_ok env s'"
  by (fastforce simp: once_ok_def keeps_store_def dest: monoD)

lemma once_ok_idle: "once_ok env s \<Longrightarrow> idle s s' \<Longrightarrow> once_ok env s'"
  by (rule once_ok_keeps [of env s s']) (simp_all add: idle_def keeps_store_def)

lemma two_clock_readings:
  "seq (clock_now env) (\<lambda>now. seq (clock_now env) (\<lambda>later. f now later)) s =
     f (re_clock env (rt_tick s)) (re_clock env (Suc (rt_tick s))) (s\<lparr>rt_tick := Suc (Suc (rt_tick s))\<rparr>)"
  by (simp add: seq_def clock_now_def)

lemma reserve_now_effect:
  assumes ok: "once_ok env s" and run: "reserve_now env key base s = (r, s')"
  shows "once_ok env s' \<and> rt_world s' = rt_world s \<and>
    ((\<exists>ev. r = Inr (ev, True)) \<and> key \<notin> claimed s \<and> key \<in> live (rt_store s') \<or>
     \<not> (\<exists>ev. r = Inr (ev, True)) \<and> rt_store s' = rt_store s)"
proof -
  let ?now = "re_clock env (rt_tick s)" and ?later = "re_clock env (Suc (rt_tick s))"
  let ?st = "rt_store s" and ?s2 = "s\<lparr>rt_tick := Suc (Suc (rt_tick s))\<rparr>"
  have ok2: "once_ok env ?s2"
    by (rule once_ok_idle [OF ok]) (simp add: idle_def)
  have tick: "?now \<le> re_clock env (Suc (Suc (rt_tick s)))"
    using ok by (auto simp: once_ok_def intro: monoD)
  have s': "(r, s') = (case reserve_execution ?now ?later key (stable_id env ''lrex'' key) base ?st of
      (q, st) \<Rightarrow> (q, ?s2\<lparr>rt_store := st\<rparr>))"
    using run by (simp add: reserve_now_def two_clock_readings on_store_def)
  show ?thesis
  proof (cases rule: reserve_cases [of key ?st ?now ?later "stable_id env ''lrex'' key" base])
    case created
    let ?row = "reserved_row ?now key (stable_id env ''lrex'' key) base"
    let ?st1 = "prune_evidence ?later (?st\<lparr>rs_executions := rs_executions ?st @ [?row]\<rparr>)"
    have keys: "distinct (map ex_key (rs_executions ?st @ [?row]))"
      using ok created(1) by (simp add: once_ok_def executions_ok_def reserved_row_def)
    have "?row \<in> set (rs_executions ?st1)"
      by (rule reserved_row_survives)
        (use ok keys in \<open>auto simp: once_ok_def reserved_row_def\<close>)
    then have live: "key \<in> live ?st1"
      by (force simp: live_def reserved_row_def)
    have "executions_ok ?st1"
      by (rule executions_ok_prune)
        (use ok created keys in \<open>auto simp: once_ok_def executions_ok_def reserved_row_def\<close>)
    moreover have "\<forall>x \<in> set (rs_executions ?st1). ex_created x \<le> re_clock env (Suc (Suc (rt_tick s)))"
      using prune_rows_subset [of ?later "?st\<lparr>rs_executions := rs_executions ?st @ [?row]\<rparr>"] ok2 tick
      by (auto simp: once_ok_def reserved_row_def)
    ultimately show ?thesis
      using s' created live ok by (simp add: once_ok_def claimed_def)
  qed (use s' ok2 in simp_all)
qed

lemma finalize_now_effect:
  assumes ok: "once_ok env s" and run: "finalize_now env final s = (r, s')"
  shows "once_ok env s' \<and> rt_world s' = rt_world s \<and> live (rt_store s) \<subseteq> live (rt_store s')"
proof -
  let ?now = "re_clock env (rt_tick s)" and ?later = "re_clock env (Suc (rt_tick s))"
  let ?st = "rt_store s" and ?s2 = "s\<lparr>rt_tick := Suc (Suc (rt_tick s))\<rparr>"
  have ok2: "once_ok env ?s2"
    by (rule once_ok_idle [OF ok]) (simp add: idle_def)
  have s': "(r, s') = (case finalize_execution ?now ?later final ?st of (q, st) \<Rightarrow> (q, ?s2\<lparr>rt_store := st\<rparr>))"
    using run by (simp add: finalize_now_def two_clock_readings on_store_def)
  show ?thesis
  proof (cases rule: finalize_cases [of ?now ?later final ?st])
    case (completed k)
    let ?mid = "?st\<lparr>rs_executions := finalized_rows ?now (py_str k) final (rs_executions ?st)\<rparr>"
    let ?st1 = "prune_evidence ?later ?mid"
    have exec1: "executions_ok ?st1"
      by (rule executions_ok_prune) (use ok in \<open>simp_all add: once_ok_def executions_ok_def\<close>)
    have rows: "rs_executions ?st1 = retained ?later ?mid"
      by (rule prune_keeps_retained) (use ok in \<open>auto simp: once_ok_def executions_ok_def max_def\<close>)
    have "ex_created ` set (finalized_rows ?now (py_str k) final (rs_executions ?st)) =
        ex_created ` set (rs_executions ?st)"
      by (metis finalized_rows_frame(3) list.set_map)
    then have "ex_created x \<in> ex_created ` set (rs_executions ?st)" if "x \<in> set (rs_executions ?st1)" for x
      using that unfolding rows by (auto simp: retained_def)
    then have created: "\<forall>x \<in> set (rs_executions ?st1). ex_created x \<le> re_clock env (Suc (Suc (rt_tick s)))"
      using ok2 by (fastforce simp: once_ok_def)
    have "live ?st \<subseteq> live ?st1"
    proof
      fix x
      assume "x \<in> live ?st"
      then obtain r' where "r' \<in> set (finalized_rows ?now (py_str k) final (rs_executions ?st))"
        "ex_key r' = x" "ex_upload r' \<noteq> Uploaded"
        using finalized_rows_pending [of _ "rs_executions ?st" ?now "py_str k" final]
        by (auto simp: live_def)
      then show "x \<in> live ?st1" unfolding live_def rows by (auto simp: retained_def)
    qed
    then show ?thesis
      using s' completed(3) exec1 created ok by (simp add: once_ok_def)
  qed (use s' ok2 in simp)
qed

lemma carry_out_effect:
  assumes ok: "once_ok env s" and run: "carry_out env p key result base s = (r, s')"
  shows "once_ok env s' \<and>
    (rt_world s' = rt_world s \<and> rt_store s' = rt_store s \<or> key \<notin> claimed s \<and> key \<in> claimed s')"
  using run
proof (cases rule: carry_out_cases)
  case (unreserved q)
  with reserve_now_effect [OF ok unreserved(1)] show ?thesis by simp
next
  case (broken ev e s1)
  then have "once_ok env s1" "key \<notin> claimed s" "key \<in> live (rt_store s')"
    using reserve_now_effect [OF ok broken(1)] by (simp_all add: keeps_store_def)
  with broken(2) live_claimed once_ok_keeps show ?thesis by blast
next
  case (finished ev final q s1 s2)
  then have "once_ok env s1" "key \<notin> claimed s" "key \<in> live (rt_store s2)"
    using reserve_now_effect [OF ok finished(1)] by (simp_all add: keeps_store_def)
  moreover from this(1) finished(3) have "once_ok env s2" by (rule once_ok_keeps)
  ultimately show ?thesis
    using finalize_now_effect [OF _ finished(4)] live_claimed by blast
qed

text \<open>The key of an execution, as \<open>_execute\<close> computes it\<close>

definition execution_key :: "verified_package \<Rightarrow> string \<Rightarrow> string" where
  "execution_key p sid = (case idempotency_key (package_payload p) sid of Inr key \<Rightarrow> key | Inl _ \<Rightarrow> [])"

lemma prepare_key:
  "prepare_execution env p sid t ns conn s = (Inr (key, result, base), s') \<Longrightarrow> key = execution_key p sid"
  by (auto simp: prepare_execution_def execution_key_def eff_simps clock_now_def Let_def
      split: sum.splits prod.splits)

lemma execute_rule_effect:
  assumes ok: "once_ok env s" and run: "execute_rule env p sid t ns conn s = (r, s')"
  shows "once_ok env s' \<and>
    (rt_world s' = rt_world s \<and> rt_store s' = rt_store s \<or>
     execution_key p sid \<notin> claimed s \<and> execution_key p sid \<in> claimed s')"
proof (cases "prepare_execution env p sid t ns conn s")
  case (Pair q s1)
  have i: "idle s s1" using idle_prepare Pair by (rule framedD)
  then have ok1: "once_ok env s1" "claimed s1 = claimed s"
    using once_ok_idle [OF ok] by (auto simp: idle_def claimed_def)
  show ?thesis
  proof (cases q)
    case (Inl e)
    then have "s' = s1" using run Pair by (simp add: execute_rule_def seq_def)
    with ok1 i show ?thesis by (simp add: idle_def)
  next
    case (Inr x)
    obtain key result base where x: "x = (key, result, base)" by (cases x)
    have "carry_out env p key result base s1 = (r, s')"
      using run Pair Inr x by (simp add: execute_rule_def seq_def)
    from carry_out_effect [OF ok1(1) this] show ?thesis
      using ok1 i prepare_key Pair Inr x by (auto simp: idle_def)
  qed
qed

text \<open>
  A life of the runtime: rule executions, each for some event, and uploads of evidence, which
  may prune. A rule is done for its key when calls leave for Home Assistant.
\<close>

datatype once_op =
    Execute verified_package string time pydict string
  | Upload "string list"

definition upload_now :: "rule_env \<Rightarrow> string list \<Rightarrow> (rule_runtime, unit) eff" where
  "upload_now env ids =
     seq (clock_now env) (\<lambda>now. seq (clock_now env) (\<lambda>later.
       on_store (\<lambda>st. (Inr (), mark_uploaded now later ids st))))"

fun once_step :: "rule_env \<Rightarrow> once_op \<Rightarrow> rule_runtime \<Rightarrow> rule_runtime" where
  "once_step env (Execute p sid t ns conn) s = snd (execute_rule env p sid t ns conn s)"
| "once_step env (Upload ids) s = snd (upload_now env ids s)"

fun once_does :: "rule_env \<Rightarrow> once_op \<Rightarrow> rule_runtime \<Rightarrow> string list" where
  "once_does env (Execute p sid t ns conn) s =
     (if calls_sent (rt_world (snd (execute_rule env p sid t ns conn s))) = calls_sent (rt_world s)
      then [] else [execution_key p sid])"
| "once_does env (Upload ids) s = []"

lemma upload_now_ok:
  assumes "once_ok env s"
  shows "once_ok env (snd (upload_now env ids s))"
proof -
  let ?now = "re_clock env (rt_tick s)" and ?later = "re_clock env (Suc (rt_tick s))"
  let ?st1 = "mark_uploaded ?now ?later ids (rt_store s)"
  have ok2: "once_ok env (s\<lparr>rt_tick := Suc (Suc (rt_tick s))\<rparr>)"
    by (rule once_ok_idle [OF assms]) (simp add: idle_def)
  have "executions_ok ?st1"
    using executions_ok_step [of "rt_store s" "MarkUploaded ?now ?later ids"] assms
    by (simp add: once_ok_def)
  moreover have "ex_created x \<in> ex_created ` set (rs_executions (rt_store s))"
    if "x \<in> set (rs_executions ?st1)" for x
    using that prune_rows_subset by (fastforce simp: mark_uploaded_def split: if_splits)
  then have "\<forall>x \<in> set (rs_executions ?st1). ex_created x \<le> re_clock env (Suc (Suc (rt_tick s)))"
    using ok2 by (fastforce simp: once_ok_def)
  moreover have "evidence_max_rows ?st1 = evidence_max_rows (rt_store s)"
    by (simp add: mark_uploaded_def)
  ultimately show ?thesis
    using assms by (simp add: upload_now_def two_clock_readings on_store_def once_ok_def)
qed

interpretation once: at_most_once "once_step env" "once_does env" claimed "once_ok env"
proof unfold_locales
  fix s op k
  assume ok: "once_ok env s"
  show "distinct (once_does env op s)" by (cases op) simp_all
  show "once_ok env (once_step env op s)"
  proof (cases op)
    case (Execute p sid t ns conn)
    then show ?thesis
      using execute_rule_effect [OF ok prod.collapse [symmetric]] by simp
  next
    case (Upload ids)
    then show ?thesis using upload_now_ok [OF ok] by simp
  qed
  assume k: "k \<in> set (once_does env op s)"
  then obtain p sid t ns conn where op: "op = Execute p sid t ns conn"
    "calls_sent (rt_world (snd (execute_rule env p sid t ns conn s))) \<noteq> calls_sent (rt_world s)"
    "k = execution_key p sid"
    by (cases op) (auto split: if_splits)
  then have "k \<notin> claimed s \<and> k \<in> claimed (once_step env op s)"
    using execute_rule_effect [OF ok prod.collapse [symmetric], of p sid t ns conn] by auto
  then show "k \<notin> claimed s" "k \<in> claimed (once_step env op s)" by simp_all
qed

text \<open>
  C7: a rule acts at most once on an event: in any sequence of rule executions and evidence
  uploads under a clock that does not run backwards, as long as the store gives up no execution,
  no idempotency key has service calls sent for it twice, and none that the store held at the
  start has any.
\<close>

theorem rule_acts_at_most_once:
  assumes "once_ok env s" and "run_kept (once_step env) claimed ops s"
  shows "distinct (run_done (once_step env) (once_does env) ops s) \<and>
    set (run_done (once_step env) (once_does env) ops s) \<inter> claimed s = {}"
  using once.run_done_distinct [OF assms] once.run_avoids_claimed [OF assms] by blast

text \<open>While there is room for new rows and nothing was uploaded yet, no execution is given up.\<close>

definition room :: "int \<Rightarrow> rule_store \<Rightarrow> bool" where
  "room n st \<longleftrightarrow> 0 \<le> n \<and> int (length (rs_executions st)) + n \<le> evidence_max_rows st \<and>
     (\<forall>r \<in> set (rs_executions st). ex_upload r \<noteq> Uploaded) \<and> executions_ok st"

definition keys_of :: "rule_store \<Rightarrow> string set" where
  "keys_of st = ex_key ` set (rs_executions st)"

lemma prune_with_room: "room n st \<Longrightarrow> rs_executions (prune_evidence now st) = rs_executions st"
  using prune_keeps_retained [of st now] by (auto simp: room_def executions_ok_def retained_def)

lemma reserve_with_room:
  assumes "room (n + 1) st" "0 \<le> n"
  shows "room n (snd (reserve_execution now later key eid ev st)) \<and>
    keys_of st \<subseteq> keys_of (snd (reserve_execution now later key eid ev st))"
proof (cases rule: reserve_cases [of key st now later eid ev])
  case created
  let ?st = "st\<lparr>rs_executions := rs_executions st @ [reserved_row now key eid ev]\<rparr>"
  have "room n ?st"
    using assms created by (auto simp: room_def reserved_row_def executions_ok_def)
  with created prune_with_room [OF this, of later] show ?thesis
    by (auto simp: room_def executions_ok_def keys_of_def)
qed (use assms in \<open>auto simp: room_def\<close>)

lemma finalize_with_room:
  assumes "room n st"
  shows "room n (snd (finalize_execution now later ev st)) \<and>
    keys_of st \<subseteq> keys_of (snd (finalize_execution now later ev st))"
proof (cases rule: finalize_cases [of now later ev st])
  case (completed key)
  let ?st = "st\<lparr>rs_executions := finalized_rows now (py_str key) ev (rs_executions st)\<rparr>"
  have "room n ?st"
    using assms by (auto simp: room_def finalized_rows_def executions_ok_def comp_def if_distrib cong: if_cong)
  moreover have "keys_of ?st = keys_of st"
    by (simp add: keys_of_def flip: set_map)
  ultimately show ?thesis
    using completed(3) prune_with_room [of n ?st later] by (auto simp: room_def executions_ok_def keys_of_def)
qed (use assms in simp)

lemma execute_with_room:
  assumes "room (n + 1) (rt_store s)" "0 \<le> n"
  shows "room n (rt_store (snd (execute_rule env p sid t ns conn s))) \<and>
    claimed s \<subseteq> claimed (snd (execute_rule env p sid t ns conn s))"
proof -
  define keeps where "keeps = (\<lambda>st st'. keys_of st \<subseteq> keys_of st' \<and> room n st')"
  have carry: "keeps (rt_store s) (rt_store (snd (carry_out env p key result base s)))"
    if "room (n + 1) (rt_store s)" for key result base s
  proof -
    obtain r s' where run: "carry_out env p key result base s = (r, s')"
      by (cases "carry_out env p key result base s")
    have res: "keeps (rt_store s) (rt_store s1)" if "reserve_now env key base s = (q, s1)" for q s1
      using reserve_with_room [OF \<open>room (n + 1) (rt_store s)\<close> assms(2), of "re_clock env (rt_tick s)"
          "re_clock env (Suc (rt_tick s))" key "stable_id env ''lrex'' key" base] that
      by (auto simp: reserve_now_def two_clock_readings on_store_def keeps_def split: prod.splits)
    have fin: "keeps (rt_store s2) (rt_store s3)"
      if "finalize_now env final s2 = (q, s3)" "room n (rt_store s2)" for q final s2 s3
      using finalize_with_room [OF that(2), of "re_clock env (rt_tick s2)"
          "re_clock env (Suc (rt_tick s2))" final] that(1)
      by (auto simp: finalize_now_def two_clock_readings on_store_def keeps_def split: prod.splits)
    from run have "keeps (rt_store s) (rt_store s')"
    proof (cases rule: carry_out_cases)
      case (finished ev final q s1 s2)
      then have "keeps (rt_store s) (rt_store s2)" using res by (simp add: keeps_store_def)
      with fin [OF finished(4)] show ?thesis by (auto simp: keeps_def)
    qed (use res in \<open>auto simp: keeps_store_def\<close>)
    with run show ?thesis by simp
  qed
  obtain q s1 where pre: "prepare_execution env p sid t ns conn s = (q, s1)"
    by (cases "prepare_execution env p sid t ns conn s")
  have same: "rt_store s1 = rt_store s"
    using framedD [OF idle_prepare pre] by (simp add: idle_def)
  have "keeps (rt_store s) (rt_store (snd (execute_rule env p sid t ns conn s)))"
  proof (cases q)
    case (Inl e)
    then show ?thesis using pre same assms by (auto simp: execute_rule_def seq_def keeps_def room_def)
  next
    case (Inr x)
    then show ?thesis
      using pre same carry [of s1] assms by (simp add: execute_rule_def seq_def split: prod.split)
  qed
  then show ?thesis by (simp add: keeps_def keys_of_def claimed_def)
qed

lemma run_kept_with_room:
  "room (int (length runs)) (rt_store s) \<Longrightarrow>
     run_kept (once_step env) claimed (map (\<lambda>(p, sid, t, ns, conn). Execute p sid t ns conn) runs) s"
proof (induction runs arbitrary: s)
  case (Cons run runs)
  obtain p sid t ns conn where run: "run = (p, sid, t, ns, conn)" by (cases run)
  have "room (int (length runs)) (rt_store (snd (execute_rule env p sid t ns conn s))) \<and>
      claimed s \<subseteq> claimed (snd (execute_rule env p sid t ns conn s))"
    by (rule execute_with_room) (use Cons.prems in \<open>simp_all add: algebra_simps\<close>)
  then show ?case using Cons.IH run by simp
qed simp

text \<open>
  An execution the store knows, finished or not, is final: executing the rule for the same
  event again changes neither the store nor what Home Assistant was sent, and if it returns it
  returns the stored evidence. An execution that broke off between reservation and
  evidence is in this sense never resumed.
\<close>

theorem known_execution_is_not_repeated:
  assumes "execution_of (execution_key p sid) (rt_store s) = Some r"
    and "execute_rule env p sid t ns conn s = (q, s')"
  shows "rt_store s' = rt_store s \<and> rt_world s' = rt_world s \<and>
    (isl q \<or> q = Inr (dset (ex_evidence r) ''_upload_status'' (PStr (upload_text (ex_upload r)))))"
proof (cases "prepare_execution env p sid t ns conn s")
  case (Pair q1 s1)
  have i: "idle s s1" using idle_prepare Pair by (rule framedD)
  show ?thesis
  proof (cases q1)
    case (Inl e)
    with assms(2) Pair i show ?thesis by (auto simp: execute_rule_def seq_Inl idle_def)
  next
    case (Inr x)
    obtain key result base where x: "x = (key, result, base)" by (cases x)
    have key: "key = execution_key p sid" using Pair Inr x prepare_key by blast
    have run: "carry_out env p key result base s1 = (q, s')"
      using assms(2) Pair Inr x by (simp add: execute_rule_def seq_Inr)
    let ?ev = "dset (ex_evidence r) ''_upload_status'' (PStr (upload_text (ex_upload r)))"
    have "reserve_now env key base s1 = (Inr (?ev, False), s1\<lparr>rt_tick := Suc (Suc (rt_tick s1))\<rparr>)"
      using i assms(1) key
      by (simp add: reserve_now_def two_clock_readings on_store_def reserve_execution_def idle_def)
    then have "(q, s') = (Inr ?ev, s1\<lparr>rt_tick := Suc (Suc (rt_tick s1))\<rparr>)"
      using run by (simp add: carry_out_def seq_Inr ret_def)
    with i show ?thesis by (simp add: idle_def)
  qed
qed

text \<open>
  The evidence is truthful: an action reported as \<open>succeeded\<close> is one whose service call,
  the one the action names, was sent to Home Assistant.
\<close>

theorem reported_success_was_sent:
  assumes "dispatch_action env eid i raw s = (Inr (PDict result), s')"
    and "dget result ''status'' = PStr ''succeeded''"
  shows "\<exists>action call. py_dict raw = Inr action \<and> service_call_of action = Inr call \<and>
    validate_action action = Inr () \<and>
    calls_sent (rt_world s') = calls_sent (rt_world s) @ [call_frame call]"
proof -
  from assms(1) obtain action where action: "py_dict raw = Inr action"
    by (cases "py_dict raw") (auto simp: dispatch_action_def eff_simps)
  show ?thesis
  proof (cases "validate_action action")
    case (Inl e)
    with assms action show ?thesis
      by (auto simp: dispatch_action_def eff_simps Let_def failed_action_def)
  next
    case valid: (Inr u)
    show ?thesis
    proof (cases "service_call_of action")
      case (Inl e)
      with assms action valid show ?thesis
        by (auto simp: dispatch_action_def eff_simps Let_def failed_action_def)
    next
      case (Inr call)
      obtain q w where call: "call_service (re_client env) call (rt_world s) = (q, w)"
        by (cases "call_service (re_client env) call (rt_world s)")
      show ?thesis
      proof (cases q)
        case (Inl e)
        with assms action valid Inr call show ?thesis
          by (auto simp: dispatch_action_def eff_simps Let_def on_world_def failed_action_def)
      next
        case q: (Inr response)
        then have "s' = s\<lparr>rt_world := w\<rparr>"
          using assms(1) action valid Inr call
          by (simp add: dispatch_action_def eff_simps Let_def on_world_def)
        with q call_service_calls [of "re_client env" call "rt_world s"] call valid Inr action
        show ?thesis by simp
      qed
    qed
  qed
qed

section \<open>A package that no longer verifies\<close>

lemma documents_stop_at_bad:
  assumes "doc \<in> set docs"
    and "\<And>now. isl (verify_stored_rule_package (re_crypto env) doc (re_instance env) (re_trusted env) now)"
  shows "isl (fst (process_documents env sid t ns conn docs s))"
  using assms(1)
proof (induction docs arbitrary: s)
  case (Cons d ds)
  show ?case
  proof (cases "d = doc")
    case True
    then show ?thesis
      using assms(2) [of "re_clock env (rt_tick s)"]
      by (auto simp: seq_def clock_now_def lift_res_def split: sum.splits)
  next
    case False
    with Cons have "\<And>s. isl (fst (process_documents env sid t ns conn ds s))" by simp
    then show ?thesis
      by (auto simp: seq_def clock_now_def lift_res_def ret_def split: sum.split prod.split)
        (metis fst_conv sum.disc(2))+
  qed
qed simp

text \<open>
  One stored package that does not verify any more, for instance because its signing key was
  taken off the trusted list, stops the local rules for every event: \<open>process_event\<close> raises, for
  events that have nothing to do with the package too, until the package's \<open>valid_until\<close>.
\<close>

theorem unverifiable_package_stops_every_event:
  assumes "row \<in> set (rs_packages (rt_store s))" and "\<forall>n. re_clock env n < pr_valid_until row"
    and "\<forall>now. isl (verify_stored_rule_package (re_crypto env) (pr_document row) (re_instance env)
           (re_trusted env) now)"
  shows "isl (fst (process_event env event connectivity s))"
proof (cases "event_identity env event s")
  case (Pair q s1)
  show ?thesis
  proof (cases q)
    case (Inl e)
    with Pair show ?thesis by (simp add: process_event_def seq_Inl)
  next
    case (Inr x)
    obtain sid t ns where x: "x = (sid, t, ns)" by (cases x)
    have "framed keeps_store (event_identity env event)"
      unfolding event_identity_def Let_def
      by (intro keeps.framed_seq keeps.framed_basic keeps.framed_if)
        (simp add: framed_def keeps_store_def clock_now_def)
    then have "rt_store s1 = rt_store s" using framedD Pair by (fastforce simp: keeps_store_def)
    then have "pr_document row \<in> set (fst (active_documents (re_clock env (rt_tick s1)) (rt_store s1)))"
      using assms(1,2) by (auto simp: active_rows)
    moreover obtain docs st where "active_documents (re_clock env (rt_tick s1)) (rt_store s1) = (docs, st)"
      by (cases "active_documents (re_clock env (rt_tick s1)) (rt_store s1)")
    ultimately show ?thesis
      using documents_stop_at_bad [of "pr_document row" docs env sid t ns connectivity] assms(3) Pair Inr x
      by (simp add: process_event_def seq_Inr clock_now_def seq_def [of "on_store _"] on_store_def)
  qed
qed

section \<open>Concrete runs\<close>

definition sample_rule_env :: rule_env where
  "sample_rule_env = \<lparr>re_crypto = sample_env, re_client = sample_client, re_instance = ''inst'',
     re_trusted = {''k1''}, re_float = (\<lambda>_. None), re_clock = (\<lambda>n. 2000 + int n)\<rparr>"

definition sample_runtime :: "rule_store \<Rightarrow> rule_runtime" where
  "sample_runtime st = \<lparr>rt_store = st, rt_world = sample_world (sample_script 200), rt_tick = 0\<rparr>"

definition sample_state :: pydict where
  "sample_state = [(''entity_id'', PStr ''binary_sensor.door''), (''state'', PStr ''on''),
     (''last_updated'', PStr ''t1'')]"

definition sample_runs :: "once_op list" where
  "sample_runs = [Execute sample_package ''ha:1'' 1000 sample_state ''connected'',
     Execute sample_package ''ha:1'' 1000 sample_state ''connected'']"

theorem rule_acts_at_most_once_witness:
  "distinct (run_done (once_step sample_rule_env) (once_does sample_rule_env) sample_runs
     (sample_runtime with_package))"
proof -
  have "once_ok sample_rule_env (sample_runtime with_package)"
    by (simp add: once_ok_def sample_rule_env_def sample_runtime_def with_package_def executions_ok_def
        mono_def)
  moreover have "run_kept (once_step sample_rule_env) claimed sample_runs (sample_runtime with_package)"
    using run_kept_with_room [of "[(sample_package, ''ha:1'', 1000, sample_state, ''connected''),
        (sample_package, ''ha:1'', 1000, sample_state, ''connected'')]"]
    by (simp add: sample_runs_def room_def sample_runtime_def with_package_def executions_ok_def)
  ultimately show ?thesis using rule_acts_at_most_once by blast
qed

theorem known_execution_is_not_repeated_witness:
  "calls_sent (rt_world (snd (execute_rule sample_rule_env sample_package ''ha:1'' 1000 sample_state ''connected''
     (sample_runtime (fresh_store\<lparr>rs_executions := [reserved_row 10 ''dep:v1:ha:1'' ''e'' []]\<rparr>))))) = []"
proof -
  let ?s = "sample_runtime (fresh_store\<lparr>rs_executions := [reserved_row 10 ''dep:v1:ha:1'' ''e'' []]\<rparr>)"
  have "execution_of (execution_key sample_package ''ha:1'') (rt_store ?s) =
      Some (reserved_row 10 ''dep:v1:ha:1'' ''e'' [])"
    by (simp add: execution_key_def idempotency_key_def sample_package_def sample_payload_def dindex_def
        execution_of_def sample_runtime_def reserved_row_def)
  from known_execution_is_not_repeated [OF this prod.collapse [symmetric]]
  have "rt_world (snd (execute_rule sample_rule_env sample_package ''ha:1'' 1000 sample_state ''connected'' ?s)) =
      rt_world ?s" by blast
  then show ?thesis by (simp add: calls_sent_def sample_runtime_def sample_world_def)
qed

lemma sample_dispatch:
  "\<exists>result s'. dispatch_action sample_rule_env ''e'' 0 sample_action (sample_runtime fresh_store) =
     (Inr (PDict result), s') \<and> dget result ''status'' = PStr ''succeeded''"
proof -
  have "pad_base64 [] = []" by (simp add: pad_base64_def)
  have light: "starts_with (str_or_empty (PStr ''light.porch'')) ''light.''"
    by (simp add: starts_with_def)
  show ?thesis
    using light
    by (simp add: dispatch_action_def sample_action_def validate_action_def service_call_of_def dindex_def
        sample_rule_env_def sample_runtime_def on_world_def call_service_def with_socket_def open_socket_def
        sample_world_def handshake_def sample_defs succeeded_def connect_timeout_def auth_frame_def
        call_frame_def fval_eq_def Let_def)
qed

theorem reported_success_was_sent_witness:
  "\<exists>call. calls_sent (rt_world (snd (dispatch_action sample_rule_env ''e'' 0 sample_action
     (sample_runtime fresh_store)))) = calls_sent (rt_world (sample_runtime fresh_store)) @ [call_frame call]"
proof -
  from sample_dispatch obtain result s' where
    run: "dispatch_action sample_rule_env ''e'' 0 sample_action (sample_runtime fresh_store) =
      (Inr (PDict result), s')" "dget result ''status'' = PStr ''succeeded''" by blast
  from reported_success_was_sent [OF run] obtain call where
    "calls_sent (rt_world s') = calls_sent (rt_world (sample_runtime fresh_store)) @ [call_frame call]"
    by blast
  then show ?thesis unfolding run(1) snd_conv by (rule exI)
qed

theorem unverifiable_package_stops_every_event_witness:
  "isl (fst (process_event (sample_rule_env\<lparr>re_trusted := {''rotated''}, re_clock := (\<lambda>_. 2000)\<rparr>) []
     ''connected'' (sample_runtime with_package)))"
proof -
  let ?env = "sample_rule_env\<lparr>re_trusted := {''rotated''}, re_clock := (\<lambda>_. 2000)\<rparr>"
  have "verify_stored_rule_package (re_crypto ?env) (stored_document sample_package) (re_instance ?env)
      (re_trusted ?env) now \<noteq> Inr p" for now p
    unfolding verify_stored_rule_package_def verify_iff
    by (simp add: dget_stored_document sample_package_def sample_rule_env_def)
  then have "isl (verify_stored_rule_package (re_crypto ?env) (stored_document sample_package) (re_instance ?env)
      (re_trusted ?env) now)" for now
    by (metis sum.collapse(2))
  then show ?thesis
    using unverifiable_package_stops_every_event [of "hd (rs_packages with_package)"
        "sample_runtime with_package" ?env]
    by (simp add: with_package_def sample_runtime_def sample_package_def)
qed

end
