(* ===== verification/Command_Store.thy ===== *)
theory Command_Store
  imports Timestamps
begin

text \<open>
  The module \<open>command_store.py\<close>: the receipts of the commands the connector has taken on, one row
  for each command id, deleted when they have not changed for \<open>retention_seconds\<close>. The evidence is
  kept as the value its JSON text stands for, \<open>updated_at\<close> as a number (the text order of the
  column is the numbers' order). SHA-256 is the parameter \<open>sha\<close>.
\<close>

record receipt =
  rc_command_id :: string
  rc_idempotency_key :: string
  rc_digest :: string
  rc_status :: string
  rc_reason :: "string option"
  rc_evidence :: pydict
  rc_updated :: time

record command_store =
  cs_retention_seconds :: int
  cs_rows :: "receipt list"

text \<open>Opening creates the table if the file has none.\<close>

definition command_store_init :: "int \<Rightarrow> receipt list option \<Rightarrow> command_store" where
  "command_store_init retention table =
     \<lparr>cs_retention_seconds = retention, cs_rows = (case table of None \<Rightarrow> [] | Some rows \<Rightarrow> rows)\<rparr>"

definition command_envelope_digest :: "(string \<Rightarrow> string) \<Rightarrow> pydict \<Rightarrow> string" where
  "command_envelope_digest sha envelope = sha (json_dumps (PDict envelope))"

definition prune_receipts :: "time \<Rightarrow> command_store \<Rightarrow> command_store" where
  "prune_receipts now s =
     s\<lparr>cs_rows := filter (\<lambda>r. \<not> rc_updated r < now - cs_retention_seconds s * 1000000) (cs_rows s)\<rparr>"

definition receipt_of :: "string \<Rightarrow> command_store \<Rightarrow> receipt option" where
  "receipt_of cid s = find (\<lambda>r. rc_command_id r = cid) (cs_rows s)"

definition get_receipt :: "time \<Rightarrow> string \<Rightarrow> command_store \<Rightarrow> receipt option \<times> command_store" where
  "get_receipt now cid s = (let s1 = prune_receipts now s in (receipt_of cid s1, s1))"

text \<open>\<open>INSERT ... ON CONFLICT(command_id) DO UPDATE\<close>: a known command keeps its key and digest.\<close>

definition upsert :: "receipt \<Rightarrow> command_store \<Rightarrow> command_store" where
  "upsert r s =
     (if receipt_of (rc_command_id r) s = None then s\<lparr>cs_rows := cs_rows s @ [r]\<rparr>
      else s\<lparr>cs_rows := map (\<lambda>x. if rc_command_id x = rc_command_id r
               then x\<lparr>rc_status := rc_status r, rc_reason := rc_reason r,
                      rc_evidence := rc_evidence r, rc_updated := rc_updated r\<rparr> else x) (cs_rows s)\<rparr>)"

text \<open>
  The three readings of the clock are those of the first \<open>get\<close>, of \<open>updated_at\<close> and of the last
  \<open>get\<close>. The result \<open>None\<close> stands for the empty dict.
\<close>

definition save_receipt ::
    "(string \<Rightarrow> string) \<Rightarrow> time \<Rightarrow> time \<Rightarrow> time \<Rightarrow> string \<Rightarrow> string \<Rightarrow> pydict \<Rightarrow> string \<Rightarrow> string option \<Rightarrow>
     pydict \<Rightarrow> command_store \<Rightarrow> receipt option res \<times> command_store" where
  "save_receipt sha now1 now2 now3 cid key envelope status reason evidence s =
     (let digest = command_envelope_digest sha envelope;
          (existing, s1) = get_receipt now1 cid s
      in if (case existing of None \<Rightarrow> False
             | Some r \<Rightarrow> rc_idempotency_key r \<noteq> key \<or> rc_digest r \<noteq> digest)
         then (Inl (RuntimeError ''HUB_COMMAND_IDEMPOTENCY_CONFLICT''), s1)
         else
           (let s2 = upsert \<lparr>rc_command_id = cid, rc_idempotency_key = key, rc_digest = digest,
                  rc_status = status, rc_reason = reason, rc_evidence = stored_payload evidence,
                  rc_updated = now2\<rparr> s1;
                (saved, s3) = get_receipt now3 cid s2
            in (Inr saved, s3)))"

section \<open>One row for each command\<close>

definition receipts_ok :: "command_store \<Rightarrow> bool" where
  "receipts_ok s \<longleftrightarrow> distinct (map rc_command_id (cs_rows s))"

lemma prune_receipts_rows [simp]:
  "cs_rows (prune_receipts now s) =
     filter (\<lambda>r. now - cs_retention_seconds s * 1000000 \<le> rc_updated r) (cs_rows s)"
  "cs_retention_seconds (prune_receipts now s) = cs_retention_seconds s"
  by (simp_all add: prune_receipts_def not_less)

lemma receipts_ok_prune: "receipts_ok s \<Longrightarrow> receipts_ok (prune_receipts now s)"
  by (simp add: receipts_ok_def distinct_map_filter)

lemma receipt_of_None: "receipt_of cid s = None \<longleftrightarrow> cid \<notin> rc_command_id ` set (cs_rows s)"
  by (auto simp: receipt_of_def find_None_iff)

lemma receipt_of_SomeD: "receipt_of cid s = Some r \<Longrightarrow> r \<in> set (cs_rows s) \<and> rc_command_id r = cid"
  by (auto simp: receipt_of_def find_Some_iff)

lemma receipt_of_iff:
  assumes "receipts_ok s"
  shows "receipt_of cid s = Some r \<longleftrightarrow> r \<in> set (cs_rows s) \<and> rc_command_id r = cid"
proof -
  have "distinct (map rc_command_id rs) \<Longrightarrow>
      find (\<lambda>x. rc_command_id x = cid) rs = Some r \<longleftrightarrow> r \<in> set rs \<and> rc_command_id r = cid" for rs
    by (induction rs) (auto simp: image_iff)
  with assms show ?thesis by (simp add: receipt_of_def receipts_ok_def)
qed

lemma receipts_ok_upsert: "receipts_ok s \<Longrightarrow> receipts_ok (upsert r s)"
  by (auto simp: receipts_ok_def upsert_def receipt_of_None comp_def if_distrib cong: if_cong)

lemma upsert_retention [simp]: "cs_retention_seconds (upsert r s) = cs_retention_seconds s"
  by (simp add: upsert_def)

text \<open>What the row of a command is after an upsert\<close>

definition merged :: "receipt \<Rightarrow> receipt option \<Rightarrow> receipt" where
  "merged r old = (case old of None \<Rightarrow> r
     | Some x \<Rightarrow> r\<lparr>rc_idempotency_key := rc_idempotency_key x, rc_digest := rc_digest x\<rparr>)"

lemma find_map_update:
  "(\<And>x. key (f x) = key x) \<Longrightarrow>
     find (\<lambda>x. key x = k) (map (\<lambda>x. if key x = k' then f x else x) xs) =
     map_option (\<lambda>x. if key x = k' then f x else x) (find (\<lambda>x. key x = k) xs)"
  by (induction xs) auto

lemma receipt_of_upsert:
  "receipt_of cid (upsert r s) =
     (if cid = rc_command_id r then Some (merged r (receipt_of cid s)) else receipt_of cid s)"
proof (cases "receipt_of (rc_command_id r) s")
  case None
  have "find P (xs @ ys) = (case find P xs of None \<Rightarrow> find P ys | Some x \<Rightarrow> Some x)"
    for P :: "receipt \<Rightarrow> bool" and xs ys by (induction xs) auto
  then show ?thesis
    using None by (auto simp: upsert_def receipt_of_def merged_def split: option.splits)
next
  case (Some x)
  have "receipt_of cid (upsert r s) = map_option (\<lambda>x. if rc_command_id x = rc_command_id r
      then x\<lparr>rc_status := rc_status r, rc_reason := rc_reason r, rc_evidence := rc_evidence r,
             rc_updated := rc_updated r\<rparr> else x) (receipt_of cid s)"
    using Some by (simp add: upsert_def receipt_of_def find_map_update)
  moreover have "rc_command_id y = cid" if "receipt_of cid s = Some y" for y
    using receipt_of_SomeD [OF that] by simp
  moreover have "y\<lparr>rc_status := rc_status r, rc_reason := rc_reason r, rc_evidence := rc_evidence r,
             rc_updated := rc_updated r\<rparr> = merged r (Some y)" if "rc_command_id y = rc_command_id r" for y
    using that by (cases r; cases y) (simp add: merged_def)
  ultimately show ?thesis
    using Some by (cases "receipt_of cid s") auto
qed

text \<open>Saving, case by case\<close>

lemma save_cases:
  obtains (conflict) x where "receipt_of cid (prune_receipts now1 s) = Some x"
      "rc_idempotency_key x \<noteq> key \<or> rc_digest x \<noteq> command_envelope_digest sha env"
      "save_receipt sha now1 now2 now3 cid key env status reason ev s =
         (Inl (RuntimeError ''HUB_COMMAND_IDEMPOTENCY_CONFLICT''), prune_receipts now1 s)"
  | (saved) r s2 where
      "r = \<lparr>rc_command_id = cid, rc_idempotency_key = key, rc_digest = command_envelope_digest sha env,
         rc_status = status, rc_reason = reason, rc_evidence = stored_payload ev, rc_updated = now2\<rparr>"
      "s2 = upsert r (prune_receipts now1 s)" "receipt_of cid s2 = Some r"
      "save_receipt sha now1 now2 now3 cid key env status reason ev s =
         (Inr (receipt_of cid (prune_receipts now3 s2)), prune_receipts now3 s2)"
proof (cases "case receipt_of cid (prune_receipts now1 s) of None \<Rightarrow> False
    | Some r \<Rightarrow> rc_idempotency_key r \<noteq> key \<or> rc_digest r \<noteq> command_envelope_digest sha env")
  case True
  then obtain x where "receipt_of cid (prune_receipts now1 s) = Some x"
    "rc_idempotency_key x \<noteq> key \<or> rc_digest x \<noteq> command_envelope_digest sha env"
    by (auto split: option.splits)
  with True show thesis by (intro conflict) (simp_all add: save_receipt_def get_receipt_def Let_def)
next
  case False
  let ?r = "\<lparr>rc_command_id = cid, rc_idempotency_key = key, rc_digest = command_envelope_digest sha env,
         rc_status = status, rc_reason = reason, rc_evidence = stored_payload ev, rc_updated = now2\<rparr>"
  have "receipt_of cid (upsert ?r (prune_receipts now1 s)) = Some ?r"
    using False by (auto simp: receipt_of_upsert merged_def split: option.splits)
  then show thesis
    by (rule saved [OF refl refl]) (use False in \<open>auto simp: save_receipt_def get_receipt_def Let_def
        simp del: prune_receipts_rows\<close>)
qed

text \<open>Other commands' rows only ever leave by age.\<close>

lemma receipt_of_prune:
  "receipts_ok s \<Longrightarrow> receipt_of cid (prune_receipts now s) =
     (case receipt_of cid s of None \<Rightarrow> None
      | Some r \<Rightarrow> if now - cs_retention_seconds s * 1000000 \<le> rc_updated r then Some r else None)"
proof -
  assume ok: "receipts_ok s"
  note iff = receipt_of_iff [OF ok] receipt_of_iff [OF receipts_ok_prune [OF ok]]
  show ?thesis
  proof (cases "receipt_of cid s")
    case None
    then have "cid \<notin> rc_command_id ` set (cs_rows (prune_receipts now s))"
      by (auto simp: receipt_of_None)
    then have "receipt_of cid (prune_receipts now s) = None" by (simp only: receipt_of_None not_False_eq_True)
    with None show ?thesis by simp
  next
    case (Some r)
    show ?thesis
    proof (cases "now - cs_retention_seconds s * 1000000 \<le> rc_updated r")
      case True
      with Some have "receipt_of cid (prune_receipts now s) = Some r" by (simp add: iff)
      with Some True show ?thesis by simp
    next
      case False
      have "receipt_of cid (prune_receipts now s) = None"
      proof (rule ccontr)
        assume "receipt_of cid (prune_receipts now s) \<noteq> None"
        then obtain y where y: "receipt_of cid (prune_receipts now s) = Some y" by blast
        then have "receipt_of cid s = Some y" by (simp add: iff)
        with Some y False show False by (simp add: iff)
      qed
      with Some False show ?thesis by simp
    qed
  qed
qed

text \<open>
  \<open>save\<close> then \<open>get\<close> gives back what was saved, with the evidence in its stored form, until
  the receipt's retention ends.
\<close>

theorem save_then_get:
  assumes "receipts_ok s" and "save_receipt sha now1 now2 now3 cid key env status reason ev s = (Inr x, s')"
    and "later - cs_retention_seconds s * 1000000 \<le> now2" "now3 \<le> later"
  shows "fst (get_receipt later cid s') = Some \<lparr>rc_command_id = cid, rc_idempotency_key = key,
    rc_digest = command_envelope_digest sha env, rc_status = status, rc_reason = reason,
    rc_evidence = stored_payload ev, rc_updated = now2\<rparr>"
proof (cases rule: save_cases [of cid now1 s key sha env now2 now3 status reason ev])
  case (conflict x)
  with assms(2) show ?thesis by simp
next
  case (saved r s2)
  have ok2: "receipts_ok s2"
    using saved(2) receipts_ok_upsert receipts_ok_prune assms(1) by blast
  have ret: "cs_retention_seconds s2 = cs_retention_seconds s" by (simp add: saved(2))
  have "receipt_of cid (prune_receipts now3 s2) = Some r"
    using receipt_of_prune [OF ok2] saved(1,3) assms(3,4) ret by simp
  moreover have "s' = prune_receipts now3 s2" using assms(2) saved(4) by simp
  moreover have "receipts_ok s'" "cs_retention_seconds s' = cs_retention_seconds s"
    using receipts_ok_prune [OF ok2] ret calculation(2) by simp_all
  ultimately have "receipt_of cid (prune_receipts later s') = Some r"
    using receipt_of_prune [of s' cid later] assms(3) saved(1) by simp
  then show ?thesis by (simp add: get_receipt_def Let_def saved(1))
qed

text \<open>
  A command id that is known under another idempotency key or another envelope is refused,
  and its receipt stays as it was.
\<close>

theorem conflicting_command_is_refused:
  assumes "receipt_of cid (prune_receipts now1 s) = Some x"
    and "rc_idempotency_key x \<noteq> key \<or> rc_digest x \<noteq> command_envelope_digest sha env"
  shows "fst (save_receipt sha now1 now2 now3 cid key env status reason ev s) =
      Inl (RuntimeError ''HUB_COMMAND_IDEMPOTENCY_CONFLICT'') \<and>
    receipt_of cid (snd (save_receipt sha now1 now2 now3 cid key env status reason ev s)) = Some x"
proof (cases rule: save_cases [of cid now1 s key sha env now2 now3 status reason ev])
  case (conflict y)
  with assms(1) show ?thesis by simp
next
  case (saved r s2)
  then show ?thesis using assms by (auto simp: receipt_of_upsert merged_def)
qed

section \<open>A concrete receipt\<close>

definition sample_receipt :: receipt where
  "sample_receipt = \<lparr>rc_command_id = ''c'', rc_idempotency_key = ''k'',
     rc_digest = command_envelope_digest id [], rc_status = ''accepted'', rc_reason = None,
     rc_evidence = stored_payload [], rc_updated = 11\<rparr>"

definition sample_receipts :: command_store where
  "sample_receipts = command_store_init 60 (Some [sample_receipt])"

lemma sample_saved:
  "save_receipt id 10 11 12 ''c'' ''k'' [] ''accepted'' None [] (command_store_init 60 None) =
     (Inr (Some sample_receipt), sample_receipts)"
  by (simp add: save_receipt_def get_receipt_def receipt_of_def command_store_init_def Let_def
      upsert_def prune_receipts_def sample_receipt_def sample_receipts_def)

theorem save_then_get_witness: "fst (get_receipt 50 ''c'' sample_receipts) = Some sample_receipt"
  using save_then_get [OF _ sample_saved, of 50]
  by (simp add: receipts_ok_def command_store_init_def sample_receipt_def)

theorem conflicting_command_is_refused_witness:
  "fst (save_receipt id 20 21 22 ''c'' ''other'' [] ''accepted'' None [] sample_receipts) =
     Inl (RuntimeError ''HUB_COMMAND_IDEMPOTENCY_CONFLICT'')"
  using conflicting_command_is_refused [of "''c''" 20 sample_receipts sample_receipt "''other''"]
  by (simp add: sample_receipts_def sample_receipt_def command_store_init_def receipt_of_def prune_receipts_def)

end
