(* ===== verification/Command_Executor.thy ===== *)
theory Command_Executor
  imports Command_Store Ha_Client
begin

text \<open>
  The module \<open>command_executor.py\<close>: a command delivered by Core is checked against the allowlist,
  carried out once through Home Assistant, confirmed by reading the entity back, and its receipt
  stored. Time is part of the state: a reading of the clock gives \<open>hx_now\<close>, after which the
  clock has advanced by an arbitrary \<open>hx_drift\<close>, and \<open>sleep\<close> advances it by at least its
  argument, as \<open>time.sleep\<close> documents.
\<close>

section \<open>State and environment\<close>

record executor_env =
  hx_sha :: "string \<Rightarrow> string"
  hx_fromiso :: iso_parser
  hx_client :: ha_client
  hx_drift :: "nat \<Rightarrow> nat"

record executor =
  hx_receipts :: command_store
  hx_world :: ha_world
  hx_now :: time
  hx_tick :: nat

definition read_clock :: "executor_env \<Rightarrow> (executor, time) eff" where
  "read_clock env s =
     (Inr (hx_now s), s\<lparr>hx_now := hx_now s + int (hx_drift env (hx_tick s)), hx_tick := Suc (hx_tick s)\<rparr>)"

definition sleep_us :: "executor_env \<Rightarrow> time \<Rightarrow> executor \<Rightarrow> executor" where
  "sleep_us env d s =
     s\<lparr>hx_now := hx_now s + d + int (hx_drift env (hx_tick s)), hx_tick := Suc (hx_tick s)\<rparr>"

definition on_ha :: "(ha_world, 'a) eff \<Rightarrow> (executor, 'a) eff" where
  "on_ha m s = (case m (hx_world s) of (r, w) \<Rightarrow> (r, s\<lparr>hx_world := w\<rparr>))"

definition on_receipts :: "(command_store, 'a) eff \<Rightarrow> (executor, 'a) eff" where
  "on_receipts m s = (case m (hx_receipts s) of (r, st) \<Rightarrow> (r, s\<lparr>hx_receipts := st\<rparr>))"

section \<open>Checks\<close>

definition TERMINAL_STATUSES :: "string list" where
  "TERMINAL_STATUSES = [''executed'', ''failed'', ''timeout'']"

definition validate_command_envelope :: "pydict \<Rightarrow> service_call res" where
  "validate_command_envelope envelope =
     (let domain = str_or_empty (dget envelope ''domain'');
          service = str_or_empty (dget envelope ''service'');
          entity_id = str_or_empty (dget envelope ''entity_id'') in
      rbind (dict_or_empty (dget envelope ''service_data'')) (\<lambda>service_data.
        if domain \<noteq> ''light'' \<or> service \<notin> {''turn_on'', ''turn_off''} \<or>
           \<not> starts_with entity_id ''light.'' \<or>
           fst ` set service_data \<noteq> {''entity_id''} \<or>
           dget service_data ''entity_id'' \<noteq> PStr entity_id
        then Inl (RuntimeError ''HUB_COMMAND_NOT_ALLOWLISTED'')
        else Inr \<lparr>sc_domain = domain, sc_service = service, sc_entity_id = entity_id,
                  sc_data = [(''entity_id'', PStr entity_id)]\<rparr>))"

definition envelope_dict :: "service_call \<Rightarrow> pydict" where
  "envelope_dict c = [(''domain'', PStr (sc_domain c)), (''service'', PStr (sc_service c)),
     (''entity_id'', PStr (sc_entity_id c)), (''service_data'', PDict (sc_data c))]"

definition deadline :: "executor_env \<Rightarrow> pyval \<Rightarrow> time res" where
  "deadline env v = parse_time (hx_fromiso env) v"

section \<open>Receipts\<close>

definition get_now :: "executor_env \<Rightarrow> string \<Rightarrow> (executor, receipt option) eff" where
  "get_now env cid =
     seq (read_clock env) (\<lambda>now. on_receipts (\<lambda>st. case get_receipt now cid st of (r, st') \<Rightarrow> (Inr r, st')))"

definition save_now ::
    "executor_env \<Rightarrow> string \<Rightarrow> string \<Rightarrow> service_call \<Rightarrow> string \<Rightarrow> string option \<Rightarrow> pydict \<Rightarrow>
     (executor, receipt option) eff" where
  "save_now env cid key call status reason evidence =
     seq (read_clock env) (\<lambda>now1. seq (read_clock env) (\<lambda>now2. seq (read_clock env) (\<lambda>now3.
       on_receipts (save_receipt (hx_sha env) now1 now2 now3 cid key (envelope_dict call) status reason evidence))))"

section \<open>Reading back\<close>

lemma on_ha_clock: "on_ha m s = (r, s') \<Longrightarrow> hx_now s' = hx_now s"
  by (auto simp: on_ha_def split: prod.splits)

text \<open>
  The loop ends because the clock passes the limit: every round sleeps 200 ms.
\<close>

function readback_loop ::
    "executor_env \<Rightarrow> string \<Rightarrow> string \<Rightarrow> time \<Rightarrow> executor \<Rightarrow> pydict option res \<times> executor" where
  "readback_loop env entity expected limit s =
     (case read_clock env s of
        (Inl e, s1) \<Rightarrow> (Inl e, s1)
      | (Inr now, s1) \<Rightarrow>
          if now < limit
          then (case on_ha (read_entity_state (hx_client env) entity) s1 of
                  (Inl e, s2) \<Rightarrow> (Inl e, s2)
                | (Inr st, s2) \<Rightarrow>
                    if (case st of None \<Rightarrow> False | Some d \<Rightarrow> dget d ''state'' = PStr expected)
                    then (Inr st, s2)
                    else readback_loop env entity expected limit (sleep_us env 200000 s2))
          else (Inr None, s1))"
  by pat_completeness auto
termination
proof (relation "measure (\<lambda>(env, entity, expected, limit, s). nat (limit - hx_now s))", simp)
  fix env :: executor_env and entity expected :: string and limit :: time and s :: executor
  fix x s1 now y s2 st
  assume "(x, s1) = read_clock env s" "x = Inr now" "now < limit"
    "(y, s2) = on_ha (read_entity_state (hx_client env) entity) s1"
  moreover from this have "hx_now s2 = hx_now s1" by (metis on_ha_clock)
  ultimately show "((env, entity, expected, limit, sleep_us env 200000 s2), env, entity, expected, limit, s)
      \<in> measure (\<lambda>(env, entity, expected, limit, s). nat (limit - hx_now s))"
    by (simp add: read_clock_def sleep_us_def)
qed

declare readback_loop.simps [simp del]

definition wait_for_readback ::
    "executor_env \<Rightarrow> string \<Rightarrow> string \<Rightarrow> time \<Rightarrow> (executor, pydict option) eff" where
  "wait_for_readback env entity expected command_deadline =
     seq (read_clock env) (\<lambda>now. readback_loop env entity expected (min command_deadline (now + 5000000)))"

section \<open>Executing a command\<close>

text \<open>What follows the service call: \<open>result\<close> is its response or the exception it raised.\<close>

definition provider_request_id :: "pydict \<Rightarrow> pyval" where
  "provider_request_id response = PStr (str_or_empty (dget response ''request_id''))"

definition conclude ::
    "executor_env \<Rightarrow> string \<Rightarrow> string \<Rightarrow> service_call \<Rightarrow> pyval \<Rightarrow> pydict res \<Rightarrow> (executor, receipt option) eff" where
  "conclude env cid key call deadline_at result =
     (case result of
        Inl (TimeoutError _) \<Rightarrow> save_now env cid key call ''timeout'' (Some ''ha_service_timeout'') []
      | Inl _ \<Rightarrow> save_now env cid key call ''failed'' (Some ''ha_service_call_failed'') []
      | Inr response \<Rightarrow>
          seq (lift_res (deadline env deadline_at)) (\<lambda>limit.
          seq (wait_for_readback env (sc_entity_id call)
                 (if sc_service call = ''turn_on'' then ''on'' else ''off'') limit) (\<lambda>readback.
          seq (read_clock env) (\<lambda>now.
            case readback of
              None \<Rightarrow> save_now env cid key call ''timeout'' (Some ''ha_readback_timeout'')
                [(''provider_request_id'', provider_request_id response),
                 (''provider_result'', PStr ''accepted''), (''device_result'', PStr ''not_observed''),
                 (''ack_observed_at'', PStr (isoformat now))]
            | Some state \<Rightarrow> save_now env cid key call ''executed'' None
                [(''provider_request_id'', provider_request_id response),
                 (''provider_result'', PStr ''success''), (''device_result'', PStr ''readback_confirmed''),
                 (''readback'', PDict [(''capability'', PStr ''light.power''),
                    (''parameters'', PDict [(''value'', PBool (dget state ''state'' = PStr ''on''))])]),
                 (''ack_observed_at'', PStr (isoformat now))]))))"

text \<open>\<open>try: call_service\<close>, whose exceptions are part of what follows\<close>

definition attempt :: "(executor, 'a) eff \<Rightarrow> (executor, 'a res) eff" where
  "attempt m s = (case m s of (r, s') \<Rightarrow> (Inr r, s'))"

definition is_terminal :: "receipt option \<Rightarrow> bool" where
  "is_terminal r \<longleftrightarrow> (case r of None \<Rightarrow> False | Some x \<Rightarrow> rc_status x \<in> set TERMINAL_STATUSES)"

definition run_command ::
    "executor_env \<Rightarrow> string \<Rightarrow> string \<Rightarrow> service_call \<Rightarrow> pyval \<Rightarrow> (executor, receipt option) eff" where
  "run_command env cid key call deadline_at =
     seq (lift_res (deadline env deadline_at)) (\<lambda>limit.
     seq (read_clock env) (\<lambda>now.
       if limit \<le> now then save_now env cid key call ''timeout'' (Some ''command_deadline_expired'') []
       else
         seq (save_now env cid key call ''accepted'' None []) (\<lambda>_.
         seq (attempt (on_ha (call_service (hx_client env) call)))
           (conclude env cid key call deadline_at))))"

definition execute_command :: "executor_env \<Rightarrow> pydict \<Rightarrow> (executor, receipt option) eff" where
  "execute_command env delivery =
     seq (lift_res (dindex delivery ''command_id'')) (\<lambda>cid.
     seq (lift_res (dindex delivery ''idempotency_key'')) (\<lambda>key.
     seq (lift_res (rbind (dindex delivery ''envelope'') (\<lambda>e. rbind (py_dict e) validate_command_envelope))) (\<lambda>call.
     seq (get_now env (py_str cid)) (\<lambda>existing.
       if is_terminal existing then ret existing
       else
         seq (lift_res (dindex delivery ''deadline_at''))
           (run_command env (py_str cid) (py_str key) call)))))"

section \<open>What leaves for Home Assistant\<close>

definition only_lights_hx :: "executor \<Rightarrow> executor \<Rightarrow> bool" where
  "only_lights_hx s s' \<longleftrightarrow> lights_sent (hx_world s) (hx_world s')"

interpretation hx_lights: frame_condition only_lights_hx
  by unfold_locales (auto simp: only_lights_hx_def lights_sent_refl intro: lights_sent_trans)

text \<open>Steps that send nothing\<close>

definition same_world :: "executor \<Rightarrow> executor \<Rightarrow> bool" where
  "same_world s s' \<longleftrightarrow> hx_world s' = hx_world s \<and> hx_now s \<le> hx_now s'"

interpretation hx_same: frame_condition same_world
  by unfold_locales (auto simp: same_world_def)

definition no_call :: "executor \<Rightarrow> executor \<Rightarrow> bool" where
  "no_call s s' \<longleftrightarrow> calls_sent (hx_world s') = calls_sent (hx_world s) \<and>
     hx_receipts s' = hx_receipts s \<and> hx_now s \<le> hx_now s'"

interpretation hx_no_call: frame_condition no_call
  by unfold_locales (auto simp: no_call_def)

lemma same_world_clock: "framed same_world (read_clock env)"
  by (simp add: framed_def same_world_def read_clock_def)

lemma same_world_receipts: "framed same_world (on_receipts m)"
  by (simp add: framed_def same_world_def on_receipts_def split: prod.split)

lemma same_world_get: "framed same_world (get_now env cid)"
  unfolding get_now_def by (intro hx_same.framed_seq same_world_clock same_world_receipts)

lemma same_world_save: "framed same_world (save_now env cid key call status reason ev)"
  unfolding save_now_def by (intro hx_same.framed_seq same_world_clock same_world_receipts)

lemma no_call_clock: "framed no_call (read_clock env)"
  by (simp add: framed_def no_call_def read_clock_def)

lemma no_call_read: "framed no_call (on_ha (read_entity_state client entity))"
  by (simp add: framed_def no_call_def on_ha_def split: prod.split) (metis read_entity_state_quiet snd_conv)

lemma no_call_loop: "no_call s (snd (readback_loop env entity expected limit s))"
proof (induction env entity expected limit s rule: readback_loop.induct)
  case (1 env entity expected limit s)
  obtain q1 s1 where clock: "read_clock env s = (q1, s1)" by (cases "read_clock env s")
  obtain q2 s2 where ha: "on_ha (read_entity_state (hx_client env) entity) s1 = (q2, s2)"
    by (cases "on_ha (read_entity_state (hx_client env) entity) s1")
  have c1: "no_call s s1" using no_call_clock clock by (rule framedD)
  have c2: "no_call s s2"
    using c1 no_call_read [THEN framedD, OF ha] by (rule hx_no_call.trans)
  then have c3: "no_call s (sleep_us env 200000 s2)"
    by (simp add: no_call_def sleep_us_def)
  show ?case
  proof (cases "\<exists>now st. q1 = Inr now \<and> now < limit \<and> q2 = Inr st \<and>
      \<not> (case st of None \<Rightarrow> False | Some d \<Rightarrow> dget d ''state'' = PStr expected)")
    case True
    then obtain now st where t: "q1 = Inr now" "now < limit" "q2 = Inr st"
      "\<not> (case st of None \<Rightarrow> False | Some d \<Rightarrow> dget d ''state'' = PStr expected)" by blast
    from "1.IH" [OF clock [symmetric] t(1,2) ha [symmetric] t(3,4)] c3 hx_no_call.trans t clock ha
    show ?thesis by (subst readback_loop.simps) auto
  next
    case False
    with clock ha c1 c2 show ?thesis
      by (subst readback_loop.simps) (auto split: sum.split)
  qed
qed

lemma no_call_wait: "framed no_call (wait_for_readback env entity expected limit)"
  unfolding wait_for_readback_def
  by (intro hx_no_call.framed_seq no_call_clock) (simp add: framed_def no_call_loop)

lemma valid_envelope_is_light:
  assumes "validate_command_envelope e = Inr call"
  shows "\<exists>service entity. service \<in> {''turn_on'', ''turn_off''} \<and> prefix ''light.'' entity \<and>
    call = light_call service entity"
  using assms
  by (auto simp: validate_command_envelope_def Let_def rbind_Inr_iff light_call_def starts_with_def
      split: if_splits)

lemma lights_of_same_world: "framed same_world m \<Longrightarrow> framed only_lights_hx m"
  by (simp add: framed_def same_world_def only_lights_hx_def lights_sent_refl)

lemma lights_of_no_call: "framed no_call m \<Longrightarrow> framed only_lights_hx m"
  by (simp add: framed_def no_call_def only_lights_hx_def lights_sent_refl)

lemma lights_conclude: "framed only_lights_hx (conclude env cid key call d result)"
proof (cases result)
  case (Inl e)
  then show ?thesis
    by (cases e) (auto simp: conclude_def intro: lights_of_same_world same_world_save)
next
  case (Inr response)
  have "framed only_lights_hx (case readback of None \<Rightarrow> save_now env cid key call st r ev
      | Some x \<Rightarrow> save_now env cid key call st' r' (ev' x))" for readback st r ev st' r' ev'
    by (cases readback) (auto intro: lights_of_same_world same_world_save)
  then show ?thesis
    unfolding conclude_def Inr sum.case
    by (intro hx_lights.framed_seq hx_lights.framed_basic lights_of_no_call [OF no_call_wait]
        lights_of_no_call [OF no_call_clock])
qed

lemma lights_run_command:
  assumes "service \<in> {''turn_on'', ''turn_off''}" "prefix ''light.'' entity"
  shows "framed only_lights_hx (run_command env cid key (light_call service entity) d)"
proof -
  have "framed only_lights_hx (attempt (on_ha (call_service (hx_client env) (light_call service entity))))"
    using call_service_light [OF assms]
    by (simp add: framed_def only_lights_hx_def attempt_def on_ha_def split: prod.split) (metis snd_conv)
  then show ?thesis
    unfolding run_command_def
    by (intro hx_lights.framed_seq hx_lights.framed_basic hx_lights.framed_if lights_conclude)
      (auto intro: lights_of_same_world same_world_save same_world_clock)
qed

lemma framed_lights_execute_command: "framed only_lights_hx (execute_command env delivery)"
proof -
  have run: "framed only_lights_hx (run_command env cid key call d)"
    if "validate_command_envelope e = Inr call" for e call cid key d
    using valid_envelope_is_light [OF that] lights_run_command by blast
  have tail: "framed only_lights_hx (seq (lift_res (rbind (dindex delivery ''envelope'')
      (\<lambda>e. rbind (py_dict e) validate_command_envelope))) k)"
    if "\<And>e call. validate_command_envelope e = Inr call \<Longrightarrow> framed only_lights_hx (k call)" for k
    using that by (auto simp: framed_def seq_def lift_res_def hx_lights.refl rbind_Inr_iff split: sum.split)
  show ?thesis
    unfolding execute_command_def
    by (intro hx_lights.framed_seq hx_lights.framed_basic hx_lights.framed_if tail run
        lights_of_same_world same_world_get)
qed

text \<open>
  Whatever Core delivers as a command, the service calls its execution sends are \<open>turn_on\<close>
  and \<open>turn_off\<close> of domain \<open>light\<close> on one entity of that domain, without further data.
\<close>

theorem commands_only_switch_lights:
  "\<exists>fs. calls_sent (hx_world (snd (execute_command env delivery s))) = calls_sent (hx_world s) @ fs \<and>
     list_all light_frame fs"
  using framed_lights_execute_command by (simp add: framed_def only_lights_hx_def lights_sent_def)

section \<open>A completed command is final\<close>

definition command_ok :: "executor_env \<Rightarrow> executor \<Rightarrow> bool" where
  "command_ok env s \<longleftrightarrow> receipts_ok (hx_receipts s) \<and>
     (\<forall>n. 2 * int (hx_drift env n) \<le> cs_retention_seconds (hx_receipts s) * 1000000)"

definition keeps_ok :: "executor_env \<Rightarrow> executor \<Rightarrow> executor \<Rightarrow> bool" where
  "keeps_ok env s s' \<longleftrightarrow> (command_ok env s \<longrightarrow> command_ok env s')"

interpretation hx_ok: frame_condition "keeps_ok env"
  by unfold_locales (auto simp: keeps_ok_def)

definition current_receipt :: "string \<Rightarrow> executor \<Rightarrow> receipt option" where
  "current_receipt cid s = receipt_of cid (prune_receipts (hx_now s) (hx_receipts s))"

definition terminal_now :: "executor \<Rightarrow> string set" where
  "terminal_now s = {cid. is_terminal (current_receipt cid s)}"

lemma get_now_effect:
  "get_now env cid s = (Inr (current_receipt cid s),
     s\<lparr>hx_now := hx_now s + int (hx_drift env (hx_tick s)), hx_tick := Suc (hx_tick s),
       hx_receipts := prune_receipts (hx_now s) (hx_receipts s)\<rparr>)"
  by (simp add: get_now_def seq_def read_clock_def on_receipts_def get_receipt_def current_receipt_def Let_def)

lemma save_now_unfold:
  "save_now env cid key call status reason ev s =
     (let n1 = hx_now s; n2 = n1 + int (hx_drift env (hx_tick s));
          n3 = n2 + int (hx_drift env (Suc (hx_tick s)));
          n4 = n3 + int (hx_drift env (Suc (Suc (hx_tick s))))
      in case save_receipt (hx_sha env) n1 n2 n3 cid key (envelope_dict call) status reason ev (hx_receipts s) of
           (q, st) \<Rightarrow> (q, s\<lparr>hx_now := n4, hx_tick := Suc (Suc (Suc (hx_tick s))), hx_receipts := st\<rparr>))"
  by (simp add: save_now_def seq_def read_clock_def on_receipts_def Let_def split: prod.split)

lemma save_now_ok: "framed (keeps_ok env) (save_now env cid key call status reason ev)"
proof -
  have "receipts_ok st' \<and> cs_retention_seconds st' = cs_retention_seconds st"
    if "save_receipt sha n1 n2 n3 cid key e status reason ev st = (q, st')" "receipts_ok st"
    for sha n1 n2 n3 e st q st'
    using that receipts_ok_prune receipts_ok_upsert
    by (cases rule: save_cases [of cid n1 st key sha e n2 n3 status reason ev]) auto
  then show ?thesis
    by (auto simp: framed_def keeps_ok_def command_ok_def save_now_unfold Let_def split: prod.split)
qed

lemma get_now_ok: "framed (keeps_ok env) (get_now env cid)"
  by (simp add: framed_def keeps_ok_def command_ok_def get_now_effect receipts_ok_prune
      del: prune_receipts_rows(1))

lemma clock_ok: "framed (keeps_ok env) (read_clock env)"
  by (simp add: framed_def keeps_ok_def command_ok_def read_clock_def)

lemma world_ok: "framed (keeps_ok env) (on_ha m)"
  by (simp add: framed_def keeps_ok_def command_ok_def on_ha_def split: prod.split)

lemma wait_ok: "framed (keeps_ok env) (wait_for_readback env entity expected limit)"
  using no_call_wait [of env entity expected limit]
  by (simp add: framed_def no_call_def keeps_ok_def command_ok_def)

text \<open>A terminal status that was saved counts at once: no pause between two readings is half the retention.\<close>

lemma save_now_terminal:
  assumes "command_ok env s" "save_now env cid key call status reason ev s = (Inr q, s')"
    and "status \<in> set TERMINAL_STATUSES"
  shows "cid \<in> terminal_now s'"
proof -
  let ?n1 = "hx_now s" and ?t = "hx_tick s" and ?st = "hx_receipts s"
  let ?n2 = "?n1 + int (hx_drift env ?t)"
  let ?n3 = "?n2 + int (hx_drift env (Suc ?t))"
  let ?n4 = "?n3 + int (hx_drift env (Suc (Suc ?t)))"
  have run: "(case save_receipt (hx_sha env) ?n1 ?n2 ?n3 cid key (envelope_dict call) status reason ev ?st of
      (q, st) \<Rightarrow> (q, s\<lparr>hx_now := ?n4, hx_tick := Suc (Suc (Suc ?t)), hx_receipts := st\<rparr>)) = (Inr q, s')"
    using assms(2) by (simp add: save_now_unfold Let_def)
  show ?thesis
  proof (cases rule: save_cases [of cid ?n1 ?st key "hx_sha env" "envelope_dict call" ?n2 ?n3 status reason ev])
    case (conflict x)
    with run show ?thesis by simp
  next
    case (saved r s2)
    have drift: "2 * int (hx_drift env n) \<le> cs_retention_seconds ?st * 1000000" for n
      using assms(1) by (simp add: command_ok_def)
    have ok2: "receipts_ok s2" "cs_retention_seconds s2 = cs_retention_seconds ?st"
      using assms(1) receipts_ok_upsert receipts_ok_prune by (auto simp: saved(2) command_ok_def)
    have s': "hx_receipts s' = prune_receipts ?n3 s2" "hx_now s' = ?n4"
      using run saved(4) by auto
    have "receipt_of cid (prune_receipts ?n3 s2) = Some r"
      using receipt_of_prune [OF ok2(1), of cid ?n3] saved(1,3) ok2(2) drift [of "Suc ?t"] by simp
    moreover have "?n4 - cs_retention_seconds ?st * 1000000 \<le> rc_updated r"
      using drift [of "Suc ?t"] drift [of "Suc (Suc ?t)"] by (simp add: saved(1))
    ultimately have "current_receipt cid s' = Some r"
      using receipt_of_prune [OF receipts_ok_prune [OF ok2(1), of ?n3], of cid ?n4] ok2(2)
      by (simp add: current_receipt_def s')
    then show ?thesis using assms(3) saved(1) by (simp add: terminal_now_def is_terminal_def)
  qed
qed

text \<open>How a command that returns normally ends\<close>

lemma terminal_statuses:
  "''timeout'' \<in> set TERMINAL_STATUSES" "''failed'' \<in> set TERMINAL_STATUSES" "''executed'' \<in> set TERMINAL_STATUSES"
  by (simp_all add: TERMINAL_STATUSES_def)

lemma conclude_ends:
  assumes "conclude env cid key call d result s = (Inr q, s')"
  obtains s1 status reason ev where "keeps_ok env s s1" "status \<in> set TERMINAL_STATUSES"
    "save_now env cid key call status reason ev s1 = (Inr q, s')"
proof (cases result)
  case (Inl e)
  show thesis
  proof (cases "\<exists>m. e = TimeoutError m")
    case True
    with Inl assms show thesis
      by (intro that [of s "''timeout''"]) (auto simp: conclude_def hx_ok.refl terminal_statuses)
  next
    case False
    with Inl assms show thesis
      by (intro that [of s "''failed''"])
        (auto simp: conclude_def hx_ok.refl terminal_statuses split: exn.splits)
  qed
next
  case (Inr response)
  obtain limit where limit: "deadline env d = Inr limit"
    using assms Inr by (cases "deadline env d") (auto simp: conclude_def seq_def lift_res_def)
  let ?expected = "if sc_service call = ''turn_on'' then ''on'' else ''off''"
  obtain q1 s1 where wait: "wait_for_readback env (sc_entity_id call) ?expected limit s = (q1, s1)"
    by (cases "wait_for_readback env (sc_entity_id call) ?expected limit s")
  obtain readback where q1: "q1 = Inr readback"
    using assms Inr limit wait by (cases q1) (auto simp: conclude_def seq_def lift_res_def)
  obtain now s2 where clock: "read_clock env s1 = (Inr now, s2)" by (simp add: read_clock_def)
  have ok: "keeps_ok env s s2"
    using framedD [OF wait_ok wait] framedD [OF clock_ok clock] by (rule hx_ok.trans)
  show thesis
  proof (cases readback)
    case None
    then show thesis
      using assms Inr limit wait q1 clock
      by (intro that [OF ok terminal_statuses(1)]) (simp add: conclude_def seq_def lift_res_def)
  next
    case (Some st)
    then show thesis
      using assms Inr limit wait q1 clock
      by (intro that [OF ok terminal_statuses(3)]) (simp add: conclude_def seq_def lift_res_def)
  qed
qed

lemma run_command_ends:
  assumes "run_command env cid key call d s = (Inr q, s')"
  obtains s1 status reason ev where "keeps_ok env s s1" "status \<in> set TERMINAL_STATUSES"
    "save_now env cid key call status reason ev s1 = (Inr q, s')"
proof -
  obtain limit where limit: "deadline env d = Inr limit"
    using assms by (cases "deadline env d") (auto simp: run_command_def seq_def lift_res_def)
  obtain now s1 where clock: "read_clock env s = (Inr now, s1)" by (simp add: read_clock_def)
  have ok1: "keeps_ok env s s1" by (rule framedD [OF clock_ok clock])
  show thesis
  proof (cases "limit \<le> now")
    case True
    with assms limit clock show thesis
      by (intro that [OF ok1 terminal_statuses(1)]) (simp add: run_command_def seq_def lift_res_def)
  next
    case False
    obtain q2 s2 where saved: "save_now env cid key call ''accepted'' None [] s1 = (q2, s2)"
      by (cases "save_now env cid key call ''accepted'' None [] s1")
    obtain acc where q2: "q2 = Inr acc"
      using assms limit clock False saved by (cases q2) (auto simp: run_command_def seq_def lift_res_def)
    obtain q3 s3 where ha: "on_ha (call_service (hx_client env) call) s2 = (q3, s3)"
      by (cases "on_ha (call_service (hx_client env) call) s2")
    have "conclude env cid key call d q3 s3 = (Inr q, s')"
      using assms limit clock False saved q2 ha
      by (simp add: run_command_def seq_def lift_res_def attempt_def)
    moreover have "keeps_ok env s s3"
      using ok1 framedD [OF save_now_ok saved] framedD [OF world_ok ha] hx_ok.trans by blast
    ultimately show thesis
      using conclude_ends hx_ok.trans that by metis
  qed
qed

definition delivery_call :: "pydict \<Rightarrow> service_call res" where
  "delivery_call delivery =
     rbind (dindex delivery ''envelope'') (\<lambda>e. rbind (py_dict e) validate_command_envelope)"

definition delivery_id :: "pydict \<Rightarrow> string" where
  "delivery_id delivery = py_str (dget delivery ''command_id'')"

lemma execute_cases:
  assumes "execute_command env delivery s = (q, s')"
  obtains (rejected) e where "q = Inl e" "same_world s s'" "keeps_ok env s s'"
  | (final) r where "current_receipt (delivery_id delivery) s = Some r" "is_terminal (Some r)"
      "q = Inr (Some r)" "same_world s s'" "keeps_ok env s s'"
  | (ran) key call d s1 where "delivery_call delivery = Inr call"
      "\<not> is_terminal (current_receipt (delivery_id delivery) s)" "same_world s s1" "keeps_ok env s s1"
      "dget delivery ''deadline_at'' = d"
      "run_command env (delivery_id delivery) key call d s1 = (q, s')"
      "dhas delivery ''command_id'' \<and> dhas delivery ''idempotency_key'' \<and> dhas delivery ''deadline_at''"
      "key = py_str (dget delivery ''idempotency_key'')"
proof (cases "dindex delivery ''command_id''")
  case (Inl e)
  with assms show thesis
    by (intro rejected) (auto simp: execute_command_def seq_def lift_res_def hx_same.refl hx_ok.refl)
next
  case cid: (Inr cid)
  then have id: "py_str cid = delivery_id delivery" by (simp add: delivery_id_def dindex_dget)
  show thesis
  proof (cases "dindex delivery ''idempotency_key''")
    case (Inl e)
    with assms cid show thesis
      by (intro rejected) (auto simp: execute_command_def seq_def lift_res_def hx_same.refl hx_ok.refl)
  next
    case key: (Inr key)
    show thesis
    proof (cases "delivery_call delivery")
      case (Inl e)
      with assms cid key show thesis
        by (intro rejected)
          (auto simp: execute_command_def delivery_call_def seq_def lift_res_def hx_same.refl hx_ok.refl)
    next
      case call: (Inr call)
      let ?existing = "current_receipt (delivery_id delivery) s"
      obtain s1 where get: "get_now env (delivery_id delivery) s = (Inr ?existing, s1)"
        by (simp add: get_now_effect)
      have s1: "same_world s s1" "keeps_ok env s s1"
        using framedD [OF same_world_get get] framedD [OF get_now_ok get] by simp_all
      have rest: "(if is_terminal ?existing then ret ?existing
           else seq (lift_res (dindex delivery ''deadline_at''))
                  (run_command env (delivery_id delivery) (py_str key) call)) s1 = (q, s')"
        using assms cid key call get
        by (simp add: execute_command_def delivery_call_def seq_Inr id cong: if_cong)
      show thesis
      proof (cases "is_terminal ?existing")
        case True
        then obtain r where r: "?existing = Some r" by (auto simp: is_terminal_def split: option.splits)
        from True rest have "q = Inr ?existing" "s' = s1" by (auto simp: ret_def)
        with r True s1 show thesis by (intro final) simp_all
      next
        case False
        show thesis
        proof (cases "dindex delivery ''deadline_at''")
          case (Inl e)
          with False rest s1 show thesis by (intro rejected) (auto simp: seq_def lift_res_def)
        next
          case (Inr d)
          with False rest have run: "run_command env (delivery_id delivery) (py_str key) call d s1 = (q, s')"
            by (simp add: seq_def lift_res_def)
          have present: "dhas delivery k" if "dindex delivery k = Inr v" for k v
            using that by (auto simp: dindex_def dhas_def split: option.splits)
          from run call False s1 Inr show thesis
            by (intro ran) (simp_all add: dindex_dget present [OF cid] present [OF key] present [OF Inr] dindex_dget [OF key])
        qed
      qed
    qed
  qed
qed

text \<open>
  A command with a terminal receipt is final: delivering it again sends nothing and, if it
  returns, returns that receipt, as long as the receipt is retained.
\<close>

theorem terminal_receipt_is_final:
  assumes "current_receipt (delivery_id delivery) s = Some r" "rc_status r \<in> {''executed'', ''failed'', ''timeout''}"
    and "execute_command env delivery s = (q, s')"
  shows "hx_world s' = hx_world s \<and> (isl q \<or> q = Inr (Some r))"
  using assms(3)
proof (cases rule: execute_cases)
  case (ran key call d s1)
  with assms(1,2) show ?thesis by (auto simp: is_terminal_def TERMINAL_STATUSES_def)
qed (use assms(1) in \<open>auto simp: same_world_def\<close>)

text \<open>
  An expired command is not carried out: when its deadline is not in the future, nothing is
  sent to Home Assistant.
\<close>

theorem expired_command_is_not_sent:
  assumes "deadline env (dget delivery ''deadline_at'') = Inr limit" "limit \<le> hx_now s"
    and "execute_command env delivery s = (q, s')"
  shows "hx_world s' = hx_world s"
  using assms(3)
proof (cases rule: execute_cases)
  case (ran key call d s1)
  have "limit \<le> hx_now s1" using assms(2) ran(3) by (simp add: same_world_def)
  then have "run_command env (delivery_id delivery) key call d s1 =
      save_now env (delivery_id delivery) key call ''timeout'' (Some ''command_deadline_expired'') []
        (snd (read_clock env s1))"
    using assms(1) ran(5) by (simp add: run_command_def seq_def lift_res_def read_clock_def)
  moreover have "same_world s1 (snd (read_clock env s1))"
    using same_world_clock by (simp add: framed_def)
  moreover have "same_world (snd (read_clock env s1)) (snd (save_now env (delivery_id delivery) key call
      ''timeout'' (Some ''command_deadline_expired'') [] (snd (read_clock env s1))))"
    using same_world_save by (simp add: framed_def)
  ultimately show ?thesis using ran(3,6) by (auto simp: same_world_def dest: arg_cong [of _ _ snd])
qed (auto simp: same_world_def)

section \<open>At most once\<close>

text \<open>
  A life of the executor is a list of deliveries. A command is done when its execution returns and
  calls left for Home Assistant in it.
\<close>

definition command_step :: "executor_env \<Rightarrow> pydict \<Rightarrow> executor \<Rightarrow> executor" where
  "command_step env delivery s = snd (execute_command env delivery s)"

definition command_does :: "executor_env \<Rightarrow> pydict \<Rightarrow> executor \<Rightarrow> string list" where
  "command_does env delivery s =
     (if isl (fst (execute_command env delivery s)) \<or>
         calls_sent (hx_world (command_step env delivery s)) = calls_sent (hx_world s)
      then [] else [delivery_id delivery])"

lemma execute_ok: "command_ok env s \<Longrightarrow> command_ok env (snd (execute_command env delivery s))"
proof -
  have conclude: "framed (keeps_ok env) (conclude env cid key call d result)" for cid key call d result
  proof (cases result)
    case (Inl e)
    then show ?thesis by (cases e) (auto simp: conclude_def intro: save_now_ok)
  next
    case (Inr response)
    have "framed (keeps_ok env) (case readback of None \<Rightarrow> save_now env cid key call st r ev
        | Some x \<Rightarrow> save_now env cid key call st' r' (ev' x))" for readback st r ev st' r' ev'
      by (cases readback) (auto intro: save_now_ok)
    then show ?thesis
      unfolding conclude_def Inr sum.case
      by (intro hx_ok.framed_seq hx_ok.framed_basic wait_ok clock_ok)
  qed
  have attempt: "framed (keeps_ok env) (attempt (on_ha m))" for m
    using world_ok [of env m] by (auto simp: framed_def attempt_def split: prod.split) (metis snd_conv)
  have "framed (keeps_ok env) (execute_command env delivery)"
    unfolding execute_command_def run_command_def
    by (intro hx_ok.framed_seq hx_ok.framed_basic hx_ok.framed_if get_now_ok clock_ok save_now_ok conclude attempt)
  then show "command_ok env s \<Longrightarrow> ?thesis" by (simp add: framed_def keeps_ok_def)
qed

lemma command_does_effect:
  assumes "command_ok env s" "k \<in> set (command_does env delivery s)"
  shows "k \<notin> terminal_now s \<and> k \<in> terminal_now (command_step env delivery s)"
proof -
  obtain q s' where run: "execute_command env delivery s = (q, s')"
    by (cases "execute_command env delivery s")
  have k: "k = delivery_id delivery" "calls_sent (hx_world s') \<noteq> calls_sent (hx_world s)" "\<not> isl q"
    using assms(2) run by (auto simp: command_does_def command_step_def split: if_splits)
  from run show ?thesis
  proof (cases rule: execute_cases)
    case (ran key call d s1)
    obtain x where q: "q = Inr x" using k(3) by (cases q) auto
    from run_command_ends [OF ran(6) [unfolded q]] obtain s2 status reason ev where
      "keeps_ok env s1 s2" "status \<in> set TERMINAL_STATUSES"
      "save_now env (delivery_id delivery) key call status reason ev s2 = (Inr x, s')" by metis
    then have "delivery_id delivery \<in> terminal_now s'"
      using save_now_terminal assms(1) ran(4) by (auto simp: keeps_ok_def)
    then show ?thesis using ran(2) run by (simp add: k command_step_def terminal_now_def)
  qed (use k in \<open>auto simp: same_world_def\<close>)
qed

interpretation commands: at_most_once "command_step env" "command_does env" terminal_now "command_ok env"
proof unfold_locales
  fix s op k
  assume ok: "command_ok env s"
  show "distinct (command_does env op s)" by (simp add: command_does_def)
  show "command_ok env (command_step env op s)" using execute_ok [OF ok] by (simp add: command_step_def)
  assume "k \<in> set (command_does env op s)"
  from command_does_effect [OF ok this]
  show "k \<notin> terminal_now s" "k \<in> terminal_now (command_step env op s)" by simp_all
qed

text \<open>
  C8: in any sequence of deliveries, as long as no terminal receipt passes its retention, no
  command id is carried out to completion twice, and none that had a terminal receipt at the start
  is carried out at all.
\<close>

theorem command_completes_at_most_once:
  assumes "command_ok env s" and "run_kept (command_step env) terminal_now deliveries s"
  shows "distinct (run_done (command_step env) (command_does env) deliveries s) \<and>
    set (run_done (command_step env) (command_does env) deliveries s) \<inter> terminal_now s = {}"
  using commands.run_done_distinct [OF assms] commands.run_avoids_claimed [OF assms] by blast

lemma terminal_now_rows:
  assumes "cid \<in> terminal_now s"
  shows "cid \<in> set (map rc_command_id (cs_rows (hx_receipts s)))"
proof -
  from assms obtain r where "receipt_of cid (prune_receipts (hx_now s) (hx_receipts s)) = Some r"
    by (auto simp: terminal_now_def current_receipt_def is_terminal_def split: option.splits)
  from receipt_of_SomeD [OF this] show ?thesis by auto
qed

section \<open>What a receipt says\<close>

lemma save_now_status:
  assumes "command_ok env s" "save_now env cid key call status reason ev s = (Inr (Some r), s')"
  shows "rc_status r = status"
proof -
  let ?n1 = "hx_now s" and ?st = "hx_receipts s"
  let ?n2 = "?n1 + int (hx_drift env (hx_tick s))"
  let ?n3 = "?n2 + int (hx_drift env (Suc (hx_tick s)))"
  show ?thesis
  proof (cases rule: save_cases [of cid ?n1 ?st key "hx_sha env" "envelope_dict call" ?n2 ?n3 status reason ev])
    case (conflict x)
    with assms(2) show ?thesis by (simp add: save_now_unfold Let_def)
  next
    case (saved r0 s2)
    have ok2: "receipts_ok s2"
      using assms(1) receipts_ok_upsert receipts_ok_prune by (auto simp: saved(2) command_ok_def)
    have "receipt_of cid (prune_receipts ?n3 s2) = Some r"
      using assms(2) saved(4) by (simp add: save_now_unfold Let_def)
    then have "r = r0"
      using receipt_of_prune [OF ok2, of cid ?n3] saved(3) by (auto split: if_splits)
    then show ?thesis by (simp add: saved(1))
  qed
qed

definition call_free :: "executor \<Rightarrow> executor \<Rightarrow> bool" where
  "call_free s s' \<longleftrightarrow> calls_sent (hx_world s') = calls_sent (hx_world s)"

interpretation hx_free: frame_condition call_free
  by unfold_locales (simp_all add: call_free_def)

lemma free_of_same_world: "framed same_world m \<Longrightarrow> framed call_free m"
  by (simp add: framed_def same_world_def call_free_def)

lemma free_of_no_call: "framed no_call m \<Longrightarrow> framed call_free m"
  by (simp add: framed_def no_call_def call_free_def)

text \<open>What follows the service call sends nothing more.\<close>

lemma conclude_free: "framed call_free (conclude env cid key call d result)"
proof (cases result)
  case (Inl e)
  then show ?thesis
    by (cases e) (auto simp: conclude_def intro: free_of_same_world same_world_save)
next
  case (Inr response)
  have "framed call_free (case readback of None \<Rightarrow> save_now env cid key call st r ev
      | Some x \<Rightarrow> save_now env cid key call st' r' (ev' x))" for readback st r ev st' r' ev'
    by (cases readback) (auto intro: free_of_same_world same_world_save)
  then show ?thesis
    unfolding conclude_def Inr sum.case
    by (intro hx_free.framed_seq hx_free.framed_basic free_of_no_call [OF no_call_wait]
        free_of_no_call [OF no_call_clock])
qed

lemma conclude_executed:
  assumes "command_ok env s" "conclude env cid key call d result s = (Inr (Some r), s')"
    and "rc_status r = ''executed''"
  shows "\<exists>response. result = Inr response"
proof (cases result)
  case (Inl e)
  have "rc_status r = status"
    if "save_now env cid key call status reason ev s = (Inr (Some r), s')" for status reason ev
    by (rule save_now_status [OF assms(1) that])
  with Inl assms(2,3) show ?thesis by (auto simp: conclude_def split: exn.splits)
qed simp

text \<open>
  C16: an \<open>executed\<close> receipt is truthful: when an execution that did not start from a terminal
  receipt returns one, the service call of its envelope was sent to Home Assistant, exactly once.
\<close>

theorem executed_receipt_was_sent:
  assumes "command_ok env s" "execute_command env delivery s = (Inr (Some r), s')"
    and "rc_status r = ''executed''" "\<not> is_terminal (current_receipt (delivery_id delivery) s)"
  shows "\<exists>call. delivery_call delivery = Inr call \<and>
    calls_sent (hx_world s') = calls_sent (hx_world s) @ [call_frame call]"
  using assms(2)
proof (cases rule: execute_cases)
  case (ran key call d s1)
  have ok1: "command_ok env s1" using assms(1) ran(4) by (simp add: keeps_ok_def)
  obtain limit where limit: "deadline env d = Inr limit"
    using ran(6) by (cases "deadline env d") (auto simp: run_command_def throw_def)
  obtain now s2 where clock: "read_clock env s1 = (Inr now, s2)" by (simp add: read_clock_def)
  have ok2: "command_ok env s2" using framedD [OF clock_ok clock] ok1 by (simp add: keeps_ok_def)
  have live: "now < limit"
  proof (rule ccontr)
    assume "\<not> now < limit"
    then have "save_now env (delivery_id delivery) key call ''timeout'' (Some ''command_deadline_expired'') [] s2 =
        (Inr (Some r), s')"
      using ran(6) limit clock by (simp add: run_command_def seq_Inr)
    from save_now_status [OF ok2 this] assms(3) show False by simp
  qed
  obtain q3 s3 where saved: "save_now env (delivery_id delivery) key call ''accepted'' None [] s2 = (q3, s3)"
    by (cases "save_now env (delivery_id delivery) key call ''accepted'' None [] s2")
  obtain acc where q3: "q3 = Inr acc"
    using ran(6) limit clock live saved by (cases q3) (auto simp: run_command_def seq_Inr seq_Inl)
  obtain q4 w where ha: "call_service (hx_client env) call (hx_world s3) = (q4, w)"
    by (cases "call_service (hx_client env) call (hx_world s3)")
  let ?s4 = "s3\<lparr>hx_world := w\<rparr>"
  have rest: "conclude env (delivery_id delivery) key call d q4 ?s4 = (Inr (Some r), s')"
    using ran(6) limit clock live saved q3 ha
    by (simp add: run_command_def seq_Inr attempt_def on_ha_def)
  have ok4: "command_ok env ?s4"
    using framedD [OF save_now_ok saved] ok2 by (simp add: keeps_ok_def command_ok_def)
  obtain response where "q4 = Inr response" using conclude_executed [OF ok4 rest assms(3)] by blast
  then have "calls_sent w = calls_sent (hx_world s3) @ [call_frame call]"
    using call_service_calls [of "hx_client env" call "hx_world s3"] ha by simp
  moreover have "hx_world s3 = hx_world s"
    using framedD [OF same_world_save saved] framedD [OF same_world_clock clock] ran(3)
    by (simp add: same_world_def)
  moreover have "calls_sent (hx_world s') = calls_sent w"
    using framedD [OF conclude_free rest] by (simp add: call_free_def)
  ultimately show ?thesis using ran(1) by simp
qed (use assms in simp_all)

section \<open>A readback that raises\<close>

text \<open>The stored receipt of a command, if there is one, is of this key and this envelope.\<close>

definition known_as :: "executor_env \<Rightarrow> string \<Rightarrow> string \<Rightarrow> service_call \<Rightarrow> command_store \<Rightarrow> bool" where
  "known_as env cid key call st \<longleftrightarrow> receipts_ok st \<and> (\<forall>x. receipt_of cid st = Some x \<longrightarrow>
     rc_idempotency_key x = key \<and> rc_digest x = command_envelope_digest (hx_sha env) (envelope_dict call))"

lemma known_prune: "known_as env cid key call st \<Longrightarrow> known_as env cid key call (prune_receipts now st)"
  by (auto simp: known_as_def receipts_ok_prune receipt_of_prune simp del: prune_receipts_rows
      split: option.splits if_splits)

lemma save_known:
  assumes "known_as env cid key call (hx_receipts s)"
  shows "\<not> isl (fst (save_now env cid key call status reason ev s))"
proof -
  let ?n1 = "hx_now s" and ?st = "hx_receipts s"
  let ?n2 = "?n1 + int (hx_drift env (hx_tick s))"
  let ?n3 = "?n2 + int (hx_drift env (Suc (hx_tick s)))"
  show ?thesis
  proof (cases rule: save_cases [of cid ?n1 ?st key "hx_sha env" "envelope_dict call" ?n2 ?n3 status reason ev])
    case (conflict x)
    with known_prune [OF assms, of ?n1] show ?thesis by (auto simp: known_as_def)
  next
    case (saved r s2)
    then show ?thesis by (simp add: save_now_unfold Let_def)
  qed
qed

lemma saved_receipt:
  assumes "command_ok env s" "save_now env cid key call status reason ev s = (Inr q, s')"
  shows "known_as env cid key call (hx_receipts s')"
    "\<exists>r. receipt_of cid (hx_receipts s') = Some r \<and> rc_status r = status"
proof -
  let ?n1 = "hx_now s" and ?t = "hx_tick s" and ?st = "hx_receipts s"
  let ?n2 = "?n1 + int (hx_drift env ?t)"
  let ?n3 = "?n2 + int (hx_drift env (Suc ?t))"
  have "\<exists>r. receipt_of cid (hx_receipts s') = Some r \<and> rc_status r = status \<and> rc_idempotency_key r = key \<and>
      rc_digest r = command_envelope_digest (hx_sha env) (envelope_dict call)"
  proof (cases rule: save_cases [of cid ?n1 ?st key "hx_sha env" "envelope_dict call" ?n2 ?n3 status reason ev])
    case (conflict x)
    with assms(2) show ?thesis by (simp add: save_now_unfold Let_def)
  next
    case (saved r s2)
    have ok2: "receipts_ok s2" "cs_retention_seconds s2 = cs_retention_seconds ?st"
      using assms(1) receipts_ok_upsert receipts_ok_prune by (auto simp: saved(2) command_ok_def)
    have "2 * int (hx_drift env (Suc ?t)) \<le> cs_retention_seconds ?st * 1000000"
      using assms(1) by (simp add: command_ok_def)
    then have "receipt_of cid (prune_receipts ?n3 s2) = Some r"
      using receipt_of_prune [OF ok2(1), of cid ?n3] saved(1,3) ok2(2) by simp
    moreover have "hx_receipts s' = prune_receipts ?n3 s2"
      using assms(2) saved(4) by (auto simp: save_now_unfold Let_def)
    ultimately show ?thesis by (simp add: saved(1))
  qed
  moreover have "receipts_ok (hx_receipts s')"
    using framedD [OF save_now_ok assms(2)] assms(1) by (simp add: keeps_ok_def command_ok_def)
  ultimately show "known_as env cid key call (hx_receipts s')"
    "\<exists>r. receipt_of cid (hx_receipts s') = Some r \<and> rc_status r = status"
    by (auto simp: known_as_def)
qed

text \<open>Once the command is known, all that can still raise is the readback, and it stores nothing.\<close>

lemma conclude_raises:
  assumes "known_as env cid key call (hx_receipts s)" "deadline env d = Inr limit"
    and "conclude env cid key call d result s = (Inl e, s')"
  shows "hx_receipts s' = hx_receipts s"
proof -
  have saves: "save_now env cid key call status reason ev t \<noteq> (Inl e, s')"
    if "hx_receipts t = hx_receipts s" for status reason ev t
    using save_known [of env cid key call t status reason ev] assms(1) that by auto
  show ?thesis
  proof (cases result)
    case (Inl x)
    with assms(3) saves show ?thesis by (auto simp: conclude_def split: exn.splits)
  next
    case (Inr response)
    let ?expected = "if sc_service call = ''turn_on'' then ''on'' else ''off''"
    obtain q1 s1 where wait: "wait_for_readback env (sc_entity_id call) ?expected limit s = (q1, s1)"
      by (cases "wait_for_readback env (sc_entity_id call) ?expected limit s")
    have s1: "hx_receipts s1 = hx_receipts s" using framedD [OF no_call_wait wait] by (simp add: no_call_def)
    obtain now s2 where clock: "read_clock env s1 = (Inr now, s2)" "hx_receipts s2 = hx_receipts s"
      using s1 by (simp add: read_clock_def)
    show ?thesis
    proof (cases q1)
      case (Inl x)
      with assms(2,3) Inr wait s1 show ?thesis by (simp add: conclude_def seq_def lift_res_def)
    next
      case (Inr readback)
      with assms(2,3) \<open>result = Inr response\<close> wait clock(1) saves [OF clock(2)] show ?thesis
        by (cases readback) (simp_all add: conclude_def seq_def lift_res_def)
    qed
  qed
qed

lemma run_command_live:
  assumes "deadline env d = Inr limit" "hx_now s < limit"
    and "save_now env cid key call ''accepted'' None [] (snd (read_clock env s)) = (Inr acc, s3)"
  shows "hx_world s3 = hx_world s"
    "run_command env cid key call d s =
       (case call_service (hx_client env) call (hx_world s) of (q, w) \<Rightarrow>
          conclude env cid key call d q (s3\<lparr>hx_world := w\<rparr>))"
proof -
  obtain s2 where clock: "read_clock env s = (Inr (hx_now s), s2)" by (simp add: read_clock_def)
  note saved = assms(3) [unfolded clock snd_conv]
  show world: "hx_world s3 = hx_world s"
    using framedD [OF same_world_save saved] framedD [OF same_world_clock clock] by (simp add: same_world_def)
  show "run_command env cid key call d s =
       (case call_service (hx_client env) call (hx_world s) of (q, w) \<Rightarrow>
          conclude env cid key call d q (s3\<lparr>hx_world := w\<rparr>))"
    using saved clock world assms(1,2)
    by (simp add: run_command_def seq_Inr attempt_def on_ha_def split: prod.split)
qed

lemma raised_after_call:
  assumes "command_ok env s" "run_command env cid key call d s = (Inl e, s')"
    and "calls_sent (hx_world s') \<noteq> calls_sent (hx_world s)" "deadline env d = Inr limit"
  shows "known_as env cid key call (hx_receipts s')"
    "\<exists>r. receipt_of cid (hx_receipts s') = Some r \<and> rc_status r = ''accepted''"
    "calls_sent (hx_world s') = calls_sent (hx_world s) @ [call_frame call]"
proof -
  obtain s2 where clock: "read_clock env s = (Inr (hx_now s), s2)" by (simp add: read_clock_def)
  have s2: "command_ok env s2" "hx_world s2 = hx_world s"
    using framedD [OF clock_ok clock] framedD [OF same_world_clock clock] assms(1)
    by (simp_all add: keeps_ok_def same_world_def)
  have quiet: "(Inl e, s') \<noteq> save_now env cid key call status reason ev s2" for status reason ev
    using framedD [OF same_world_save, of env cid key call status reason ev s2 "Inl e" s'] s2(2) assms(3)
    by (auto simp: same_world_def)
  have live: "hx_now s < limit"
  proof (rule ccontr)
    assume "\<not> hx_now s < limit"
    then have "run_command env cid key call d s =
        save_now env cid key call ''timeout'' (Some ''command_deadline_expired'') [] s2"
      using assms(4) clock by (simp add: run_command_def seq_Inr)
    with assms(2) have "(Inl e, s') = save_now env cid key call ''timeout'' (Some ''command_deadline_expired'') [] s2"
      by simp
    with quiet show False by blast
  qed
  obtain q3 s3 where saved: "save_now env cid key call ''accepted'' None [] s2 = (q3, s3)"
    by (cases "save_now env cid key call ''accepted'' None [] s2")
  obtain acc where q3: "q3 = Inr acc"
  proof (cases q3)
    case (Inl x)
    then have "(Inl e, s') = save_now env cid key call ''accepted'' None [] s2"
      using assms(2,4) clock live saved by (simp add: run_command_def seq_Inr seq_Inl)
    with quiet show thesis by blast
  qed (rule that)
  have accepted: "save_now env cid key call ''accepted'' None [] (snd (read_clock env s)) = (Inr acc, s3)"
    using saved clock q3 by simp
  obtain q w where ha: "call_service (hx_client env) call (hx_world s) = (q, w)"
    by (cases "call_service (hx_client env) call (hx_world s)")
  have rest: "conclude env cid key call d q (s3\<lparr>hx_world := w\<rparr>) = (Inl e, s')"
    using run_command_live(2) [OF assms(4) live accepted] assms(2) ha by simp
  note known = saved_receipt [OF s2(1) saved [unfolded q3]]
  have "hx_receipts s' = hx_receipts s3"
    using conclude_raises [OF _ assms(4) rest] known(1) by simp
  with known show "known_as env cid key call (hx_receipts s')"
    "\<exists>r. receipt_of cid (hx_receipts s') = Some r \<and> rc_status r = ''accepted''" by simp_all
  have "calls_sent (hx_world s') = calls_sent w"
    using framedD [OF conclude_free rest] by (simp add: call_free_def)
  then show "calls_sent (hx_world s') = calls_sent (hx_world s) @ [call_frame call]"
    using call_service_calls [of "hx_client env" call "hx_world s"] ha assms(3) by auto
qed

text \<open>A known command that is delivered in time is called for again, whatever its receipt says.\<close>

lemma known_is_called:
  assumes "command_ok env s" "known_as env cid key call (hx_receipts s)"
    and "deadline env d = Inr limit" "hx_now s < limit"
    and "call_service (hx_client env) call (hx_world s) = (Inr response, w)"
  shows "calls_sent (hx_world (snd (run_command env cid key call d s))) = calls_sent (hx_world s) @ [call_frame call]"
proof -
  have "hx_receipts (snd (read_clock env s)) = hx_receipts s" by (simp add: read_clock_def)
  with save_known [of env cid key call "snd (read_clock env s)" "''accepted''" None "[]"] assms(2)
  obtain acc s3 where "save_now env cid key call ''accepted'' None [] (snd (read_clock env s)) = (Inr acc, s3)"
    by (cases "fst (save_now env cid key call ''accepted'' None [] (snd (read_clock env s)))") (auto simp: prod_eq_iff)
  from run_command_live(2) [OF assms(3,4) this]
  have "run_command env cid key call d s = conclude env cid key call d (Inr response) (s3\<lparr>hx_world := w\<rparr>)"
    using assms(5) by simp
  moreover have "calls_sent (hx_world (snd (conclude env cid key call d (Inr response) (s3\<lparr>hx_world := w\<rparr>)))) = calls_sent w"
    using conclude_free by (simp add: framed_def call_free_def)
  ultimately show ?thesis
    using call_service_calls [of "hx_client env" call "hx_world s"] assms(5) by simp
qed

lemma execute_runs:
  assumes "dhas delivery ''command_id'' \<and> dhas delivery ''idempotency_key'' \<and> dhas delivery ''deadline_at''"
    and "delivery_call delivery = Inr call" "\<not> is_terminal (current_receipt (delivery_id delivery) s)"
  shows "execute_command env delivery s =
    run_command env (delivery_id delivery) (py_str (dget delivery ''idempotency_key'')) call
      (dget delivery ''deadline_at'') (snd (get_now env (delivery_id delivery) s))"
proof -
  have index: "dindex delivery ''command_id'' = Inr (dget delivery ''command_id'')"
    "dindex delivery ''idempotency_key'' = Inr (dget delivery ''idempotency_key'')"
    "dindex delivery ''deadline_at'' = Inr (dget delivery ''deadline_at'')"
    using assms(1) by (auto simp: dindex_def dget_def dhas_def)
  show ?thesis
    using assms(2,3) unfolding execute_command_def delivery_call_def delivery_id_def
    by (simp add: index seq_def lift_res_def get_now_effect)
qed

text \<open>
  C40: a command whose readback fails is carried out again. When an execution raises although its
  service call went out, as it does when reading the state back raises, the stored receipt still says
  \<open>accepted\<close>; and when Core delivers the command again, with whatever time, connections and clock
  by then, but before its deadline, and Home Assistant accepts the call, the same call is sent a
  second time.
\<close>

theorem failed_readback_repeats_the_call:
  assumes "command_ok env s" "execute_command env delivery s = (Inl e, s1)"
    and "calls_sent (hx_world s1) \<noteq> calls_sent (hx_world s)"
    and "hx_receipts s2 = hx_receipts s1" "delivery_call delivery = Inr call"
    and "deadline env (dget delivery ''deadline_at'') = Inr limit"
    and "hx_now s2 + int (hx_drift env (hx_tick s2)) < limit"
    and "call_service (hx_client env) call (hx_world s2) = (Inr response, w)"
  shows "(\<exists>r. receipt_of (delivery_id delivery) (hx_receipts s1) = Some r \<and> rc_status r = ''accepted'') \<and>
    calls_sent (hx_world s1) = calls_sent (hx_world s) @ [call_frame call] \<and>
    calls_sent (hx_world (snd (execute_command env delivery s2))) = calls_sent (hx_world s2) @ [call_frame call]"
  using assms(2)
proof (cases rule: execute_cases)
  case (ran key call' d t)
  let ?cid = "delivery_id delivery"
  have call: "call' = call" and d: "deadline env d = Inr limit"
    using ran(1,5) assms(5,6) by simp_all
  have ok: "command_ok env t" using assms(1) ran(4) by (simp add: keeps_ok_def)
  have world: "hx_world t = hx_world s" using ran(3) by (simp add: same_world_def)
  have "calls_sent (hx_world s1) \<noteq> calls_sent (hx_world t)" using assms(3) world by simp
  note first = raised_after_call [OF ok ran(6) [unfolded call] this d]
  have ok2: "command_ok env s2"
    using execute_ok [OF assms(1), of delivery] assms(2,4) by (simp add: command_ok_def)
  have known: "known_as env ?cid key call (hx_receipts s2)" using first(1) assms(4) by simp
  have "receipt_of ?cid (hx_receipts s2) = receipt_of ?cid (hx_receipts s1)" using assms(4) by simp
  then have again: "\<not> is_terminal (current_receipt ?cid s2)"
    using first(2) receipt_of_prune [of "hx_receipts s2" ?cid "hx_now s2"] ok2
    by (auto simp: current_receipt_def is_terminal_def TERMINAL_STATUSES_def command_ok_def
        simp del: prune_receipts_rows split: option.splits)
  let ?u = "snd (get_now env ?cid s2)"
  have u: "hx_world ?u = hx_world s2" "hx_now ?u < limit" "command_ok env ?u"
      "known_as env ?cid key call (hx_receipts ?u)"
    using assms(7) known_prune [OF known] get_now_ok [of env ?cid] ok2
    by (simp_all add: get_now_effect framed_def keeps_ok_def)
  have "calls_sent (hx_world (snd (execute_command env delivery s2))) = calls_sent (hx_world s2) @ [call_frame call]"
    using known_is_called [OF u(3,4) d u(2)] assms(8) execute_runs [OF ran(7) assms(5) again, of env] ran(5,8) u(1)
    by simp
  with first(2,3) world show ?thesis by simp
qed (use assms(3) in \<open>auto simp: same_world_def\<close>)

section \<open>How long a readback takes\<close>

lemma loop_attempts:
  "int (hw_attempts (hx_world (snd (readback_loop env entity expected limit s)))) \<le>
     int (hw_attempts (hx_world s)) + max 0 ((limit - hx_now s + 199999) div 200000)"
proof (induction env entity expected limit s rule: readback_loop.induct)
  case (1 env entity expected limit s)
  let ?s1 = "s\<lparr>hx_now := hx_now s + int (hx_drift env (hx_tick s)), hx_tick := Suc (hx_tick s)\<rparr>"
  have clock: "read_clock env s = (Inr (hx_now s), ?s1)" by (simp add: read_clock_def)
  obtain q2 s2 where ha: "on_ha (read_entity_state (hx_client env) entity) ?s1 = (q2, s2)"
    by (cases "on_ha (read_entity_state (hx_client env) entity) ?s1")
  have s2: "hw_attempts (hx_world s2) = Suc (hw_attempts (hx_world s))" "hx_now s2 = hx_now ?s1"
    using ha on_ha_clock [OF ha]
    by (auto simp: on_ha_def read_entity_state_def split: prod.splits) (metis with_socket_attempts snd_conv)
  show ?case
  proof (cases "hx_now s < limit")
    case False
    then show ?thesis by (subst readback_loop.simps) (simp add: clock)
  next
    case True
    then have once: "1 \<le> (limit - hx_now s + 199999) div 200000" by linarith
    show ?thesis
    proof (cases "\<exists>st. q2 = Inr st \<and> \<not> (case st of None \<Rightarrow> False | Some d \<Rightarrow> dget d ''state'' = PStr expected)")
      case again: True
      then obtain st where st: "q2 = Inr st"
        "\<not> (case st of None \<Rightarrow> False | Some d \<Rightarrow> dget d ''state'' = PStr expected)" by blast
      let ?s3 = "sleep_us env 200000 s2"
      have "hx_now s + 200000 \<le> hx_now ?s3" using s2(2) by (simp add: sleep_us_def)
      then have "(limit - hx_now ?s3 + 199999) div 200000 \<le> (limit - hx_now s + 199999) div 200000 - 1"
        by (simp add: zdiv_mono1 le_diff_eq flip: div_add_self2)
      moreover have "readback_loop env entity expected limit s = readback_loop env entity expected limit ?s3"
        using True st clock ha by (subst readback_loop.simps) simp
      moreover have "hw_attempts (hx_world ?s3) = Suc (hw_attempts (hx_world s))"
        using s2(1) by (simp add: sleep_us_def)
      ultimately show ?thesis
        using "1.IH" [OF clock [symmetric] refl True ha [symmetric] st] once by simp
    next
      case False
      then have "snd (readback_loop env entity expected limit s) = s2"
        using True clock ha by (subst readback_loop.simps) (auto split: sum.split)
      with s2(1) once show ?thesis by simp
    qed
  qed
qed

text \<open>
  Waiting for the readback always ends, with at most 25 reads of the state: the limit is at
  most 5 s away and every round sleeps 200 ms, however Home Assistant answers.
\<close>

theorem readback_polls_at_most_25_times:
  "hw_attempts (hx_world (snd (wait_for_readback env entity expected limit s))) \<le> hw_attempts (hx_world s) + 25"
proof -
  let ?s1 = "snd (read_clock env s)" and ?limit = "min limit (hx_now s + 5000000)"
  have "snd (wait_for_readback env entity expected limit s) =
      snd (readback_loop env entity expected ?limit ?s1)"
    by (simp add: wait_for_readback_def seq_def read_clock_def)
  moreover have "(?limit - hx_now ?s1 + 199999) div 200000 \<le> (5000000 + 199999) div 200000"
    by (rule zdiv_mono1) (simp_all add: read_clock_def)
  moreover have "hw_attempts (hx_world ?s1) = hw_attempts (hx_world s)" by (simp add: read_clock_def)
  ultimately show ?thesis
    using loop_attempts [of env entity expected ?limit ?s1] by simp
qed

section \<open>Concrete runs\<close>

definition sample_executor_env :: executor_env where
  "sample_executor_env = \<lparr>hx_sha = (\<lambda>_. ''d''),
     hx_fromiso = (\<lambda>t. if t = ''t9'' then Some (9000000, None) else None),
     hx_client = sample_client, hx_drift = (\<lambda>_. 1)\<rparr>"

definition sample_command :: pydict where
  "sample_command = [(''command_id'', PStr ''c''), (''idempotency_key'', PStr ''k''),
     (''envelope'', PDict [(''domain'', PStr ''light''), (''service'', PStr ''turn_on''),
        (''entity_id'', PStr ''light.porch''), (''service_data'', PDict [(''entity_id'', PStr ''light.porch'')])]),
     (''deadline_at'', PStr ''t9'')]"

text \<open>A peer that accepts every service call and refuses the connections in between\<close>

definition flaky_world :: ha_world where
  "flaky_world = \<lparr>hw_peer = (\<lambda>n timeout. if even n then Inr (sample_script 200, None)
       else Inl (TransportError ''refused'')), hw_attempts = 0, hw_conns = []\<rparr>"

definition sample_executor :: "ha_world \<Rightarrow> receipt list \<Rightarrow> executor" where
  "sample_executor w rows = \<lparr>hx_receipts = command_store_init 86400 (Some rows), hx_world = w,
     hx_now = 1000, hx_tick = 0\<rparr>"

definition old_receipt :: receipt where
  "old_receipt = \<lparr>rc_command_id = ''c'', rc_idempotency_key = ''k'', rc_digest = ''d'', rc_status = ''executed'',
     rc_reason = None, rc_evidence = [], rc_updated = 900\<rparr>"

lemma sample_current: "current_receipt (delivery_id sample_command) (sample_executor w [old_receipt]) = Some old_receipt"
  by (simp add: current_receipt_def sample_executor_def command_store_init_def receipt_of_def prune_receipts_def
      old_receipt_def delivery_id_def sample_command_def)

theorem terminal_receipt_is_final_witness:
  "hx_world (snd (execute_command sample_executor_env sample_command (sample_executor flaky_world [old_receipt]))) =
     flaky_world"
  using terminal_receipt_is_final [OF sample_current _ prod.collapse [symmetric]]
  by (simp add: old_receipt_def sample_executor_def)

theorem expired_command_is_not_sent_witness:
  "hx_world (snd (execute_command sample_executor_env sample_command
     ((sample_executor flaky_world [])\<lparr>hx_now := 9000000\<rparr>))) = flaky_world"
proof -
  have "deadline sample_executor_env (dget sample_command ''deadline_at'') = Inr 9000000" by code_simp
  from expired_command_is_not_sent [OF this _ prod.collapse [symmetric]]
  show ?thesis by (simp add: sample_executor_def)
qed

lemma sample_executor_ok: "command_ok sample_executor_env (sample_executor w [])"
  by (simp add: command_ok_def sample_executor_def receipts_ok_def command_store_init_def sample_executor_env_def)

lemma flaky_run:
  "fst (execute_command sample_executor_env sample_command (sample_executor flaky_world [])) = Inl (TransportError ''refused'')"
  "length (calls_sent (hx_world (snd (execute_command sample_executor_env sample_command (sample_executor flaky_world []))))) = 1"
  "hx_now (snd (execute_command sample_executor_env sample_command (sample_executor flaky_world []))) < 9000"
  "\<not> isl (fst (call_service sample_client (light_call ''turn_on'' ''light.porch'')
     (hx_world (snd (execute_command sample_executor_env sample_command (sample_executor flaky_world []))))))"
  by code_simp+

lemma sample_client_of: "sample_client = hx_client sample_executor_env"
  by (simp add: sample_executor_env_def)

lemma sample_delivery: "delivery_call sample_command = Inr (light_call ''turn_on'' ''light.porch'')"
    "deadline sample_executor_env (dget sample_command ''deadline_at'') = Inr 9000000"
  by code_simp+

theorem failed_readback_repeats_the_call_witness:
  "let s1 = snd (execute_command sample_executor_env sample_command (sample_executor flaky_world []));
       s3 = snd (execute_command sample_executor_env sample_command s1)
   in calls_sent (hx_world s1) = [call_frame (light_call ''turn_on'' ''light.porch'')] \<and>
     calls_sent (hx_world s3) = calls_sent (hx_world s1) @ [call_frame (light_call ''turn_on'' ''light.porch'')]"
proof -
  let ?call = "light_call ''turn_on'' ''light.porch''"
  have none: "calls_sent (hx_world (sample_executor flaky_world [])) = []"
    by (simp add: sample_executor_def flaky_world_def calls_sent_def)
  obtain s1 where run: "execute_command sample_executor_env sample_command (sample_executor flaky_world []) =
      (Inl (TransportError ''refused''), s1)"
    using flaky_run(1) by (cases "execute_command sample_executor_env sample_command (sample_executor flaky_world [])") simp
  have sent: "calls_sent (hx_world s1) \<noteq> calls_sent (hx_world (sample_executor flaky_world []))"
    using flaky_run(2) none by (auto simp: run)
  have live: "hx_now s1 + int (hx_drift sample_executor_env (hx_tick s1)) < 9000000"
    using flaky_run(3) by (simp add: run) (simp add: sample_executor_env_def)
  obtain response w where "call_service (hx_client sample_executor_env) ?call (hx_world s1) = (Inr response, w)"
    using flaky_run(4) unfolding run snd_conv sample_client_of
    by (cases "fst (call_service (hx_client sample_executor_env) ?call (hx_world s1))") (auto simp: prod_eq_iff)
  from failed_readback_repeats_the_call [OF sample_executor_ok run sent refl sample_delivery live this]
  show ?thesis by (simp add: run none)
qed

definition good_world :: ha_world where
  "good_world = \<lparr>hw_peer = (\<lambda>n timeout. Inr (if n = 0 then sample_script 200 else
     [((1, 1), Inr (frame_of_type ''auth_required'')), ((2, 2), Inr (frame_of_type ''auth_ok'')),
      ((3, 3), Inr [(''id'', PInt 201), (''success'', PBool True), (''result'', PList [PDict
         [(''entity_id'', PStr ''light.porch''), (''state'', PStr ''on'')]])])], None)),
     hw_attempts = 0, hw_conns = []\<rparr>"

lemma sample_not_terminal: "\<not> is_terminal (current_receipt cid (sample_executor w []))"
  by (simp add: current_receipt_def sample_executor_def command_store_init_def receipt_of_def is_terminal_def)

text \<open>
  The text of the acknowledgement's time plays no part in these runs: the evaluation leaves it as
  it stands.
\<close>

declare isoformat_def [code del]

lemma sample_executed:
  "case execute_command sample_executor_env sample_command (sample_executor good_world []) of
     (Inr (Some r), s') \<Rightarrow> rc_status r = ''executed'' | _ \<Rightarrow> False"
  by code_simp

theorem executed_receipt_was_sent_witness:
  "\<exists>call. calls_sent (hx_world (snd (execute_command sample_executor_env sample_command
     (sample_executor good_world [])))) = calls_sent good_world @ [call_frame call]"
proof -
  obtain r s' where run: "execute_command sample_executor_env sample_command (sample_executor good_world []) =
      (Inr (Some r), s')" "rc_status r = ''executed''"
    using sample_executed by (auto split: prod.splits sum.splits option.splits)
  from executed_receipt_was_sent [OF sample_executor_ok run sample_not_terminal] show ?thesis
    by (auto simp: run(1)) (auto simp: sample_executor_def)
qed

lemma sample_kept:
  "is_terminal (current_receipt ''c'' (command_step sample_executor_env sample_command
     (command_step sample_executor_env sample_command (sample_executor good_world []))))"
  by code_simp

lemma sample_rows:
  "map rc_command_id (cs_rows (hx_receipts (command_step sample_executor_env sample_command
     (sample_executor good_world [])))) = [''c'']"
  by code_simp

declare isoformat_def [code]

theorem command_completes_at_most_once_witness:
  "distinct (run_done (command_step sample_executor_env) (command_does sample_executor_env)
     [sample_command, sample_command] (sample_executor good_world []))"
proof -
  have none: "terminal_now (sample_executor good_world []) = {}"
    by (simp add: terminal_now_def sample_not_terminal)
  let ?s1 = "command_step sample_executor_env sample_command (sample_executor good_world [])"
  have "terminal_now ?s1 \<subseteq> {''c''}"
    using terminal_now_rows [of _ ?s1] by (auto simp: sample_rows simp del: set_map)
  then have "run_kept (command_step sample_executor_env) terminal_now [sample_command, sample_command]
      (sample_executor good_world [])"
    using none sample_kept by (auto simp: terminal_now_def)
  from command_completes_at_most_once [OF sample_executor_ok this] show ?thesis by blast
qed

end
