(* ===== verification/Identity.thy ===== *)
theory Identity
  imports Py_Values
begin

text \<open>
  The module \<open>identity.py\<close>: the connector's key and what it knows of its enrollment, in two files
  of the state directory. The file system is a map from paths to contents and modes; a file that
  holds JSON is kept as the value \<open>json.loads\<close> makes of it. The \<open>cryptography\<close> package is the
  parameter \<open>key_library\<close>: it makes and parses private keys, which are opaque texts here.
\<close>

section \<open>Files\<close>

datatype content = Json pyval | Raw string

type_synonym files = "string \<rightharpoonup> content \<times> int"

datatype fs_op =
    WriteBytes string content
  | Chmod string int
  | Replace string string

text \<open>
  A new file gets the mode of the process's umask, here the usual 0o644; writing an existing one
  keeps its mode.
\<close>

definition umask_mode :: int where
  "umask_mode = 420"

fun fs_step :: "fs_op \<Rightarrow> files \<Rightarrow> files" where
  "fs_step (WriteBytes p c) fs =
     fs(p \<mapsto> (c, case fs p of None \<Rightarrow> umask_mode | Some (_, m) \<Rightarrow> m))"
| "fs_step (Chmod p m) fs = (case fs p of None \<Rightarrow> fs | Some (c, _) \<Rightarrow> fs(p \<mapsto> (c, m)))"
| "fs_step (Replace p q) fs = (case fs p of None \<Rightarrow> fs | Some x \<Rightarrow> fs(q \<mapsto> x, p := None))"

section \<open>The identity\<close>

definition SIGNATURE_ALGORITHM_ED25519 :: string where
  "SIGNATURE_ALGORITHM_ED25519 = ''Ed25519''"

definition BOOTSTRAP_PAIRING :: string where "BOOTSTRAP_PAIRING = ''pairing_code''"
definition BOOTSTRAP_PROVISIONED :: string where "BOOTSTRAP_PROVISIONED = ''device_secret''"
definition BINDING_AWAITING_ACTIVATION :: string where
  "BINDING_AWAITING_ACTIVATION = ''awaiting_activation''"
definition BINDING_AWAITING_BINDING :: string where "BINDING_AWAITING_BINDING = ''awaiting_binding''"
definition BINDING_READY :: string where "BINDING_READY = ''ready''"

text \<open>What comes from the JSON file is kept as it was read; a missing key is \<open>None\<close>.\<close>

record identity =
  private_key :: string
  enrollment_id :: pyval
  connector_id :: pyval
  credential_id :: pyval
  exchange_receipt :: pyval
  signature_algorithm :: string
  tenant_id :: pyval
  product_key :: pyval
  device_name :: pyval
  identity_id :: pyval
  binding_state :: pyval
  bound_space_node_id :: pyval
  bootstrap_mode :: pyval

definition effective_bootstrap_mode :: "identity \<Rightarrow> pyval" where
  "effective_bootstrap_mode i = py_or (bootstrap_mode i) (PStr BOOTSTRAP_PAIRING)"

record key_library =
  kl_generate :: "nat \<Rightarrow> string" \<comment> \<open>the n-th key \<open>Ed25519PrivateKey.generate\<close> makes\<close>
  kl_pem :: "string \<Rightarrow> string" \<comment> \<open>\<open>private_bytes\<close>, PKCS8 in PEM\<close>
  kl_load :: "string \<Rightarrow> (bool \<times> string) option"
    \<comment> \<open>\<open>load_pem_private_key\<close>: whether the key is Ed25519, and the key\<close>
  kl_public_pem :: "string \<Rightarrow> string"
  kl_sign :: "string \<Rightarrow> string \<Rightarrow> string"

definition sign_challenge :: "key_library \<Rightarrow> identity \<Rightarrow> string \<Rightarrow> string res" where
  "sign_challenge kl i message =
     (if signature_algorithm i \<noteq> SIGNATURE_ALGORITHM_ED25519
      then Inl (ValueError (''unsupported connector signature algorithm: '' @ signature_algorithm i))
      else Inr (kl_sign kl (private_key i) message))"

definition public_key_pem :: "key_library \<Rightarrow> identity \<Rightarrow> string" where
  "public_key_pem kl i = kl_public_pem kl (private_key i)"

section \<open>The store\<close>

record identity_store =
  is_key_path :: string
  is_state_path :: string
  is_files :: files
  is_generated :: nat \<comment> \<open>keys generated so far\<close>

definition identity_store_init :: "string \<Rightarrow> files \<Rightarrow> nat \<Rightarrow> identity_store" where
  "identity_store_init state_dir fs n =
     \<lparr>is_key_path = state_dir @ ''/connector_ed25519.pem'',
      is_state_path = state_dir @ ''/connector_identity.json'', is_files = fs, is_generated = n\<rparr>"

text \<open>
  \<open>path.with_suffix(path.suffix + ".tmp")\<close>; both paths have a suffix. The write goes to a
  temporary file, which then replaces the target.
\<close>

definition temporary :: "string \<Rightarrow> string" where
  "temporary path = path @ ''.tmp''"

definition private_mode :: int where
  "private_mode = 384"

definition write_private_bytes :: "string \<Rightarrow> content \<Rightarrow> fs_op list" where
  "write_private_bytes path payload =
     [WriteBytes (temporary path) payload, Chmod (temporary path) private_mode,
      Replace (temporary path) path, Chmod path private_mode]"

definition write_private_json :: "string \<Rightarrow> pydict \<Rightarrow> fs_op list" where
  "write_private_json path payload = write_private_bytes path (Json (PDict (stored_payload payload)))"

definition run_fs :: "fs_op list \<Rightarrow> identity_store \<Rightarrow> identity_store" where
  "run_fs ops st = st\<lparr>is_files := fold fs_step ops (is_files st)\<rparr>"

definition load_state :: "identity_store \<Rightarrow> pyval res" where
  "load_state st =
     (case is_files st (is_state_path st) of
        None \<Rightarrow> Inr (PDict [])
      | Some (Json v, _) \<Rightarrow> Inr v
      | Some (Raw _, _) \<Rightarrow> Inl (ValueError ''JSONDecodeError''))"

definition load_or_create_key :: "key_library \<Rightarrow> (identity_store, string) eff" where
  "load_or_create_key kl st =
     (case is_files st (is_key_path st) of
        Some (c, _) \<Rightarrow>
          (case (case c of Raw text \<Rightarrow> kl_load kl text | Json _ \<Rightarrow> None) of
             None \<Rightarrow> (Inl (ValueError ''Could not deserialize key data''), st)
           | Some (ed25519, key) \<Rightarrow>
               if ed25519 then (Inr key, st)
               else (Inl (ValueError ''connector key is not Ed25519''), st))
      | None \<Rightarrow>
          (let key = kl_generate kl (is_generated st)
           in (Inr key, run_fs (write_private_bytes (is_key_path st) (Raw (kl_pem kl key)))
                 (st\<lparr>is_generated := Suc (is_generated st)\<rparr>))))"

definition identity_of :: "string \<Rightarrow> pydict \<Rightarrow> identity" where
  "identity_of key state =
     \<lparr>private_key = key, enrollment_id = dget state ''enrollment_id'',
      connector_id = dget state ''connector_id'', credential_id = dget state ''credential_id'',
      exchange_receipt = dget state ''exchange_receipt'',
      signature_algorithm = SIGNATURE_ALGORITHM_ED25519, tenant_id = dget state ''tenant_id'',
      product_key = dget state ''product_key'', device_name = dget state ''device_name'',
      identity_id = dget state ''identity_id'', binding_state = dget state ''binding_state'',
      bound_space_node_id = dget state ''bound_space_node_id'',
      bootstrap_mode = dget state ''bootstrap_mode''\<rparr>"

definition load_or_create :: "key_library \<Rightarrow> (identity_store, identity) eff" where
  "load_or_create kl =
     seq (load_or_create_key kl) (\<lambda>key.
     seq (asks load_state) (\<lambda>loaded.
     seq (lift_res (rbind loaded as_dict)) (\<lambda>state.
       case dget state ''signature_algorithm'' of
         PNone \<Rightarrow>
           (let state' = dset state ''signature_algorithm'' (PStr SIGNATURE_ALGORITHM_ED25519)
            in seq (\<lambda>st. (Inr (), run_fs (write_private_json (is_state_path st) state') st)) (\<lambda>_.
               ret (identity_of key state')))
       | v \<Rightarrow>
           if v = PStr SIGNATURE_ALGORITHM_ED25519 then ret (identity_of key state)
           else throw (ValueError (''unsupported connector signature algorithm: '' @ py_str v)))))"

text \<open>\<open>{**self._load_state(), **changes}\<close>: anything but a mapping is a \<open>TypeError\<close>.\<close>

definition merge_state :: "pydict \<Rightarrow> (identity_store, unit) eff" where
  "merge_state changes st =
     (case load_state st of
        Inl e \<Rightarrow> (Inl e, st)
      | Inr (PDict state) \<Rightarrow>
          (Inr (), run_fs (write_private_json (is_state_path st) (dmerge state changes)) st)
      | Inr _ \<Rightarrow> (Inl (TypeError ''not a mapping''), st))"

definition save_exchange :: "key_library \<Rightarrow> pyval \<Rightarrow> pyval \<Rightarrow> pyval \<Rightarrow> pyval \<Rightarrow> (identity_store, identity) eff" where
  "save_exchange kl enrollment connector credential receipt =
     seq (merge_state
       [(''enrollment_id'', enrollment), (''connector_id'', connector),
        (''credential_id'', credential), (''exchange_receipt'', receipt),
        (''bootstrap_mode'', PStr BOOTSTRAP_PAIRING), (''binding_state'', PStr BINDING_READY)])
       (\<lambda>_. load_or_create kl)"

definition when_truthy :: "string \<Rightarrow> pyval \<Rightarrow> pydict \<Rightarrow> pydict" where
  "when_truthy k v d = (if truthy v then dset d k v else d)"

definition activation_payload ::
    "pyval \<Rightarrow> pyval \<Rightarrow> pyval \<Rightarrow> pyval \<Rightarrow> string \<Rightarrow> pyval \<Rightarrow> pyval \<Rightarrow> pyval \<Rightarrow> pydict" where
  "activation_payload tenant product device ident binding space connector credential =
     when_truthy ''credential_id'' credential (when_truthy ''connector_id'' connector
       [(''tenant_id'', tenant), (''product_key'', product), (''device_name'', device),
        (''identity_id'', ident), (''binding_state'', PStr binding),
        (''bound_space_node_id'', space), (''bootstrap_mode'', PStr BOOTSTRAP_PROVISIONED)])"

definition save_activation ::
    "key_library \<Rightarrow> pyval \<Rightarrow> pyval \<Rightarrow> pyval \<Rightarrow> pyval \<Rightarrow> string \<Rightarrow> pyval \<Rightarrow> pyval \<Rightarrow> pyval \<Rightarrow>
     (identity_store, identity) eff" where
  "save_activation kl tenant product device ident binding space connector credential =
     seq (merge_state (activation_payload tenant product device ident binding space connector credential))
       (\<lambda>_. load_or_create kl)"

definition save_binding_state ::
    "key_library \<Rightarrow> string \<Rightarrow> pyval \<Rightarrow> pyval \<Rightarrow> pyval \<Rightarrow> (identity_store, identity) eff" where
  "save_binding_state kl binding space connector credential =
     seq (merge_state (when_truthy ''credential_id'' credential (when_truthy ''connector_id'' connector
       (when_truthy ''bound_space_node_id'' space [(''binding_state'', PStr binding)]))))
       (\<lambda>_. load_or_create kl)"

section \<open>Writing a private file\<close>

text \<open>
  The two files of the store and their temporary files are four different paths, as they are in
  any state directory.
\<close>

definition store_paths :: "identity_store \<Rightarrow> bool" where
  "store_paths st \<longleftrightarrow> distinct [is_key_path st, is_state_path st, temporary (is_key_path st),
     temporary (is_state_path st)]"

lemma store_paths_init: "store_paths (identity_store_init dir fs n)"
  by (simp add: store_paths_def identity_store_init_def temporary_def)

lemma temporary_neq [simp]: "temporary p \<noteq> p" "p \<noteq> temporary p"
  by (simp_all add: temporary_def)

lemma run_fs_simps [simp]:
  "is_key_path (run_fs ops st) = is_key_path st"
  "is_state_path (run_fs ops st) = is_state_path st"
  "is_generated (run_fs ops st) = is_generated st"
  "store_paths (run_fs ops st) = store_paths st"
  by (simp_all add: run_fs_def store_paths_def)

lemma take_write:
  "take n (write_private_bytes p c) \<in>
     {[], [WriteBytes (temporary p) c], [WriteBytes (temporary p) c, Chmod (temporary p) private_mode],
      [WriteBytes (temporary p) c, Chmod (temporary p) private_mode, Replace (temporary p) p],
      write_private_bytes p c}"
proof -
  consider "n = 0" | "n = 1" | "n = 2" | "n = 3" | m where "n = Suc (Suc (Suc (Suc m)))"
    by (metis One_nat_def Suc_1 numeral_3_eq_3 not0_implies_Suc)
  then show ?thesis by cases (simp_all add: write_private_bytes_def numeral_2_eq_2 numeral_3_eq_3)
qed

lemma write_interrupted:
  "fold fs_step (take n (write_private_bytes p c)) fs p = fs p \<or>
   fold fs_step (take n (write_private_bytes p c)) fs p = Some (c, private_mode)"
  using take_write [of n p c] by (auto simp: write_private_bytes_def)

lemma write_done: "fold fs_step (write_private_bytes p c) fs p = Some (c, private_mode)"
  by (simp add: write_private_bytes_def)

lemma write_elsewhere:
  "q \<noteq> p \<Longrightarrow> q \<noteq> temporary p \<Longrightarrow> fold fs_step (take n (write_private_bytes p c)) fs q = fs q"
  using take_write [of n p c] by (auto simp: write_private_bytes_def)

lemma write_elsewhere_all:
  "q \<noteq> p \<Longrightarrow> q \<noteq> temporary p \<Longrightarrow> fold fs_step (write_private_bytes p c) fs q = fs q"
  using write_elsewhere [of q p 4 c fs] by (simp add: write_private_bytes_def)

lemma load_state_written:
  "load_state (run_fs (write_private_json (is_state_path st) d) st) = Inr (PDict (stored_payload d))"
  by (simp add: load_state_def write_private_json_def run_fs_def write_done)

lemma load_state_key_written:
  assumes "store_paths st"
  shows "load_state (run_fs (write_private_bytes (is_key_path st) c) st) = load_state st"
proof -
  have "is_state_path st \<noteq> is_key_path st" "is_state_path st \<noteq> temporary (is_key_path st)"
    using assms by (auto simp: store_paths_def)
  then show ?thesis by (simp add: load_state_def run_fs_def write_elsewhere_all)
qed

text \<open>
  C18: a crash while the identity is written costs nothing that was stored: at whatever point the
  write stops, the state file holds what it held before or all of what was to be written, the
  key file is untouched, and a state file that has been replaced is readable by its owner only.
\<close>

theorem crash_keeps_identity:
  assumes "store_paths st"
    and "crashed = run_fs (take n (write_private_json (is_state_path st) d)) st"
  shows "(load_state crashed = load_state st \<or> load_state crashed = Inr (PDict (stored_payload d))) \<and>
    is_files crashed (is_key_path st) = is_files st (is_key_path st) \<and>
    (is_files crashed (is_state_path st) = is_files st (is_state_path st) \<or>
     map_option snd (is_files crashed (is_state_path st)) = Some private_mode)"
proof -
  let ?c = "Json (PDict (stored_payload d))"
  have key: "is_files crashed (is_key_path st) = is_files st (is_key_path st)"
    using assms by (simp add: write_private_json_def run_fs_def write_elsewhere store_paths_def)
  have "is_files crashed (is_state_path st) = is_files st (is_state_path st) \<or>
      is_files crashed (is_state_path st) = Some (?c, private_mode)"
    using write_interrupted [of n "is_state_path st" ?c "is_files st"] assms(2)
    by (simp add: write_private_json_def run_fs_def)
  then show ?thesis using key assms(2) by (auto simp: load_state_def)
qed

text \<open>
  While a new key is written, the private key lies in the temporary file with the mode the
  umask gives, readable by everyone, until \<open>os.chmod\<close> takes that away.
\<close>

theorem key_is_readable_while_written:
  assumes "store_paths st" "is_files st (temporary (is_key_path st)) = None"
  shows "is_files (run_fs (take 1 (write_private_bytes (is_key_path st) (Raw (kl_pem kl key)))) st)
    (temporary (is_key_path st)) = Some (Raw (kl_pem kl key), umask_mode)"
  using assms by (simp add: run_fs_def write_private_bytes_def)

section \<open>What is loaded\<close>

lemma identity_of_signature [simp]:
  "identity_of key (dset d ''signature_algorithm'' v) = identity_of key d"
  by (simp add: identity_of_def)

lemma load_key_frame:
  assumes "load_or_create_key kl st = (r, st1)" "store_paths st"
  shows "load_state st1 = load_state st \<and> is_key_path st1 = is_key_path st \<and>
    is_state_path st1 = is_state_path st \<and> store_paths st1"
proof (cases "is_files st (is_key_path st)")
  case None
  let ?st = "st\<lparr>is_generated := Suc (is_generated st)\<rparr>"
  have "store_paths ?st" "load_state ?st = load_state st"
    using assms(2) by (simp_all add: store_paths_def load_state_def)
  with assms None show ?thesis
    using load_state_key_written [of ?st] by (auto simp: load_or_create_key_def Let_def)
next
  case (Some f)
  obtain c m where "f = (c, m)" by (cases f)
  with assms Some show ?thesis
    by (cases c) (auto simp: load_or_create_key_def split: option.splits if_splits)
qed

text \<open>A successful load, with the state it leaves\<close>

lemma load_or_create_Inr:
  assumes "load_or_create kl st = (Inr i, st')" "store_paths st"
  obtains key st1 d where "load_or_create_key kl st = (Inr key, st1)" "load_state st = Inr (PDict d)"
    "i = identity_of key d"
    "dget d ''signature_algorithm'' = PStr SIGNATURE_ALGORITHM_ED25519 \<and> st' = st1 \<or>
     dget d ''signature_algorithm'' = PNone \<and>
     st' = run_fs (write_private_json (is_state_path st1)
       (dset d ''signature_algorithm'' (PStr SIGNATURE_ALGORITHM_ED25519))) st1"
proof -
  obtain r st1 where k: "load_or_create_key kl st = (r, st1)" by (cases "load_or_create_key kl st")
  with assms obtain key where r: "r = Inr key"
    by (cases r) (auto simp: load_or_create_def seq_def)
  have frame: "load_state st1 = load_state st" using load_key_frame [OF k assms(2)] by simp
  have run: "load_or_create kl st = (seq (lift_res (rbind (load_state st) as_dict)) (\<lambda>state.
       case dget state ''signature_algorithm'' of
         PNone \<Rightarrow>
           (let state' = dset state ''signature_algorithm'' (PStr SIGNATURE_ALGORITHM_ED25519)
            in seq (\<lambda>st. (Inr (), run_fs (write_private_json (is_state_path st) state') st)) (\<lambda>_.
               ret (identity_of key state')))
       | v \<Rightarrow>
           if v = PStr SIGNATURE_ALGORITHM_ED25519 then ret (identity_of key state)
           else throw (ValueError (''unsupported connector signature algorithm: '' @ py_str v)))) st1"
    using k r frame by (simp add: load_or_create_def seq_def asks_def)
  with assms(1) obtain d where d: "load_state st = Inr (PDict d)"
    by (cases "load_state st") (auto simp: as_dict_def eff_simps split: pyval.splits)
  have "i = identity_of key d \<and>
     (dget d ''signature_algorithm'' = PStr SIGNATURE_ALGORITHM_ED25519 \<and> st' = st1 \<or>
      dget d ''signature_algorithm'' = PNone \<and>
      st' = run_fs (write_private_json (is_state_path st1)
       (dset d ''signature_algorithm'' (PStr SIGNATURE_ALGORITHM_ED25519))) st1)"
    using run assms(1) d
    by (auto simp: as_dict_def eff_simps Let_def split: pyval.splits if_splits)
  then show thesis using that [OF k [unfolded r] d] by blast
qed

section \<open>Restarts\<close>

text \<open>
  A PEM text that \<open>private_bytes\<close> wrote is read back as the key it was made from.
\<close>

definition keys_reload :: "key_library \<Rightarrow> bool" where
  "keys_reload kl \<longleftrightarrow> (\<forall>k. kl_load kl (kl_pem kl k) = Some (True, k))"

text \<open>
  A state file this program wrote is in its stored form; a missing one is too.
\<close>

definition state_written :: "identity_store \<Rightarrow> bool" where
  "state_written st \<longleftrightarrow> (\<forall>d. load_state st = Inr (PDict d) \<longrightarrow> stored_payload d = d)"

lemma key_kept:
  assumes "load_or_create_key kl st = (Inr key, st1)" "keys_reload kl"
  shows "load_or_create_key kl st1 = (Inr key, st1)"
proof (cases "is_files st (is_key_path st)")
  case None
  with assms show ?thesis
    by (auto simp: load_or_create_key_def Let_def run_fs_def write_done keys_reload_def)
next
  case (Some f)
  obtain c m where "f = (c, m)" by (cases f)
  with assms Some show ?thesis
    by (cases c) (auto simp: load_or_create_key_def split: option.splits if_splits)
qed

lemma key_kept_state:
  assumes "load_or_create_key kl st = (r, st)" "store_paths st"
  shows "load_or_create_key kl (run_fs (write_private_json (is_state_path st) d) st) =
    (r, run_fs (write_private_json (is_state_path st) d) st)"
proof -
  have ne: "is_key_path st \<noteq> is_state_path st" "is_key_path st \<noteq> temporary (is_state_path st)"
    using assms(2) by (auto simp: store_paths_def)
  have same: "is_files (run_fs (write_private_json (is_state_path st) d) st) (is_key_path st) =
      is_files st (is_key_path st)"
    using write_elsewhere_all [OF ne] by (simp add: run_fs_def write_private_json_def)
  show ?thesis
  proof (cases "is_files st (is_key_path st)")
    case None
    with assms(1) have "is_generated st = Suc (is_generated st)"
      by (auto simp: load_or_create_key_def Let_def run_fs_def dest: arg_cong [where f = is_generated])
    then show ?thesis by simp
  next
    case (Some f)
    then show ?thesis using assms(1) same
      by (auto simp: load_or_create_key_def split: option.splits if_splits content.splits prod.splits)
  qed
qed

lemma identity_of_norm:
  "stored_payload d = d \<Longrightarrow> identity_of key (stored_payload (dset d ''signature_algorithm'' v)) = identity_of key d"
proof -
  assume "stored_payload d = d"
  then have "json_norm (dget d k) = dget d k" for k
    using dget_stored_payload [of d k] by simp
  then show ?thesis by (simp add: identity_of_def)
qed

text \<open>
  C17: the connector keeps its identity over restarts: loading it again, after it was loaded or
  created once, gives the same identity with the same private key, and writes nothing.
\<close>

theorem restart_keeps_identity:
  assumes "store_paths st" "keys_reload kl" "state_written st"
    and "load_or_create kl st = (Inr i, st')"
  shows "load_or_create kl st' = (Inr i, st')"
proof -
  obtain key st1 d where k: "load_or_create_key kl st = (Inr key, st1)"
    and d: "load_state st = Inr (PDict d)" "i = identity_of key d"
    and st': "dget d ''signature_algorithm'' = PStr SIGNATURE_ALGORITHM_ED25519 \<and> st' = st1 \<or>
     dget d ''signature_algorithm'' = PNone \<and>
     st' = run_fs (write_private_json (is_state_path st1)
       (dset d ''signature_algorithm'' (PStr SIGNATURE_ALGORITHM_ED25519))) st1"
    using load_or_create_Inr [OF assms(4,1)] .
  have frame: "load_state st1 = Inr (PDict d)" "store_paths st1"
    using load_key_frame [OF k assms(1)] d(1) by simp_all
  have again: "load_or_create_key kl st1 = (Inr key, st1)" using key_kept [OF k assms(2)] .
  have reload: "load_or_create kl st2 = (Inr (identity_of key e), st2)"
    if "load_or_create_key kl st2 = (Inr key, st2)" "load_state st2 = Inr (PDict e)"
      "dget e ''signature_algorithm'' = PStr SIGNATURE_ALGORITHM_ED25519" for st2 e
    using that by (simp add: load_or_create_def as_dict_def eff_simps)
  from st' show ?thesis
  proof
    assume "dget d ''signature_algorithm'' = PStr SIGNATURE_ALGORITHM_ED25519 \<and> st' = st1"
    then show ?thesis using reload [OF again frame(1)] d(2) by simp
  next
    let ?e = "dset d ''signature_algorithm'' (PStr SIGNATURE_ALGORITHM_ED25519)"
    assume *: "dget d ''signature_algorithm'' = PNone \<and> st' = run_fs (write_private_json (is_state_path st1) ?e) st1"
    have "identity_of key (stored_payload ?e) = i"
      using assms(3) d by (simp add: state_written_def identity_of_norm)
    then show ?thesis
      using reload [of st' "stored_payload ?e"] key_kept_state [OF again frame(2)] load_state_written *
      by simp
  qed
qed

text \<open>
  Recording an activation only ever adds to the identity. What the activation does not
  carry is kept as it was: without a connector and a credential in it, both stay, and so do the
  enrollment and the private key.
\<close>

theorem activation_keeps_the_rest:
  assumes "store_paths st" "load_state st = Inr (PDict d)" "\<not> truthy conn" "\<not> truthy cred"
    and "save_activation kl t p n ident b space conn cred st = (Inr i, st')"
  shows "connector_id i = json_norm (dget d ''connector_id'') \<and>
    credential_id i = json_norm (dget d ''credential_id'') \<and>
    enrollment_id i = json_norm (dget d ''enrollment_id'') \<and>
    exchange_receipt i = json_norm (dget d ''exchange_receipt'') \<and>
    binding_state i = PStr b \<and> bootstrap_mode i = PStr BOOTSTRAP_PROVISIONED"
proof -
  let ?c = "activation_payload t p n ident b space conn cred"
  let ?st = "run_fs (write_private_json (is_state_path st) (dmerge d ?c)) st"
  have "load_or_create kl ?st = (Inr i, st')"
    using assms(2,5) by (simp add: save_activation_def merge_state_def seq_def)
  from load_or_create_Inr [OF this] assms(1) obtain key where
    "i = identity_of key (stored_payload (dmerge d ?c))"
    by (auto simp: load_state_written)
  moreover have "dget (dmerge d ?c) k = dget d k"
    if "k \<in> {''connector_id'', ''credential_id'', ''enrollment_id'', ''exchange_receipt''}" for k
    using that assms(3,4) by (auto simp: activation_payload_def when_truthy_def dmerge_def)
  moreover have "dget (dmerge d ?c) ''binding_state'' = PStr b"
      "dget (dmerge d ?c) ''bootstrap_mode'' = PStr BOOTSTRAP_PROVISIONED"
    using assms(3,4) by (simp_all add: activation_payload_def when_truthy_def dmerge_def)
  ultimately show ?thesis by (simp add: identity_of_def)
qed

section \<open>Witnesses\<close>

definition sample_keys :: key_library where
  "sample_keys = \<lparr>kl_generate = (\<lambda>n. ''seed''), kl_pem = (\<lambda>k. ''PEM'' @ k),
     kl_load = (\<lambda>t. Some (True, drop 3 t)), kl_public_pem = (\<lambda>k. ''PUBLIC'' @ k),
     kl_sign = (\<lambda>k m. k @ m)\<rparr>"

definition sample_store :: "pydict \<Rightarrow> identity_store" where
  "sample_store state = identity_store_init ''/data''
     (\<lambda>p. if p = ''/data/connector_identity.json'' then Some (Json (PDict state), private_mode) else None) 0"

lemma sample_store_loads: "load_state (sample_store d) = Inr (PDict d)"
  by (simp add: sample_store_def load_state_def identity_store_init_def)

theorem crash_keeps_identity_witness:
  "load_state (run_fs (take 2 (write_private_json (is_state_path (sample_store [])) [(''a'', PNone)])) (sample_store [])) =
     Inr (PDict [])"
  using crash_keeps_identity [OF _ refl, of "sample_store []" 2 "[(''a'', PNone)]"]
  by (simp add: sample_store_loads sample_store_def identity_store_init_def run_fs_def load_state_def
      write_private_json_def write_private_bytes_def store_paths_def temporary_def)

theorem key_is_readable_while_written_witness:
  "is_files (run_fs (take 1 (write_private_bytes (is_key_path (sample_store [])) (Raw (kl_pem sample_keys ''seed''))))
     (sample_store [])) (temporary (is_key_path (sample_store []))) = Some (Raw ''PEMseed'', 420)"
  using key_is_readable_while_written [of "sample_store []" sample_keys "''seed''"]
  by (simp add: sample_store_def identity_store_init_def store_paths_def temporary_def sample_keys_def
      umask_mode_def)

theorem restart_keeps_identity_witness:
  "let s = sample_store [(''connector_id'', PStr ''c1'')]; q = load_or_create sample_keys s
   in \<exists>i. fst q = Inr i \<and> connector_id i = PStr ''c1'' \<and> private_key i = ''seed'' \<and>
      load_or_create sample_keys (snd q) = (Inr i, snd q)"
proof -
  let ?s = "sample_store [(''connector_id'', PStr ''c1'')]"
  obtain r s' where q: "load_or_create sample_keys ?s = (r, s')" by (cases "load_or_create sample_keys ?s")
  have "load_state (sample_store d) = Inr (PDict d)" for d by (rule sample_store_loads)
  then have r: "r = Inr (identity_of ''seed'' [(''connector_id'', PStr ''c1'')])"
    using q
    by (auto simp: load_or_create_def load_or_create_key_def eff_simps Let_def as_dict_def
      identity_of_def sample_store_def identity_store_init_def load_state_key_written store_paths_def temporary_def
      sample_keys_def load_state_def run_fs_def write_private_bytes_def split: prod.splits)
  have paths: "store_paths ?s"
    by (simp add: sample_store_def store_paths_init)
  have "keys_reload sample_keys" by (simp add: keys_reload_def sample_keys_def)
  moreover have "state_written ?s"
    by (auto simp: state_written_def sample_store_loads stored_payload_def)
  ultimately show ?thesis
    using restart_keeps_identity [OF paths _ _ q [unfolded r]] q r
    by (simp add: Let_def identity_of_def)
qed

theorem activation_keeps_the_rest_witness:
  "let q = save_activation sample_keys (PStr ''t'') (PStr ''p'') (PStr ''d'') PNone ''awaiting_binding''
       PNone PNone PNone (sample_store [(''connector_id'', PStr ''c1''),
         (''signature_algorithm'', PStr ''Ed25519'')])
   in \<exists>i. fst q = Inr i \<and> connector_id i = PStr ''c1'' \<and> binding_state i = PStr ''awaiting_binding''"
proof -
  let ?d = "[(''connector_id'', PStr ''c1''), (''signature_algorithm'', PStr ''Ed25519'')]"
  let ?s = "sample_store ?d"
  let ?run = "save_activation sample_keys (PStr ''t'') (PStr ''p'') (PStr ''d'') PNone ''awaiting_binding''
       PNone PNone PNone ?s"
  obtain r s' where q: "?run = (r, s')" by (cases ?run)
  have "isl r = False"
    using q
    by (auto simp: save_activation_def merge_state_def load_or_create_def load_or_create_key_def eff_simps Let_def as_dict_def
        sample_store_def identity_store_init_def store_paths_def temporary_def activation_payload_def
        when_truthy_def dmerge_def SIGNATURE_ALGORITHM_ED25519_def
        sample_keys_def load_state_def run_fs_def write_private_json_def write_private_bytes_def)
  then obtain i where i: "r = Inr i" by (cases r) auto
  have "store_paths ?s" by (simp add: sample_store_def store_paths_init)
  from activation_keeps_the_rest [OF this sample_store_loads _ _ q [unfolded i]] q i
  show ?thesis by (simp add: Let_def)
qed

end
