(* ===== verification/Core_Client.thy ===== *)
theory Core_Client
  imports Identity Timestamps
begin

text \<open>
  The module \<open>core_client.py\<close>: the HTTP client of the Hub API of IoT Core. The \<open>httpx\<close> package
  and the server behind it are the parameter \<open>ce_peer\<close>: what it answers to a request, given the
  requests that were sent before it, or the exception the package raises. A client records the
  requests it handed over. Identifiers that Core sends are JSON strings; one of another type
  would count as its \<open>str\<close> here. The reading of \<open>datetime.now\<close> a method takes is its
  argument \<open>now\<close>.
\<close>

section \<open>Requests and answers\<close>

record http_request =
  rq_method :: string
  rq_url :: string
  rq_json :: "pydict option"
  rq_headers :: "(string \<times> string) list"
  rq_timeout :: "int option"

record http_response =
  rs_status :: int
  rs_json :: "pyval option" \<comment> \<open>\<open>response.json()\<close>; \<open>None\<close>: it raises \<open>ValueError\<close>\<close>
  rs_text :: string

record core_env =
  ce_peer :: "http_request list \<Rightarrow> http_request \<Rightarrow> http_response res"
  ce_keys :: key_library
  ce_fromiso :: iso_parser
  ce_local_to_utc :: "int \<Rightarrow> int" \<comment> \<open>\<open>astimezone\<close> of a reading without offset\<close>
  ce_uuid :: "nat \<Rightarrow> string" \<comment> \<open>the n-th \<open>uuid.uuid4().hex\<close>\<close>

record core_client =
  cc_base_url :: string
  cc_token :: pyval
  cc_token_expires :: "time option"
  cc_log :: "http_request list"

definition core_client_init :: "string \<Rightarrow> core_client" where
  "core_client_init base_url =
     \<lparr>cc_base_url = rstrip_slashes base_url, cc_token = PNone, cc_token_expires = None, cc_log = []\<rparr>"

record hub_session =
  session_id :: string
  integration_instance_id :: string
  lease_generation :: int
  lease_expires_at :: time
  resume_cursor :: "pydict option"
  effective_grants :: "string list" \<comment> \<open>a frozenset: only membership and sorting are used\<close>

definition allows :: "hub_session \<Rightarrow> string \<Rightarrow> bool" where
  "allows s grant = (grant \<in> set (effective_grants s))"

section \<open>Text and time\<close>

fun has_text :: "string \<Rightarrow> string \<Rightarrow> bool" where
  "has_text p [] = (p = [])"
| "has_text p (c # s) = (prefix p (c # s) \<or> has_text p s)"

text \<open>\<open>s.split(sep, 1)[1]\<close>\<close>

fun after_text :: "string \<Rightarrow> string \<Rightarrow> string option" where
  "after_text p [] = (if p = [] then Some [] else None)"
| "after_text p (c # s) = (if prefix p (c # s) then Some (drop (length p) (c # s)) else after_text p s)"

definition session_id_from_path :: "string \<Rightarrow> string res" where
  "session_id_from_path path =
     (case after_text ''/sessions/'' path of
        None \<Rightarrow> Inl (OtherError ''IndexError'')
      | Some rest \<Rightarrow> Inr (takeWhile (\<lambda>c. c \<noteq> CHR ''/'') rest))"

text \<open>\<open>base64.urlsafe_b64encode(...).decode("ascii").rstrip("=")\<close>\<close>

definition b64_char :: "nat \<Rightarrow> char" where
  "b64_char n = (if n < 26 then char_of (65 + n) else if n < 52 then char_of (71 + n)
     else if n < 62 then char_of (n - 4) else if n = 62 then CHR ''-'' else CHR ''_'')"

fun b64_text :: "nat list \<Rightarrow> string" where
  "b64_text [] = []"
| "b64_text [a] = [b64_char (a div 4), b64_char (a mod 4 * 16)]"
| "b64_text [a, b] = [b64_char (a div 4), b64_char (a mod 4 * 16 + b div 16), b64_char (b mod 16 * 4)]"
| "b64_text (a # b # c # rest) =
     [b64_char (a div 4), b64_char (a mod 4 * 16 + b div 16), b64_char (b mod 16 * 4 + c div 64),
      b64_char (c mod 64)] @ b64_text rest"

definition urlsafe_unpadded :: "string \<Rightarrow> string" where
  "urlsafe_unpadded bytes = b64_text (map of_char bytes)"

text \<open>
  \<open>_parse_time\<close>: a number is a POSIX time (years 1 to 9999), rounded half to even to
  microseconds; a text is ISO 8601.
\<close>

definition round_half_even :: "rat \<Rightarrow> int" where
  "round_half_even q =
     (let f = \<lfloor>q\<rfloor>; r = q - of_int f
      in if r < 1 / 2 \<or> r = 1 / 2 \<and> even f then f else f + 1)"

definition from_timestamp :: "fval \<Rightarrow> time res" where
  "from_timestamp v =
     (case v of
        Fin q \<Rightarrow>
          (let t = round_half_even (q * 1000000)
           in if - 62135596800 * 1000000 \<le> t \<and> t < 253402300800 * 1000000 then Inr t
              else Inl (ValueError ''year is out of range''))
      | NaN \<Rightarrow> Inl (ValueError ''cannot convert float NaN to integer'')
      | _ \<Rightarrow> Inl (OtherError ''OverflowError''))"

definition core_parse_time :: "core_env \<Rightarrow> pyval \<Rightarrow> time res" where
  "core_parse_time env v =
     (case num_of v of
        Some x \<Rightarrow> from_timestamp x
      | None \<Rightarrow>
          (case v of
             PStr s \<Rightarrow>
               (case ce_fromiso env (replace_zulu s) of
                  None \<Rightarrow> Inl (ValueError ''Invalid isoformat string'')
                | Some (t, None) \<Rightarrow> Inr (ce_local_to_utc env t)
                | Some (t, Some offset) \<Rightarrow> Inr (t - offset))
           | _ \<Rightarrow> Inl (AttributeError ''replace'')))"

section \<open>Reading an answer\<close>

definition answer_data :: "http_response \<Rightarrow> pyval" where
  "answer_data r =
     (case rs_json r of Some (PDict d) \<Rightarrow> dget d ''data'' | _ \<Rightarrow> PNone)"

definition INVALID_SESSION_DETAILS :: "string list" where
  "INVALID_SESSION_DETAILS =
     [''Hub session is not active'', ''stale Hub session lease generation'',
      ''Hub session lease expired'', ''Hub session token binding mismatch'',
      ''Hub session has no token binding'']"

definition invalid_session_detail :: "http_response \<Rightarrow> string \<Rightarrow> string option" where
  "invalid_session_detail response path =
     (if \<not> has_text ''/api/hub/v1/sessions/'' path \<or> rs_status response \<notin> {403, 409} then None
      else
        let detail = (case answer_data response of
              PStr s \<Rightarrow> Some s
            | PDict d \<Rightarrow> (case dget d ''detail'' of PStr s \<Rightarrow> Some s | _ \<Rightarrow> None)
            | _ \<Rightarrow> None)
        in case detail of None \<Rightarrow> None
           | Some s \<Rightarrow> if s \<in> set INVALID_SESSION_DETAILS then Some s else None)"

definition LEGACY_LEASE_CONFLICT_DETAIL :: string where
  "LEGACY_LEASE_CONFLICT_DETAIL = ''Hub connector already has an active session lease''"

definition retry_after :: "pyval \<Rightarrow> fval option" where
  "retry_after v =
     (case v of
        PInt i \<Rightarrow> (if 0 \<le> i then Some (Fin (of_int i)) else None)
      | PFloat (Fin q) _ \<Rightarrow> (if 0 \<le> q then Some (Fin q) else None)
      | PFloat PosInf _ \<Rightarrow> Some PosInf
      | _ \<Rightarrow> None)"

definition lease_expiry :: "core_env \<Rightarrow> pyval \<Rightarrow> time option" where
  "lease_expiry env v =
     (case v of
        PStr s \<Rightarrow> (case core_parse_time env (PStr s) of Inr t \<Rightarrow> Some t | Inl _ \<Rightarrow> None)
      | _ \<Rightarrow> None)"

definition lease_conflict :: "core_env \<Rightarrow> http_response \<Rightarrow> string \<Rightarrow> exn option" where
  "lease_conflict env response path =
     (if path \<noteq> ''/api/hub/v1/sessions'' \<or> rs_status response \<noteq> 409 then None
      else
        case answer_data response of
          PStr s \<Rightarrow>
            (if s = LEGACY_LEASE_CONFLICT_DETAIL then Some (HubLeaseConflictError None None) else None)
        | PDict d \<Rightarrow>
            (if dget d ''reason_code'' \<noteq> PStr ''active_lease_conflict'' then None
             else Some (HubLeaseConflictError (retry_after (dget d ''retry_after_seconds''))
                    (lease_expiry env (dget d ''active_lease_expires_at''))))
        | _ \<Rightarrow> None)"

text \<open>What \<open>_request\<close> makes of an answer; \<open>raise_for_status\<close> takes anything but 2xx.\<close>

definition check_response :: "core_env \<Rightarrow> string \<Rightarrow> http_response \<Rightarrow> pydict res" where
  "check_response env path response =
     (case invalid_session_detail response path of
        Some detail \<Rightarrow>
          rbind (session_id_from_path path) (\<lambda>sid. Inl (HubSessionInvalidError sid detail))
      | None \<Rightarrow>
          (case lease_conflict env response path of
             Some e \<Rightarrow> Inl e
           | None \<Rightarrow>
               if rs_status response < 200 \<or> 300 \<le> rs_status response
               then Inl (HTTPStatusError (rs_status response))
               else (case rs_json response of
                       None \<Rightarrow> Inl (ValueError ''JSONDecodeError'')
                     | Some (PDict body) \<Rightarrow> dict_or_empty (dget body ''data'')
                     | Some _ \<Rightarrow> Inl (AttributeError ''get''))))"

definition TERMINAL_ACTIVATION_STATUSES :: "int list" where
  "TERMINAL_ACTIVATION_STATUSES = [400, 403, 404, 409, 422]"

definition activation_error :: "http_response \<Rightarrow> exn" where
  "activation_error response =
     (case (case rs_json response of
              None \<Rightarrow> Inr (take 200 (rs_text response))
            | Some (PDict body) \<Rightarrow>
                Inr (str_or_empty (py_or (dget body ''data'') (dget body ''message'')))
            | Some _ \<Rightarrow> Inl (AttributeError ''get'')) of
        Inl e \<Rightarrow> e
      | Inr detail \<Rightarrow>
          HubActivationError
            (if detail = [] then ''activation rejected with HTTP '' @ int_text (rs_status response) else detail)
            (rs_status response)
            (rs_status response \<in> set TERMINAL_ACTIVATION_STATUSES \<and> \<not> has_text ''too many failed'' detail))"

section \<open>Sending\<close>

definition send_request ::
    "core_env \<Rightarrow> string \<Rightarrow> string \<Rightarrow> pydict option \<Rightarrow> (string \<times> string) list \<Rightarrow> bool \<Rightarrow> int option \<Rightarrow>
     (core_client, http_response) eff" where
  "send_request env method path json headers authenticated timeout c =
     (if authenticated \<and> \<not> truthy (cc_token c) then (Inl (RuntimeError ''HUB_TOKEN_MISSING''), c)
      else
        let request = \<lparr>rq_method = method, rq_url = cc_base_url c @ path, rq_json = json,
              rq_headers = headers @
                (if authenticated then [(''Authorization'', ''Bearer '' @ py_str (cc_token c))] else []),
              rq_timeout = timeout\<rparr>
        in (ce_peer env (cc_log c) request, c\<lparr>cc_log := cc_log c @ [request]\<rparr>))"

definition core_request ::
    "core_env \<Rightarrow> string \<Rightarrow> string \<Rightarrow> pydict option \<Rightarrow> (string \<times> string) list \<Rightarrow> bool \<Rightarrow> int option \<Rightarrow>
     (core_client, pydict) eff" where
  "core_request env method path json headers authenticated timeout =
     seq (send_request env method path json headers authenticated timeout)
       (\<lambda>response. lift_res (check_response env path response))"

text \<open>The two kinds of call: without a token, and \<open>POST\<close> with the bearer token\<close>

definition open_post :: "core_env \<Rightarrow> string \<Rightarrow> pydict \<Rightarrow> (core_client, pydict) eff" where
  "open_post env path json = core_request env ''POST'' path (Some json) [] False None"

definition bearer_post :: "core_env \<Rightarrow> string \<Rightarrow> pydict \<Rightarrow> (core_client, pydict) eff" where
  "bearer_post env path json = core_request env ''POST'' path (Some json) [] True None"

definition session_path :: "hub_session \<Rightarrow> string \<Rightarrow> string" where
  "session_path session rest = ''/api/hub/v1/sessions/'' @ session_id session @ rest"

section \<open>Enrollment and activation\<close>

definition exchange ::
    "core_env \<Rightarrow> string \<Rightarrow> string \<Rightarrow> string \<Rightarrow> string \<Rightarrow> string \<Rightarrow> string \<Rightarrow> (core_client, pydict) eff" where
  "exchange env pairing_code installation_id display_name public_pem runtime_kind algorithm =
     open_post env ''/api/hub/v1/enrollments/exchange''
       [(''enrollment_id'', PStr (takeWhile (\<lambda>c. c \<noteq> CHR ''.'') pairing_code)),
        (''pairing_code'', PStr pairing_code), (''installation_id'', PStr installation_id),
        (''display_name'', PStr display_name), (''public_key_pem'', PStr public_pem),
        (''signature_algorithm'', PStr algorithm), (''contract_version'', PStr ''1.0''),
        (''manifest'', PDict [(''runtime'', PStr runtime_kind), (''contract_version'', PStr ''1.0'')])]"

definition activate ::
    "core_env \<Rightarrow> time \<Rightarrow> string \<Rightarrow> string \<Rightarrow> string \<Rightarrow> string \<Rightarrow> string \<Rightarrow> string \<Rightarrow> string \<Rightarrow> pydict \<Rightarrow>
     (core_client, pydict) eff" where
  "activate env now tenant product device secret public_pem installation_id algorithm health c =
     (let path = ''/api/hub/v1/gateways/activate'';
          payload = [(''tenant_id'', PStr tenant), (''product_key'', PStr product),
            (''device_name'', PStr device), (''device_secret'', PStr secret),
            (''public_key_pem'', PStr public_pem), (''signature_algorithm'', PStr algorithm),
            (''timestamp'', PStr (isoformat now)), (''nonce'', PStr (ce_uuid env (length (cc_log c)))),
            (''installation_id'', PStr installation_id)] @
            (if health = [] then [] else [(''health'', PDict health)])
      in seq (send_request env ''POST'' path (Some payload) [] False None) (\<lambda>response.
           case check_response env path response of
             Inl (HTTPStatusError _) \<Rightarrow> throw (activation_error response)
           | r \<Rightarrow> lift_res r) c)"

definition enrollment_status :: "core_env \<Rightarrow> string \<Rightarrow> string \<Rightarrow> (core_client, pydict) eff" where
  "enrollment_status env enrollment receipt =
     core_request env ''GET'' (''/api/hub/v1/enrollments/'' @ enrollment) None
       [(''X-Hub-Exchange-Receipt'', receipt)] False None"

section \<open>Tokens\<close>

definition authenticate :: "core_env \<Rightarrow> identity \<Rightarrow> (core_client, unit) eff" where
  "authenticate env i =
     (if \<not> truthy (connector_id i) \<or> \<not> truthy (credential_id i)
      then throw (RuntimeError ''HUB_IDENTITY_NOT_ENROLLED'')
      else
        seq (open_post env ''/api/hub/v1/auth/challenges''
          [(''connector_id'', connector_id i), (''credential_id'', credential_id i),
           (''contract_version'', PStr ''1.0'')]) (\<lambda>challenge.
        if py_or (dget challenge ''signature_algorithm'') (PStr SIGNATURE_ALGORITHM_ED25519) \<noteq>
           PStr (Identity.signature_algorithm i)
        then throw (RuntimeError ''HUB_SIGNATURE_ALGORITHM_MISMATCH'')
        else
          seq (lift_res (rbind (dindex challenge ''canonical_message'') (\<lambda>m.
                 case m of PStr message \<Rightarrow> sign_challenge (ce_keys env) i message
                 | _ \<Rightarrow> Inl (AttributeError ''encode'')))) (\<lambda>signature.
          seq (lift_res (dindex challenge ''challenge_id'')) (\<lambda>challenge_id.
          seq (lift_res (dindex challenge ''nonce'')) (\<lambda>nonce.
          seq (open_post env ''/api/hub/v1/auth/token''
            [(''challenge_id'', challenge_id), (''nonce'', nonce),
             (''signature'', PStr (urlsafe_unpadded signature)),
             (''contract_version'', PStr ''1.0''), (''ttl_seconds'', PInt 900)]) (\<lambda>token.
          seq (lift_res (dindex token ''access_token'')) (\<lambda>access_token.
          seq (modify (\<lambda>c. c\<lparr>cc_token := access_token\<rparr>)) (\<lambda>_.
          seq (lift_res (rbind (dindex token ''expires_at'') (core_parse_time env))) (\<lambda>expires.
            modify (\<lambda>c. c\<lparr>cc_token_expires := Some expires\<rparr>))))))))))"

definition rebind_session_token :: "core_env \<Rightarrow> hub_session \<Rightarrow> (core_client, pydict) eff" where
  "rebind_session_token env session =
     bearer_post env (session_path session ''/token'')
       [(''lease_generation'', PInt (lease_generation session))]"

definition token_current :: "time \<Rightarrow> core_client \<Rightarrow> bool" where
  "token_current now c \<longleftrightarrow> cc_token c \<noteq> PNone \<and>
     (case cc_token_expires c of None \<Rightarrow> False | Some t \<Rightarrow> 60 * 1000000 \<le> t - now)"

definition ensure_token ::
    "core_env \<Rightarrow> time \<Rightarrow> identity \<Rightarrow> hub_session option \<Rightarrow> (core_client, unit) eff" where
  "ensure_token env now i session c =
     (if token_current now c then (Inr (), c)
      else
        seq (authenticate env i) (\<lambda>_.
          case session of
            None \<Rightarrow> ret ()
          | Some s \<Rightarrow> seq (rebind_session_token env s) (\<lambda>_. ret ())) c)"

section \<open>The session\<close>

text \<open>\<open>[f(item) for item in row.get(key) or []]\<close>\<close>

definition row_items :: "pydict \<Rightarrow> string \<Rightarrow> (pyval \<Rightarrow> 'a res) \<Rightarrow> 'a list res" where
  "row_items row key f = rbind (py_list (dget row key)) (rmap f)"

definition session_of :: "core_env \<Rightarrow> pydict \<Rightarrow> hub_session res" where
  "session_of env row =
     rbind (dindex row ''session_id'') (\<lambda>sid.
     rbind (dindex row ''integration_instance_id'') (\<lambda>instance.
     rbind (rbind (dindex row ''lease_generation'') py_int) (\<lambda>generation.
     rbind (rbind (dindex row ''lease_expires_at'') (core_parse_time env)) (\<lambda>expires.
     rbind (if truthy (dget row ''resume_cursor'')
            then rbind (py_dict (dget row ''resume_cursor'')) (\<lambda>d. Inr (Some d)) else Inr None) (\<lambda>cursor.
     rbind (row_items row ''effective_grants'' (\<lambda>v. Inr (py_str v))) (\<lambda>grants.
       Inr \<lparr>session_id = py_str sid, integration_instance_id = py_str instance,
             lease_generation = generation, lease_expires_at = expires, resume_cursor = cursor,
             effective_grants = grants\<rparr>))))))"

definition connect_session ::
    "core_env \<Rightarrow> time \<Rightarrow> identity \<Rightarrow> pyval \<Rightarrow> (core_client, hub_session) eff" where
  "connect_session env now i cursor =
     seq (ensure_token env now i None) (\<lambda>_.
     seq (bearer_post env ''/api/hub/v1/sessions''
       [(''contract_version'', PStr ''1.0''), (''lease_owner'', PStr ''zediot-hub-connector''),
        (''resume_cursor'', cursor)]) (\<lambda>row.
       lift_res (session_of env row)))"

text \<open>Every method on a session: the token first, then one request under the session's path\<close>

definition session_call ::
    "core_env \<Rightarrow> time \<Rightarrow> identity \<Rightarrow> hub_session \<Rightarrow> string \<Rightarrow> pydict \<Rightarrow> (core_client, pydict) eff" where
  "session_call env now i session rest json =
     seq (ensure_token env now i (Some session)) (\<lambda>_. bearer_post env (session_path session rest) json)"

definition generation_field :: "hub_session \<Rightarrow> string \<times> pyval" where
  "generation_field session = (''lease_generation'', PInt (lease_generation session))"

definition core_heartbeat ::
    "core_env \<Rightarrow> time \<Rightarrow> identity \<Rightarrow> hub_session \<Rightarrow> pydict \<Rightarrow> int \<Rightarrow> int \<Rightarrow> int \<Rightarrow> string \<Rightarrow>
     (core_client, pydict) eff" where
  "core_heartbeat env now i session cursor depth bytes dropped circuit =
     session_call env now i session ''/heartbeat''
       [generation_field session, (''cursor'', PDict cursor), (''queue_depth'', PInt depth),
        (''queue_bytes'', PInt bytes), (''dropped_count'', PInt dropped),
        (''local_platform_health'', PStr (if circuit = ''closed'' then ''healthy'' else ''degraded'')),
        (''reason_code'', if circuit = ''closed'' then PNone else PStr (''core_circuit_'' @ circuit))]"

definition disconnect_session ::
    "core_env \<Rightarrow> hub_session \<Rightarrow> string \<Rightarrow> (core_client, pydict) eff" where
  "disconnect_session env session reason c =
     (if \<not> truthy (cc_token c) then (Inl (RuntimeError ''HUB_TOKEN_MISSING''), c)
      else core_request env ''POST'' (session_path session ''/disconnect'')
        (Some [generation_field session, (''reason_code'', PStr reason)]) [] True (Some 5) c)"

text \<open>\<open>{"lease_generation": ..., **payload}\<close>\<close>

definition core_upload_snapshot ::
    "core_env \<Rightarrow> time \<Rightarrow> identity \<Rightarrow> hub_session \<Rightarrow> pydict \<Rightarrow> (core_client, pydict) eff" where
  "core_upload_snapshot env now i session payload =
     session_call env now i session ''/snapshots'' (dmerge [generation_field session] payload)"

definition core_upload_events ::
    "core_env \<Rightarrow> time \<Rightarrow> identity \<Rightarrow> hub_session \<Rightarrow> pydict \<Rightarrow> (core_client, pydict) eff" where
  "core_upload_events env now i session payload =
     session_call env now i session ''/events'' (dmerge [generation_field session] payload)"

definition claim_commands ::
    "core_env \<Rightarrow> time \<Rightarrow> identity \<Rightarrow> hub_session \<Rightarrow> int \<Rightarrow> (core_client, pydict list) eff" where
  "claim_commands env now i session limit =
     seq (session_call env now i session ''/commands/claim''
       [generation_field session, (''limit'', PInt limit)]) (\<lambda>row.
       lift_res (row_items row ''items'' py_dict))"

definition acknowledge_command ::
    "core_env \<Rightarrow> time \<Rightarrow> identity \<Rightarrow> hub_session \<Rightarrow> pyval \<Rightarrow> string \<Rightarrow> pyval \<Rightarrow> pydict \<Rightarrow>
     (core_client, pydict) eff" where
  "acknowledge_command env now i session delivery status reason evidence =
     session_call env now i session (''/commands/'' @ py_str delivery @ ''/ack'')
       [generation_field session, (''status'', PStr status), (''reason_code'', reason),
        (''evidence'', PDict evidence)]"

definition claim_rule_packages ::
    "core_env \<Rightarrow> time \<Rightarrow> identity \<Rightarrow> hub_session \<Rightarrow> int \<Rightarrow> (core_client, pydict) eff" where
  "claim_rule_packages env now i session limit =
     session_call env now i session ''/rule-packages/claim''
       [generation_field session, (''limit'', PInt limit)]"

text \<open>\<open>later\<close> is the clock's reading for \<open>reported_at\<close>, after the token was seen to.\<close>

definition acknowledge_rule_package ::
    "core_env \<Rightarrow> time \<Rightarrow> time \<Rightarrow> identity \<Rightarrow> hub_session \<Rightarrow> string \<Rightarrow> string \<Rightarrow> string \<Rightarrow> string \<Rightarrow> pyval \<Rightarrow>
     pydict \<Rightarrow> (core_client, pydict) eff" where
  "acknowledge_rule_package env now later i session package receipt hash status reason evidence =
     session_call env now i session (''/rule-packages/'' @ package @ ''/receipt'')
       [generation_field session, (''receipt_id'', PStr receipt), (''package_hash'', PStr hash),
        (''status'', PStr status), (''reason_code'', reason), (''evidence'', PDict evidence),
        (''reported_at'', PStr (isoformat later))]"

definition upload_rule_evidence ::
    "core_env \<Rightarrow> time \<Rightarrow> identity \<Rightarrow> hub_session \<Rightarrow> pydict list \<Rightarrow> (core_client, pydict) eff" where
  "upload_rule_evidence env now i session items =
     session_call env now i session ''/rule-executions/evidence''
       [generation_field session, (''items'', PList (map PDict items))]"

section \<open>What leaves for Core\<close>

text \<open>\<open>sends P\<close>: the client only appends requests to its record, each satisfying \<open>P\<close>.\<close>

definition sends :: "(string \<Rightarrow> http_request \<Rightarrow> bool) \<Rightarrow> core_client \<Rightarrow> core_client \<Rightarrow> bool" where
  "sends P c c' \<longleftrightarrow> cc_base_url c' = cc_base_url c \<and>
     (\<exists>new. cc_log c' = cc_log c @ new \<and> list_all (P (cc_base_url c)) new)"

interpretation sent: frame_condition "sends P"
proof
  show "sends P s s" for s by (simp add: sends_def)
  show "sends P s t \<Longrightarrow> sends P t u \<Longrightarrow> sends P s u" for s t u
    unfolding sends_def by (elim conjE exE) (metis append.assoc list_all_append)
qed

lemma sends_modify: "(\<And>c. cc_log (f c) = cc_log c \<and> cc_base_url (f c) = cc_base_url c) \<Longrightarrow> framed (sends P) (modify f)"
  by (simp add: framed_def sends_def modify_def)

lemma sends_request:
  assumes "\<And>base token. P base \<lparr>rq_method = m, rq_url = base @ path, rq_json = json,
     rq_headers = headers @ (if authenticated then [(''Authorization'', ''Bearer '' @ py_str token)] else []),
     rq_timeout = timeout\<rparr>"
  shows "framed (sends P) (send_request env m path json headers authenticated timeout)"
    "framed (sends P) (core_request env m path json headers authenticated timeout)"
proof -
  show "framed (sends P) (send_request env m path json headers authenticated timeout)"
    using assms by (auto simp: framed_def sends_def send_request_def Let_def)
  then show "framed (sends P) (core_request env m path json headers authenticated timeout)"
    unfolding core_request_def by (intro sent.framed_seq sent.framed_basic)
qed

text \<open>
  The bearer token goes to the session endpoints of the configured Core and nowhere else.
\<close>

definition token_confined :: "string \<Rightarrow> http_request \<Rightarrow> bool" where
  "token_confined base r \<longleftrightarrow> prefix base (rq_url r) \<and>
     (''Authorization'' \<in> fst ` set (rq_headers r) \<longrightarrow> prefix (base @ ''/api/hub/v1/sessions'') (rq_url r))"

lemma confined_open: "framed (sends token_confined) (open_post env path json)"
  unfolding open_post_def by (rule sends_request) (simp add: token_confined_def)

lemma confined_bearer:
  "prefix ''/api/hub/v1/sessions'' path \<Longrightarrow> framed (sends token_confined) (bearer_post env path json)"
  unfolding bearer_post_def by (rule sends_request) (auto simp: token_confined_def prefix_def)

lemma session_path_prefix [simp]: "prefix ''/api/hub/v1/sessions'' (session_path s rest)"
  by (simp add: session_path_def)

lemma sends_authenticate:
  assumes "\<And>path json. prefix ''/api/hub/v1/auth/'' path \<Longrightarrow> framed (sends P) (open_post env path json)"
  shows "framed (sends P) (authenticate env i)"
  unfolding authenticate_def
  by (intro sent.framed_if sent.framed_seq sent.framed_basic sends_modify assms) (simp_all add: prefix_def)

lemma sends_ensure:
  assumes auth: "framed (sends P) (authenticate env i)"
    and rebind: "\<And>x json. s = Some x \<Longrightarrow> framed (sends P) (bearer_post env (session_path x ''/token'') json)"
  shows "framed (sends P) (ensure_token env now i s)"
proof -
  have "framed (sends P) (case s of None \<Rightarrow> ret ()
      | Some s \<Rightarrow> seq (rebind_session_token env s) (\<lambda>_. ret ()))"
    unfolding rebind_session_token_def
    by (cases s) (simp_all add: sent.framed_basic sent.framed_seq rebind)
  then have "framed (sends P) (seq (authenticate env i) (\<lambda>_. case s of None \<Rightarrow> ret ()
      | Some s \<Rightarrow> seq (rebind_session_token env s) (\<lambda>_. ret ())))"
    by (intro sent.framed_seq auth)
  then show ?thesis by (simp add: framed_def ensure_token_def sent.refl)
qed

lemma sends_call:
  assumes "\<And>path json. prefix ''/api/hub/v1/auth/'' path \<Longrightarrow> framed (sends P) (open_post env path json)"
    and "\<And>json. framed (sends P) (bearer_post env (session_path s ''/token'') json)"
    and "framed (sends P) (bearer_post env (session_path s rest) json)"
  shows "framed (sends P) (session_call env now i s rest json)"
  unfolding session_call_def by (intro sent.framed_seq sends_ensure sends_authenticate assms) (auto simp: assms)

lemma confined_authenticate: "framed (sends token_confined) (authenticate env i)"
  by (intro sends_authenticate confined_open)

lemma confined_ensure: "framed (sends token_confined) (ensure_token env now i s)"
  by (intro sends_ensure confined_authenticate confined_bearer) simp

lemma confined_call: "framed (sends token_confined) (session_call env now i s rest json)"
  by (intro sends_call confined_open confined_bearer) simp_all

lemma confined_methods:
  "framed (sends token_confined) (exchange env code inst name pem kind alg) \<and>
   framed (sends token_confined) (activate env now t p d secret pem inst alg health) \<and>
   framed (sends token_confined) (enrollment_status env enrollment receipt) \<and>
   framed (sends token_confined) (authenticate env i) \<and>
   framed (sends token_confined) (connect_session env now i cursor) \<and>
   framed (sends token_confined) (core_heartbeat env now i s cur dep byt dro cir) \<and>
   framed (sends token_confined) (disconnect_session env s reason) \<and>
   framed (sends token_confined) (core_upload_snapshot env now i s payload) \<and>
   framed (sends token_confined) (core_upload_events env now i s payload) \<and>
   framed (sends token_confined) (claim_commands env now i s limit) \<and>
   framed (sends token_confined) (acknowledge_command env now i s del st rea ev) \<and>
   framed (sends token_confined) (claim_rule_packages env now i s limit) \<and>
   framed (sends token_confined) (acknowledge_rule_package env now later i s pac rec has st rea ev) \<and>
   framed (sends token_confined) (upload_rule_evidence env now i s items)"
proof -
  have activate: "framed (sends token_confined) (activate env now t p d secret pem inst alg health)"
  proof -
    have "framed (sends token_confined)
        (seq (send_request env ''POST'' path (Some json) [] False None) (\<lambda>response.
           case check_response env path response of
             Inl (HTTPStatusError _) \<Rightarrow> throw (activation_error response)
           | r \<Rightarrow> lift_res r))" for path json
    proof (intro sent.framed_seq)
      show "framed (sends token_confined) (send_request env ''POST'' path (Some json) [] False None)"
        by (rule sends_request) (simp add: token_confined_def)
      show "framed (sends token_confined) (case check_response env path response of
             Inl (HTTPStatusError _) \<Rightarrow> throw (activation_error response) | r \<Rightarrow> lift_res r)" for response
        by (auto simp: sent.framed_basic split: sum.split exn.split)
    qed
    then show ?thesis by (simp add: framed_def activate_def Let_def)
  qed
  have disconnect: "framed (sends token_confined) (disconnect_session env s reason)"
  proof -
    have "framed (sends token_confined) (core_request env ''POST'' (session_path s ''/disconnect'') json [] True (Some 5))"
      for json by (rule sends_request) (auto simp: token_confined_def prefix_def session_path_def)
    then show ?thesis by (simp add: framed_def disconnect_session_def sent.refl)
  qed
  have status: "framed (sends token_confined) (enrollment_status env enrollment receipt)"
    unfolding enrollment_status_def by (rule sends_request) (simp add: token_confined_def)
  have connect: "framed (sends token_confined) (connect_session env now i cursor)"
    unfolding connect_session_def
    by (intro sent.framed_seq sent.framed_basic confined_ensure confined_bearer) simp
  show ?thesis
    unfolding exchange_def core_heartbeat_def core_upload_snapshot_def core_upload_events_def
      claim_commands_def acknowledge_command_def claim_rule_packages_def
      acknowledge_rule_package_def upload_rule_evidence_def
    by (intro conjI activate disconnect status connect confined_open confined_authenticate
        confined_call sent.framed_seq sent.framed_basic)
qed

text \<open>
  The bearer token leaves only for the session endpoints of the configured Core: whatever
  method is called and however Core answers, every request goes to the base URL, and one that
  carries an \<open>Authorization\<close> header goes below \<open>/api/hub/v1/sessions\<close>. Enrollment, activation
  and authentication never carry it.
\<close>

theorem token_leaves_only_for_sessions:
  "framed (sends token_confined) (exchange env code inst name pem kind alg) \<and>
   framed (sends token_confined) (activate env now t p d secret pem inst alg health) \<and>
   framed (sends token_confined) (enrollment_status env enrollment receipt) \<and>
   framed (sends token_confined) (authenticate env i) \<and>
   framed (sends token_confined) (connect_session env now i cursor) \<and>
   framed (sends token_confined) (core_heartbeat env now i s cur dep byt dro cir) \<and>
   framed (sends token_confined) (disconnect_session env s reason) \<and>
   framed (sends token_confined) (core_upload_snapshot env now i s payload) \<and>
   framed (sends token_confined) (core_upload_events env now i s payload) \<and>
   framed (sends token_confined) (claim_commands env now i s limit) \<and>
   framed (sends token_confined) (acknowledge_command env now i s del st rea ev) \<and>
   framed (sends token_confined) (claim_rule_packages env now i s limit) \<and>
   framed (sends token_confined) (acknowledge_rule_package env now later i s pac rec has st rea ev) \<and>
   framed (sends token_confined) (upload_rule_evidence env now i s items)"
  by (rule confined_methods)

section \<open>Sessions and their tokens\<close>

lemma bearer_post_Inr:
  assumes "bearer_post env path json c = (r, c')" "truthy (cc_token c)"
  obtains rq where "cc_log c' = cc_log c @ [rq]" "rq_url rq = cc_base_url c @ path"
    "(''Authorization'', ''Bearer '' @ py_str (cc_token c)) \<in> set (rq_headers rq)"
    "rq_json rq = Some json" "cc_token c' = cc_token c" "cc_token_expires c' = cc_token_expires c"
    "cc_base_url c' = cc_base_url c"
proof -
  let ?rq = "\<lparr>rq_method = ''POST'', rq_url = cc_base_url c @ path, rq_json = Some json,
    rq_headers = [(''Authorization'', ''Bearer '' @ py_str (cc_token c))], rq_timeout = None\<rparr>"
  have "c' = c\<lparr>cc_log := cc_log c @ [?rq]\<rparr>"
    using assms by (auto simp: bearer_post_def core_request_def send_request_def eff_simps Let_def
        split: prod.splits sum.splits)
  then show thesis using that [of ?rq] by simp
qed

lemma bearer_post_no_token:
  "\<not> truthy (cc_token c) \<Longrightarrow> bearer_post env path json c = (Inl (RuntimeError ''HUB_TOKEN_MISSING''), c)"
  by (simp add: bearer_post_def core_request_def send_request_def seq_def)

text \<open>What a call returns is what Core answered to its last request, with a status of 2xx.\<close>

definition answered_with :: "core_env \<Rightarrow> http_request list \<Rightarrow> http_request \<Rightarrow> pydict \<Rightarrow> bool" where
  "answered_with env before rq a \<longleftrightarrow> (\<exists>response. ce_peer env before rq = Inr response \<and>
     200 \<le> rs_status response \<and> rs_status response < 300 \<and> dict_or_empty (answer_data response) = Inr a)"

lemma check_response_Inr:
  assumes "check_response env path response = Inr a"
  shows "200 \<le> rs_status response \<and> rs_status response < 300 \<and> dict_or_empty (answer_data response) = Inr a"
  using assms
  by (auto simp: check_response_def answer_data_def rbind_Inr_iff
      split: option.splits if_splits pyval.splits)

definition carries_token :: "pyval \<Rightarrow> http_request \<Rightarrow> bool" where
  "carries_token token rq \<longleftrightarrow> (''Authorization'', ''Bearer '' @ py_str token) \<in> set (rq_headers rq)"

lemma bearer_post_answered:
  assumes "bearer_post env path json c = (Inr a, c')"
  obtains rq where "cc_log c' = cc_log c @ [rq]" "rq_url rq = cc_base_url c @ path"
    "rq_json rq = Some json" "carries_token (cc_token c') rq" "cc_token c' = cc_token c"
    "cc_base_url c' = cc_base_url c" "answered_with env (cc_log c) rq a"
proof -
  let ?rq = "\<lparr>rq_method = ''POST'', rq_url = cc_base_url c @ path, rq_json = Some json,
    rq_headers = [(''Authorization'', ''Bearer '' @ py_str (cc_token c))], rq_timeout = None\<rparr>"
  obtain response where "ce_peer env (cc_log c) ?rq = Inr response" "check_response env path response = Inr a"
    and c': "c' = c\<lparr>cc_log := cc_log c @ [?rq]\<rparr>"
    using assms by (auto simp: bearer_post_def core_request_def send_request_def eff_simps Let_def
        split: prod.splits sum.splits if_splits)
  then have "answered_with env (cc_log c) ?rq a"
    using check_response_Inr unfolding answered_with_def by blast
  then show thesis using that [of ?rq] by (simp add: c' carries_token_def)
qed

text \<open>The request that binds the token a client holds to a session\<close>

definition binds_token :: "core_client \<Rightarrow> hub_session \<Rightarrow> http_request \<Rightarrow> bool" where
  "binds_token c s rq \<longleftrightarrow>
     rq_url rq = cc_base_url c @ ''/api/hub/v1/sessions/'' @ session_id s @ ''/token'' \<and>
     rq_json rq = Some [(''lease_generation'', PInt (lease_generation s))] \<and> carries_token (cc_token c) rq"

lemma open_post_answered:
  assumes "open_post env path json c = (Inr a, c')"
  obtains rq where "c' = c\<lparr>cc_log := cc_log c @ [rq]\<rparr>" "rq_url rq = cc_base_url c @ path"
    "answered_with env (cc_log c) rq a"
proof -
  let ?rq = "\<lparr>rq_method = ''POST'', rq_url = cc_base_url c @ path, rq_json = Some json,
    rq_headers = [], rq_timeout = None\<rparr>"
  obtain response where "ce_peer env (cc_log c) ?rq = Inr response" "check_response env path response = Inr a"
    and c': "c' = c\<lparr>cc_log := cc_log c @ [?rq]\<rparr>"
    using assms by (auto simp: open_post_def core_request_def send_request_def eff_simps Let_def
        split: prod.splits sum.splits if_splits)
  then have "answered_with env (cc_log c) ?rq a"
    using check_response_Inr unfolding answered_with_def by blast
  then show thesis using that [of ?rq] by (simp add: c')
qed

text \<open>Renewing a token takes two requests, and the new one is what Core answered to the second.\<close>

definition obtains_token :: "core_env \<Rightarrow> core_client \<Rightarrow> http_request list \<Rightarrow> pyval \<Rightarrow> bool" where
  "obtains_token env c requests token \<longleftrightarrow> (\<exists>challenge proof_of a. requests = [challenge, proof_of] \<and>
     rq_url challenge = cc_base_url c @ ''/api/hub/v1/auth/challenges'' \<and>
     rq_url proof_of = cc_base_url c @ ''/api/hub/v1/auth/token'' \<and>
     answered_with env (cc_log c @ [challenge]) proof_of a \<and> dget a ''access_token'' = token)"

lemma authenticate_obtains:
  assumes "authenticate env i c = (Inr (), c')"
  shows "\<exists>requests. cc_log c' = cc_log c @ requests \<and> obtains_token env c requests (cc_token c') \<and>
    cc_base_url c' = cc_base_url c"
proof -
  have "\<exists>challenge c1 signed json token c2 access expires.
      open_post env ''/api/hub/v1/auth/challenges'' signed c = (Inr challenge, c1) \<and>
      open_post env ''/api/hub/v1/auth/token'' json c1 = (Inr token, c2) \<and>
      dindex token ''access_token'' = Inr access \<and>
      c' = c2\<lparr>cc_token := access, cc_token_expires := Some expires\<rparr>"
    using assms unfolding authenticate_def
    by (auto simp: throw_def lift_res_def modify_def elim!: seq_InrE split: if_splits) blast
  then obtain challenge c1 signed json token c2 access expires where
    first: "open_post env ''/api/hub/v1/auth/challenges'' signed c = (Inr challenge, c1)" and
    second: "open_post env ''/api/hub/v1/auth/token'' json c1 = (Inr token, c2)" and
    access: "dindex token ''access_token'' = Inr access" and
    c': "c' = c2\<lparr>cc_token := access, cc_token_expires := Some expires\<rparr>" by blast
  obtain p where p: "c1 = c\<lparr>cc_log := cc_log c @ [p]\<rparr>" "rq_url p = cc_base_url c @ ''/api/hub/v1/auth/challenges''"
    by (rule open_post_answered [OF first])
  obtain q where q: "c2 = c1\<lparr>cc_log := cc_log c1 @ [q]\<rparr>" "rq_url q = cc_base_url c1 @ ''/api/hub/v1/auth/token''"
    "answered_with env (cc_log c1) q token"
    by (rule open_post_answered [OF second])
  have "obtains_token env c [p, q] (cc_token c')"
    unfolding obtains_token_def
    using p q c' dindex_dget [OF access] by (intro exI [of _ p] exI [of _ q] exI [of _ token]) simp
  then show ?thesis using p q c' by (intro exI [of _ "[p, q]"]) simp
qed

lemma ensure_token_renews:
  assumes "ensure_token env now i (Some s) c = (Inr (), c')" "\<not> token_current now c"
  obtains pre rq a where "cc_log c' = cc_log c @ pre @ [rq]" "obtains_token env c pre (cc_token c')"
    "binds_token c' s rq" "cc_base_url c' = cc_base_url c" "answered_with env (cc_log c @ pre) rq a"
proof -
  obtain r1 c1 where auth: "authenticate env i c = (r1, c1)" by (cases "authenticate env i c")
  with assms have r1: "r1 = Inr ()"
    by (cases r1) (auto simp: ensure_token_def seq_def)
  obtain r2 c2 where rebind: "rebind_session_token env s c1 = (r2, c2)"
    by (cases "rebind_session_token env s c1")
  with assms auth r1 obtain a where c': "c' = c2" "r2 = Inr a"
    by (auto simp: ensure_token_def eff_simps split: sum.splits)
  obtain pre where pre: "cc_log c1 = cc_log c @ pre" "obtains_token env c pre (cc_token c1)"
      "cc_base_url c1 = cc_base_url c"
    using authenticate_obtains [OF auth [unfolded r1]] by blast
  show thesis
    by (rule bearer_post_answered [OF rebind [unfolded rebind_session_token_def c'(2)]],
        rule that [of pre]) (simp_all add: pre c'(1) binds_token_def session_path_def)
qed

lemma session_call_answered:
  assumes "session_call env now i s rest json c = (Inr a, c')"
  obtains c1 rq where "ensure_token env now i (Some s) c = (Inr (), c1)"
    "cc_log c' = cc_log c1 @ [rq]" "rq_url rq = cc_base_url c1 @ session_path s rest"
    "rq_json rq = Some json" "carries_token (cc_token c') rq" "cc_token c' = cc_token c1"
    "answered_with env (cc_log c1) rq a"
proof -
  obtain r c1 where ensure: "ensure_token env now i (Some s) c = (r, c1)"
    by (cases "ensure_token env now i (Some s) c")
  with assms have r: "r = Inr ()" and call: "bearer_post env (session_path s rest) json c1 = (Inr a, c')"
    by (cases r; auto simp: session_call_def seq_def)+
  show thesis
    by (rule bearer_post_answered [OF call]) (rule that [OF ensure [unfolded r]])
qed

lemma session_call_sent:
  assumes "session_call env now i s rest json c = (Inr a, c')"
  shows "\<exists>pre rq. cc_log c' = cc_log c @ pre @ [rq] \<and> rq_url rq = cc_base_url c @ session_path s rest \<and>
    answered_with env (cc_log c @ pre) rq a"
proof (rule session_call_answered [OF assms])
  fix c1 rq
  assume ensure: "ensure_token env now i (Some s) c = (Inr (), c1)"
    and rq: "cc_log c' = cc_log c1 @ [rq]" "rq_url rq = cc_base_url c1 @ session_path s rest"
      "answered_with env (cc_log c1) rq a"
  have "sends token_confined c c1" by (rule framedD [OF confined_ensure ensure])
  then obtain pre where "cc_log c1 = cc_log c @ pre" "cc_base_url c1 = cc_base_url c"
    by (auto simp: sends_def)
  with rq show ?thesis by (intro exI [of _ pre] exI [of _ rq]) simp
qed

text \<open>
  C19: a renewed token is bound to the session before the call that renewed it. Every method on a
  session (but \<open>disconnect_session\<close>, which takes the token as it is) that succeeds sends its request
  last, under the token the client then holds. When the client held a token with a minute or more
  left, that is the only request and the token is the same. Otherwise the client asked for a
  challenge and answered it, holds the token Core gave it for that, and the request right before its
  own bound this token to that session under its lease generation, and Core accepted it.
\<close>

theorem renewed_token_is_rebound:
  assumes "session_call env now i s rest json c = (Inr a, c')"
  shows "\<exists>rq. rq_url rq = cc_base_url c @ session_path s rest \<and> rq_json rq = Some json \<and>
    carries_token (cc_token c') rq \<and>
    (if cc_token c \<noteq> PNone \<and> (\<exists>t. cc_token_expires c = Some t \<and> 60 * 1000000 \<le> t - now)
     then cc_token c' = cc_token c \<and> cc_log c' = cc_log c @ [rq]
     else \<exists>pre bind answer. cc_log c' = cc_log c @ pre @ [bind, rq] \<and>
       obtains_token env c pre (cc_token c') \<and>
       rq_url bind = cc_base_url c @ ''/api/hub/v1/sessions/'' @ session_id s @ ''/token'' \<and>
       rq_json bind = Some [(''lease_generation'', PInt (lease_generation s))] \<and>
       carries_token (cc_token c') bind \<and> answered_with env (cc_log c @ pre) bind answer)"
proof (rule session_call_answered [OF assms])
  fix c1 rq
  assume ensure: "ensure_token env now i (Some s) c = (Inr (), c1)"
    and rq: "cc_log c' = cc_log c1 @ [rq]" "rq_url rq = cc_base_url c1 @ session_path s rest"
      "rq_json rq = Some json" "carries_token (cc_token c') rq" "cc_token c' = cc_token c1"
  have fresh: "token_current now c \<longleftrightarrow>
      cc_token c \<noteq> PNone \<and> (\<exists>t. cc_token_expires c = Some t \<and> 60 * 1000000 \<le> t - now)"
    by (auto simp: token_current_def split: option.split)
  show ?thesis
  proof (cases "token_current now c")
    case True
    with ensure have "c1 = c" by (simp add: ensure_token_def)
    with rq show ?thesis
      unfolding fresh [symmetric] if_P [OF True] by (intro exI [of _ rq]) simp
  next
    case False
    show ?thesis
    proof (rule ensure_token_renews [OF ensure False])
      fix pre bind answer
      assume "cc_log c1 = cc_log c @ pre @ [bind]" "obtains_token env c pre (cc_token c1)" "binds_token c1 s bind"
        "cc_base_url c1 = cc_base_url c" "answered_with env (cc_log c @ pre) bind answer"
      with rq show ?thesis
        unfolding fresh [symmetric] if_not_P [OF False] binds_token_def
        by (intro exI [of _ rq] conjI exI [of _ pre] exI [of _ bind] exI [of _ answer]) simp_all
    qed
  qed
qed

text \<open>
  C38: a rebinding that fails is not tried again. When the token was renewed but the request that
  binds it to the session fails, the next call for the session finds a good token and sends
  nothing first: it goes out under a token the session is not bound to, which Core refuses.
\<close>

theorem failed_rebind_is_not_retried:
  assumes "\<not> token_current now c" "authenticate env i c = (Inr (), c1)"
    and "rebind_session_token env s c1 = (Inl e, c2)" "token_current later c1" "truthy (cc_token c1)"
  shows "ensure_token env now i (Some s) c = (Inl e, c2) \<and> cc_token c2 = cc_token c1 \<and>
    ensure_token env later i (Some s) c2 = (Inr (), c2)"
proof -
  have "cc_token c2 = cc_token c1" "cc_token_expires c2 = cc_token_expires c1"
    by (rule bearer_post_Inr [OF assms(3) [unfolded rebind_session_token_def] assms(5)]; simp)+
  then show ?thesis using assms by (simp add: ensure_token_def token_current_def seq_def)
qed

text \<open>A peer that answers or fails as \<open>httpx\<close> documents: its exceptions are transport errors.\<close>

definition http_peer :: "core_env \<Rightarrow> bool" where
  "http_peer env \<longleftrightarrow> (\<forall>log rq e. ce_peer env log rq = Inl e \<longrightarrow> (\<exists>m. e = TransportError m))"

lemma http_peer_session: "http_peer env \<Longrightarrow> ce_peer env sent rq \<noteq> Inl (HubSessionInvalidError sid d)"
  by (auto simp: http_peer_def)

lemma after_sessions_prefix:
  "after_text ''/sessions/'' (''/api/hub/v1/sessions/'' @ rest) = Some rest"
  by simp

lemma check_response_invalid:
  assumes "check_response env path response = Inl (HubSessionInvalidError sid d)"
  shows "session_id_from_path path = Inr sid \<and> invalid_session_detail response path = Some d"
  using assms
  by (auto simp: check_response_def rbind_Inl_iff session_id_from_path_def lease_conflict_def
      dict_or_empty_def py_or_def
      split: option.splits if_splits pyval.splits elim!: py_dict.elims)

text \<open>
  C26: a rejected session is identified: an error that asks for a new session names the session
  whose request Core refused, with a 403 or 409 and one of the five known reasons.
\<close>

theorem invalid_session_names_its_session:
  assumes "http_peer env" "CHR ''/'' \<notin> set (session_id s)" "rest = [] \<or> hd rest = CHR ''/''"
    and "bearer_post env (session_path s rest) json c = (Inl (HubSessionInvalidError sid d), c')"
  shows "sid = session_id s \<and> d \<in> set INVALID_SESSION_DETAILS \<and>
    (\<exists>rq response. ce_peer env (cc_log c) rq = Inr response \<and> rs_status response \<in> {403, 409})"
proof -
  obtain rq response where peer: "ce_peer env (cc_log c) rq = Inr response"
    and check: "check_response env (session_path s rest) response = Inl (HubSessionInvalidError sid d)"
    using assms(1,4)
    by (auto simp: bearer_post_def core_request_def send_request_def eff_simps Let_def
        http_peer_session split: if_splits prod.splits sum.splits)
  from check_response_invalid [OF check]
  have sid: "session_id_from_path (session_path s rest) = Inr sid"
    and detail: "invalid_session_detail response (session_path s rest) = Some d" by simp_all
  have "takeWhile (\<lambda>c. c \<noteq> CHR ''/'') (session_id s @ rest) = session_id s"
    using assms(2,3) by (cases rest) (auto simp: takeWhile_append)
  then have "sid = session_id s"
    using sid unfolding session_id_from_path_def session_path_def after_sessions_prefix by simp
  moreover have "d \<in> set INVALID_SESSION_DETAILS" "rs_status response \<in> {403, 409}"
    using detail unfolding invalid_session_detail_def
    by (auto simp: Let_def split: if_splits option.splits)
  ultimately show ?thesis using peer by blast
qed

text \<open>
  Only a lease conflict is waited for. When \<open>connect_session\<close> reports one, Core answered the
  request for a session with a 409 that says so, in the structured or in the legacy form; a wait
  it prescribes is not negative. No other 409 is taken for one.
\<close>

theorem only_lease_conflicts_are_reported:
  assumes "check_response env path response = Inl (HubLeaseConflictError w t)"
  shows "path = ''/api/hub/v1/sessions'' \<and> rs_status response = 409 \<and>
    (answer_data response = PStr LEGACY_LEASE_CONFLICT_DETAIL \<and> w = None \<or>
     (\<exists>d. answer_data response = PDict d \<and> dget d ''reason_code'' = PStr ''active_lease_conflict'')) \<and>
    (\<forall>q. w = Some (Fin q) \<longrightarrow> 0 \<le> q) \<and> w \<noteq> Some NaN \<and> w \<noteq> Some NegInf"
proof -
  have "lease_conflict env response path = Some (HubLeaseConflictError w t)"
    using assms
    by (auto simp: check_response_def rbind_Inl_iff session_id_from_path_def dict_or_empty_def py_or_def
        split: option.splits if_splits pyval.splits elim!: py_dict.elims)
  then show ?thesis
    by (auto simp: lease_conflict_def retry_after_def split: if_splits pyval.splits fval.splits)
qed

section \<open>Witnesses\<close>

text \<open>A Core whose answers are a list, one for each request\<close>

definition answering :: "http_response res list \<Rightarrow> core_env" where
  "answering answers =
     \<lparr>ce_peer = (\<lambda>log rq. if length log < length answers then answers ! length log
                     else Inl (TransportError ''refused'')),
      ce_keys = sample_keys, ce_fromiso = (\<lambda>_. None), ce_local_to_utc = (\<lambda>t. t),
      ce_uuid = (\<lambda>_. ''0'')\<rparr>"

definition answer :: "int \<Rightarrow> pyval \<Rightarrow> http_response" where
  "answer status data = \<lparr>rs_status = status, rs_json = Some (PDict [(''data'', data)]), rs_text = []\<rparr>"

definition challenge_answer :: http_response where
  "challenge_answer = answer 200 (PDict [(''canonical_message'', PStr ''m''),
     (''challenge_id'', PStr ''ch''), (''nonce'', PStr ''n'')])"

definition token_answer :: http_response where
  "token_answer = answer 200 (PDict [(''access_token'', PStr ''tok''), (''expires_at'', PInt 900)])"

definition sample_identity :: identity where
  "sample_identity = identity_of ''seed''
     [(''connector_id'', PStr ''c1''), (''credential_id'', PStr ''k1'')]"

definition sample_session :: hub_session where
  "sample_session = \<lparr>session_id = ''s1'', integration_instance_id = ''home'', lease_generation = 4,
     lease_expires_at = 0, resume_cursor = None, effective_grants = []\<rparr>"

lemmas core_eval = ensure_token_def token_current_def authenticate_def open_post_def bearer_post_def
  rebind_session_token_def core_request_def send_request_def eff_simps Let_def answering_def
  challenge_answer_def token_answer_def answer_def sample_identity_def sample_session_def
  check_response_def invalid_session_detail_def lease_conflict_def identity_of_def sign_challenge_def
  core_client_init_def SIGNATURE_ALGORITHM_ED25519_def py_or_def dindex_def sample_keys_def
  core_parse_time_def from_timestamp_def round_half_even_def session_path_def answer_data_def

theorem renewed_token_is_rebound_witness:
  "let env = answering [Inr challenge_answer, Inr token_answer, Inr (answer 200 PNone), Inr (answer 200 PNone)];
       q = session_call env 0 sample_identity sample_session ''/heartbeat'' [] (core_client_init ''https://core/'')
   in fst q = Inr [] \<and> (\<exists>pre bind rq. cc_log (snd q) = pre @ [bind, rq] \<and>
        rq_url bind = ''https://core/api/hub/v1/sessions/s1/token'' \<and>
        rq_url rq = ''https://core/api/hub/v1/sessions/s1/heartbeat'')"
proof -
  let ?env = "answering [Inr challenge_answer, Inr token_answer, Inr (answer 200 PNone), Inr (answer 200 PNone)]"
  let ?c = "core_client_init ''https://core/''"
  obtain r c' where q: "session_call ?env 0 sample_identity sample_session ''/heartbeat'' [] ?c = (r, c')"
    by (cases "session_call ?env 0 sample_identity sample_session ''/heartbeat'' [] ?c")
  have r: "r = Inr []"
    using q by (auto simp: session_call_def core_eval rstrip_slashes_def)
  have "cc_token ?c = PNone" "cc_base_url ?c = ''https://core''"
    by (simp_all add: core_client_init_def rstrip_slashes_def)
  with renewed_token_is_rebound [OF q [unfolded r]] q r show ?thesis
    by (auto simp: Let_def sample_session_def session_path_def)
qed

theorem failed_rebind_is_not_retried_witness:
  "let env = answering [Inr challenge_answer, Inr token_answer, Inl (TransportError ''reset'')];
       q = ensure_token env 0 sample_identity (Some sample_session) (core_client_init ''https://core/'')
   in fst q = Inl (TransportError ''reset'') \<and>
      ensure_token env 1000000 sample_identity (Some sample_session) (snd q) = (Inr (), snd q)"
proof -
  let ?env = "answering [Inr challenge_answer, Inr token_answer, Inl (TransportError ''reset'')]"
  let ?c = "core_client_init ''https://core/''"
  obtain r1 c1 where a: "authenticate ?env sample_identity ?c = (r1, c1)"
    by (cases "authenticate ?env sample_identity ?c")
  then have r1: "r1 = Inr ()" and c1: "cc_token c1 = PStr ''tok''" "cc_token_expires c1 = Some 900000000"
    "length (cc_log c1) = 2"
    by (auto simp: core_eval rstrip_slashes_def)
  obtain r2 c2 where b: "rebind_session_token ?env sample_session c1 = (r2, c2)"
    by (cases "rebind_session_token ?env sample_session c1")
  have r2: "r2 = Inl (TransportError ''reset'')"
    using b c1 by (auto simp: core_eval)
  have "\<not> token_current 0 ?c" by (simp add: core_eval)
  from failed_rebind_is_not_retried [OF this a [unfolded r1] b [unfolded r2], of 1000000] c1
  show ?thesis by (simp add: token_current_def)
qed

theorem invalid_session_names_its_session_witness:
  "\<exists>c'. bearer_post (answering [Inr (answer 409 (PStr ''Hub session lease expired''))])
     (session_path sample_session ''/heartbeat'') [] (core_client_init ''u''\<lparr>cc_token := PStr ''tok''\<rparr>) =
   (Inl (HubSessionInvalidError (session_id sample_session) ''Hub session lease expired''), c')"
proof -
  let ?env = "answering [Inr (answer 409 (PStr ''Hub session lease expired''))]"
  let ?c = "core_client_init ''u''\<lparr>cc_token := PStr ''tok''\<rparr>"
  obtain r c' where q: "bearer_post ?env (session_path sample_session ''/heartbeat'') [] ?c = (r, c')"
    by (cases "bearer_post ?env (session_path sample_session ''/heartbeat'') [] ?c")
  have "\<exists>sid. r = Inl (HubSessionInvalidError sid ''Hub session lease expired'')"
    using q by (auto simp: core_eval INVALID_SESSION_DETAILS_def session_id_from_path_def)
  then obtain sid where r: "r = Inl (HubSessionInvalidError sid ''Hub session lease expired'')" ..
  have "http_peer ?env"
    by (auto simp: http_peer_def answering_def nth_Cons' split: if_splits)
  moreover have "CHR ''/'' \<notin> set (session_id sample_session)" by (simp add: sample_session_def)
  ultimately have "sid = session_id sample_session"
    using invalid_session_names_its_session [OF _ _ _ q [unfolded r]] by simp
  with q r show ?thesis by blast
qed

theorem only_lease_conflicts_are_reported_witness:
  "check_response (answering []) ''/api/hub/v1/sessions'' (answer 409 (PDict
     [(''reason_code'', PStr ''active_lease_conflict''), (''retry_after_seconds'', PInt 42)])) =
     Inl (HubLeaseConflictError (Some (Fin 42)) None) \<and>
   rs_status (answer 409 PNone) = 409"
proof -
  have "check_response (answering []) ''/api/hub/v1/sessions'' (answer 409 (PDict
     [(''reason_code'', PStr ''active_lease_conflict''), (''retry_after_seconds'', PInt 42)])) =
     Inl (HubLeaseConflictError (Some (Fin 42)) None)"
    by (simp add: check_response_def invalid_session_detail_def lease_conflict_def answer_def
        answer_data_def retry_after_def lease_expiry_def)
  from this only_lease_conflicts_are_reported [OF this] show ?thesis by (simp add: answer_def)
qed

end
