(* ===== verification/Snapshot.thy ===== *)
theory Snapshot
  imports Ha_Client Timestamps
begin

text \<open>
  The module \<open>snapshot.py\<close>: a Home Assistant snapshot becomes one uplink payload, with an object
  for every area, device and entity, the current states of the enabled entities, and a version
  computed from both. The digest is the parameter \<open>sha\<close>.
\<close>

section \<open>Objects\<close>

text \<open>\<open>len(v or [])\<close>\<close>

definition len_or_empty :: "pyval \<Rightarrow> int res" where
  "len_or_empty v =
     (case py_or v (PList []) of
        PList xs \<Rightarrow> Inr (int (length xs))
      | PDict d \<Rightarrow> Inr (int (length d))
      | PStr s \<Rightarrow> Inr (int (length s))
      | _ \<Rightarrow> Inl (TypeError ''object has no len()''))"

definition provenance :: "string \<Rightarrow> string \<times> pyval" where
  "provenance source = (''provenance'', PDict [(''source_kind'', PStr source),
     (''evidence_type'', PStr ''inventory'')])"

definition area_object :: "pyval \<Rightarrow> pydict res" where
  "area_object v = rbind (as_dict v) (\<lambda>area.
     let area_id = str_or_empty (dget area ''area_id'')
     in Inr [(''object_type'', PStr ''area''), (''external_id'', PStr area_id),
       (''profile_schema_version'', PStr ''1.0''),
       (''metadata'', PDict [(''name'', PStr (py_str (py_or (dget area ''name'') (PStr area_id))))]),
       provenance ''ha_area_registry''])"

definition device_object :: "pyval \<Rightarrow> pydict res" where
  "device_object v = rbind (as_dict v) (\<lambda>device.
     let device_id = str_or_empty (dget device ''id'')
     in rbind (len_or_empty (dget device ''identifiers'')) (\<lambda>identifiers.
        rbind (len_or_empty (dget device ''connections'')) (\<lambda>connections.
        Inr [(''object_type'', PStr ''device''), (''external_id'', PStr device_id),
          (''parent_external_ref'', dget device ''area_id''), (''profile_schema_version'', PStr ''1.0''),
          (''metadata'', PDict
            [(''name'', PStr (py_str (py_or (py_or (dget device ''name_by_user'') (dget device ''name''))
                (PStr device_id)))),
             (''manufacturer'', dget device ''manufacturer''), (''model'', dget device ''model''),
             (''entry_type'', dget device ''entry_type''),
             (''via_device_id'', dget device ''via_device_id''),
             (''identifier_count'', PInt identifiers), (''connection_count'', PInt connections)]),
          provenance ''ha_device_registry''])))"

text \<open>\<open>{str(item.get("entity_id") or ""): item for item in snapshot.states}\<close>: the last one wins.\<close>

definition entity_id_of :: "pydict \<Rightarrow> string" where
  "entity_id_of d = str_or_empty (dget d ''entity_id'')"

definition state_by_entity :: "pydict list \<Rightarrow> string \<Rightarrow> pydict" where
  "state_by_entity sources entity =
     (case map_of (rev (map (\<lambda>d. (entity_id_of d, d)) sources)) entity of None \<Rightarrow> [] | Some d \<Rightarrow> d)"

definition entity_object :: "pydict list \<Rightarrow> pyval \<Rightarrow> pydict res" where
  "entity_object sources v = rbind (as_dict v) (\<lambda>entity.
     let entity_id = entity_id_of entity
     in rbind (dict_or_empty (dget (state_by_entity sources entity_id) ''attributes'')) (\<lambda>attributes.
        Inr [(''object_type'', PStr ''entity''), (''external_id'', PStr entity_id),
          (''parent_external_ref'', dget entity ''device_id''), (''profile_schema_version'', PStr ''1.0''),
          (''metadata'', PDict
            [(''name'', PStr (py_str (py_or (py_or (dget entity ''name'') (dget attributes ''friendly_name''))
                (PStr entity_id)))),
             (''domain'', PStr (takeWhile (\<lambda>c. c \<noteq> CHR ''.'') entity_id)),
             (''platform'', dget entity ''platform''), (''unique_id'', dget entity ''unique_id''),
             (''device_class'', py_or (dget entity ''device_class'') (dget attributes ''device_class'')),
             (''unit'', dget attributes ''unit_of_measurement''),
             (''state_class'', dget attributes ''state_class''),
             (''entity_category'', dget entity ''entity_category''),
             (''disabled'', PBool (truthy (dget entity ''disabled_by''))),
             (''state_eligible'', PBool (\<not> truthy (dget entity ''disabled_by'')))]),
          provenance ''ha_entity_registry'']))"

definition snapshot_objects :: "ha_snapshot \<Rightarrow> pydict list res" where
  "snapshot_objects s =
     rbind (rmap area_object (areas s)) (\<lambda>as.
     rbind (rmap device_object (devices s)) (\<lambda>ds.
     rbind (rmap as_dict (states s)) (\<lambda>sources.
     rbind (rmap (entity_object sources) (entities s)) (\<lambda>es.
       Inr (as @ ds @ es)))))"

section \<open>Current states\<close>

definition eligible :: "pydict list \<Rightarrow> string set" where
  "eligible registered = set (map entity_id_of (filter (\<lambda>e.
     truthy (dget e ''entity_id'') \<and> \<not> truthy (dget e ''disabled_by'')) registered))"

definition last_updated_of :: "pydict \<Rightarrow> pyval" where
  "last_updated_of d = py_or (dget d ''last_updated'') (dget d ''last_changed'')"

definition state_object :: "pydict \<Rightarrow> pydict" where
  "state_object d =
     [(''entity_id'', PStr (entity_id_of d)),
      (''state'', PStr (if dget d ''state'' = PNone then [] else py_str (dget d ''state''))),
      (''last_changed'', dget d ''last_changed''), (''last_updated'', last_updated_of d)]"

definition object_entity :: "pydict \<Rightarrow> string" where
  "object_entity d = py_str (dget d ''entity_id'')"

definition snapshot_current_states :: "ha_snapshot \<Rightarrow> pydict list res" where
  "snapshot_current_states s =
     rbind (rmap as_dict (entities s)) (\<lambda>registered.
     rbind (rmap as_dict (states s)) (\<lambda>sources.
       Inr (sort_key object_entity (map state_object
         (filter (\<lambda>d. entity_id_of d \<in> eligible registered \<and> truthy (last_updated_of d)) sources)))))"

section \<open>The payload\<close>

definition source_version :: "(string \<Rightarrow> string) \<Rightarrow> pydict list \<Rightarrow> pydict list \<Rightarrow> string" where
  "source_version sha objects current =
     ''ha:'' @ take 20 (sha (json_dumps (PDict [(''objects'', PList (map PDict objects)),
       (''current_states'', PList (map PDict current))])))"

text \<open>\<open>isoformat().replace("+00:00", "Z")\<close>: the only plus sign is the one of the offset.\<close>

definition iso_zulu :: "time \<Rightarrow> string" where
  "iso_zulu t = takeWhile (\<lambda>c. c \<noteq> CHR ''+'') (isoformat t) @ ''Z''"

definition build_snapshot_uplink :: "(string \<Rightarrow> string) \<Rightarrow> ha_snapshot \<Rightarrow> string \<Rightarrow> pydict res" where
  "build_snapshot_uplink sha s run_type =
     rbind (snapshot_objects s) (\<lambda>objects.
     rbind (snapshot_current_states s) (\<lambda>current.
       let version = source_version sha objects current
       in Inr [(''run_type'', PStr run_type), (''delivery_mode'', PStr ''realtime''),
         (''profile_key'', PStr ''home_assistant''), (''source_version'', PStr version),
         (''idempotency_key'', PStr (''hub:'' @ run_type @ '':'' @ version)),
         (''observed_at'', PStr (iso_zulu (observed_at s))),
         (''coverage'', PDict [(''mode'', PStr ''full''),
           (''object_types'', PList [PStr ''area'', PStr ''device'', PStr ''entity''])]),
         (''objects'', PList (map PDict objects)), (''current_states'', PList (map PDict current))]))"

section \<open>What a snapshot covers\<close>

lemma object_entity_state [simp]: "object_entity (state_object d) = entity_id_of d"
  by (simp add: object_entity_def state_object_def)

lemma rmap_as_dict: "rmap as_dict vs = Inr ds \<longleftrightarrow> vs = map PDict ds"
  by (auto simp: rmap_Inr_iff list_all2_conv_all_nth intro: nth_equalityI)

lemma rmap_as_dict_dicts [simp]: "rmap as_dict (map PDict ds) = Inr ds"
  by (simp add: rmap_as_dict)


lemma rmap_map: "(\<And>x y. x \<in> set xs \<Longrightarrow> f x = Inr y \<Longrightarrow> g y = h x) \<Longrightarrow> rmap f xs = Inr ys \<Longrightarrow> map g ys = map h xs"
  by (induction xs arbitrary: ys) (auto simp: rbind_Inr_iff)

definition registry_id :: "string \<Rightarrow> pyval \<Rightarrow> pyval" where
  "registry_id key v = (case v of PDict d \<Rightarrow> PStr (str_or_empty (dget d key)) | _ \<Rightarrow> PNone)"

text \<open>
  C23: the coverage a snapshot claims is full: it has one object for every area, every device and
  every entity of the registries, in their order, each under its own id, and no others.
\<close>

theorem snapshot_covers_the_registries:
  assumes "snapshot_objects s = Inr objects"
  shows "map (\<lambda>x. (dget x ''object_type'', dget x ''external_id'')) objects =
    map (\<lambda>v. (PStr ''area'', registry_id ''area_id'' v)) (areas s) @
    map (\<lambda>v. (PStr ''device'', registry_id ''id'' v)) (devices s) @
    map (\<lambda>v. (PStr ''entity'', registry_id ''entity_id'' v)) (entities s)"
proof -
  obtain as ds sources es where o: "rmap area_object (areas s) = Inr as"
    "rmap device_object (devices s) = Inr ds" "rmap (entity_object sources) (entities s) = Inr es"
    "objects = as @ ds @ es"
    using assms by (auto simp: snapshot_objects_def rbind_Inr_iff)
  let ?g = "\<lambda>x. (dget x ''object_type'', dget x ''external_id'')"
  have "map ?g as = map (\<lambda>v. (PStr ''area'', registry_id ''area_id'' v)) (areas s)"
    by (rule rmap_map [OF _ o(1)]) (auto simp: area_object_def rbind_Inr_iff Let_def registry_id_def)
  moreover have "map ?g ds = map (\<lambda>v. (PStr ''device'', registry_id ''id'' v)) (devices s)"
    by (rule rmap_map [OF _ o(2)]) (auto simp: device_object_def rbind_Inr_iff Let_def registry_id_def)
  moreover have "map ?g es = map (\<lambda>v. (PStr ''entity'', registry_id ''entity_id'' v)) (entities s)"
    by (rule rmap_map [OF _ o(3)])
      (auto simp: entity_object_def rbind_Inr_iff Let_def registry_id_def entity_id_of_def)
  ultimately show ?thesis by (simp add: o(4))
qed

section \<open>The version\<close>

lemma map_of_permuted:
  assumes "mset xs = mset ys" "distinct (map fst xs)"
  shows "map_of xs = map_of ys"
proof -
  have "distinct (map fst ys)"
    using assms by (metis mset_map mset_eq_imp_distinct_iff)
  moreover have "set xs = set ys" using assms(1) by (rule mset_eq_setD)
  ultimately show ?thesis using assms(2) by (intro map_of_eqI) auto
qed

lemma state_by_entity_permuted:
  assumes "mset xs = mset ys" "distinct (map entity_id_of xs)"
  shows "state_by_entity xs = state_by_entity ys"
proof -
  have "map_of (rev (map (\<lambda>d. (entity_id_of d, d)) xs)) = map_of (rev (map (\<lambda>d. (entity_id_of d, d)) ys))"
    using assms by (intro map_of_permuted) (simp_all add: comp_def rev_map [symmetric] image_mset.compositionality)
  then show ?thesis by (simp add: state_by_entity_def fun_eq_iff)
qed

lemma filter_unique: "distinct (map f xs) \<Longrightarrow> k \<in> set xs \<Longrightarrow> filter (\<lambda>x. f k = f x) xs = [k]"
proof (induction xs)
  case (Cons x xs)
  show ?case
  proof (cases "k = x")
    case True
    with Cons.prems have "filter (\<lambda>y. f x = f y) xs = []"
      by (auto simp: filter_empty_conv)
    with True show ?thesis by simp
  next
    case False
    then have "k \<in> set xs" using Cons.prems by simp
    then have "f k \<in> f ` set xs" by (rule imageI)
    then have "f k \<noteq> f x" using Cons.prems(1) by auto
    with False Cons show ?thesis by auto
  qed
qed simp

lemma sort_key_permuted:
  assumes "mset xs = mset ys" "distinct (map f xs)"
  shows "sort_key f xs = sort_key f ys"
proof (rule sym, rule properties_for_sort_key)
  have ys: "distinct (map f ys)" using assms by (metis mset_map mset_eq_imp_distinct_iff)
  fix k assume "k \<in> set (sort_key f xs)"
  then have k: "k \<in> set xs" "k \<in> set ys" using mset_eq_setD [OF assms(1)] by simp_all
  have "(\<lambda>x. f k = f x) = (\<lambda>x. f x = f k)" by auto
  then have "filter (\<lambda>x. f k = f x) (sort_key f xs) = filter (\<lambda>x. f k = f x) xs"
    by (simp only: sort_key_stable)
  then show "filter (\<lambda>x. f k = f x) (sort_key f xs) = filter (\<lambda>x. f k = f x) ys"
    using filter_unique [OF assms(2) k(1)] filter_unique [OF ys k(2)] by (simp only:)
qed (use assms in simp_all)

text \<open>
  C21: a snapshot's version, and with it the key Core deduplicates it by, does not depend on the
  order in which Home Assistant lists its states, and neither does anything else of the payload.
\<close>

theorem snapshot_ignores_state_order:
  assumes "states s = map PDict sources" "mset sources = mset sources'"
    and "distinct (map entity_id_of sources)"
  shows "build_snapshot_uplink sha (s\<lparr>states := map PDict sources'\<rparr>) run_type =
    build_snapshot_uplink sha s run_type"
proof -
  let ?keep = "\<lambda>registered d. entity_id_of d \<in> eligible registered \<and> truthy (last_updated_of d)"
  have by_entity: "state_by_entity sources' = state_by_entity sources"
    using assms by (intro state_by_entity_permuted [symmetric])
  have "sort_key object_entity (map state_object (filter (?keep r) sources')) =
      sort_key object_entity (map state_object (filter (?keep r) sources))" for r
  proof (rule sym, rule sort_key_permuted)
    show "mset (map state_object (filter (?keep r) sources)) = mset (map state_object (filter (?keep r) sources'))"
      by (simp only: mset_map mset_filter assms(2))
    have "distinct (map entity_id_of (filter (?keep r) sources))"
      using assms(3) by (rule distinct_map_filter)
    then show "distinct (map object_entity (map state_object (filter (?keep r) sources)))"
      by (simp add: comp_def)
  qed
  moreover have "entity_object sources' = entity_object sources"
    by (simp add: entity_object_def by_entity fun_eq_iff)
  moreover have "states (s\<lparr>states := x\<rparr>) = x" "areas (s\<lparr>states := x\<rparr>) = areas s"
      "devices (s\<lparr>states := x\<rparr>) = devices s" "entities (s\<lparr>states := x\<rparr>) = entities s"
      "observed_at (s\<lparr>states := x\<rparr>) = observed_at s" for x
    by simp_all
  ultimately show ?thesis
    unfolding build_snapshot_uplink_def snapshot_objects_def snapshot_current_states_def
    by (simp only: assms(1) rmap_as_dict_dicts rbind_simps)
qed

section \<open>Witnesses\<close>

definition sample_light :: "string \<Rightarrow> pydict" where
  "sample_light entity = [(''entity_id'', PStr entity), (''state'', PStr ''on''),
     (''last_updated'', PStr ''2026''), (''attributes'', PDict [(''friendly_name'', PStr ''Lamp'')])]"

definition sample_snapshot :: ha_snapshot where
  "sample_snapshot = \<lparr>areas = [], devices = [],
     entities = [PDict [(''entity_id'', PStr ''light.a'')]],
     states = map PDict [sample_light ''light.b'', sample_light ''light.a''], observed_at = 0\<rparr>"

lemma sample_light_entity [simp]: "entity_id_of (sample_light e) = e"
  by (simp add: sample_light_def entity_id_of_def)


theorem snapshot_covers_the_registries_witness:
  "\<exists>objects. snapshot_objects sample_snapshot = Inr objects \<and>
     map (\<lambda>x. (dget x ''object_type'', dget x ''external_id'')) objects = [(PStr ''entity'', PStr ''light.a'')]"
proof -
  obtain r where r: "snapshot_objects sample_snapshot = r" by simp
  have "\<not> isl (snapshot_objects sample_snapshot)" by code_simp
  then obtain objects where o: "r = Inr objects" using r by (cases r) auto
  from snapshot_covers_the_registries [OF r [unfolded o]]
  have "map (\<lambda>x. (dget x ''object_type'', dget x ''external_id'')) objects = [(PStr ''entity'', PStr ''light.a'')]"
    by (simp add: sample_snapshot_def registry_id_def)
  moreover have "snapshot_objects sample_snapshot = Inr objects" by (simp only: r o)
  ultimately show ?thesis by (intro exI [of _ objects] conjI)
qed

theorem snapshot_ignores_state_order_witness:
  "build_snapshot_uplink rev (sample_snapshot\<lparr>states :=
      map PDict [sample_light ''light.a'', sample_light ''light.b'']\<rparr>) ''bootstrap'' =
   build_snapshot_uplink rev sample_snapshot ''bootstrap''"
proof (rule snapshot_ignores_state_order)
  show "states sample_snapshot = map PDict [sample_light ''light.b'', sample_light ''light.a'']"
    by (simp only: sample_snapshot_def ha_snapshot.simps)
  show "mset [sample_light ''light.b'', sample_light ''light.a''] =
      mset [sample_light ''light.a'', sample_light ''light.b'']"
    by (simp only: mset.simps add_mset_commute)
  show "distinct (map entity_id_of [sample_light ''light.b'', sample_light ''light.a''])"
    by (simp only: list.map sample_light_entity) simp
qed

end
