(* ===== verification/Config.thy ===== *)
theory Config
  imports Py_Values
begin

text \<open>
  The module \<open>config.py\<close>: the configuration read from the environment, the add-on's options, a
  provisioning bundle and secret files. Files are a map from paths to text; the paths of the
  deployment are opaque names (\<open>Path.resolve\<close> and \<open>json.loads\<close> are parameters), and directories
  exist. The only file the module writes is the installation id.
\<close>

type_synonym text_files = "string \<rightharpoonup> string"

record config_env =
  ge_env :: "string \<rightharpoonup> string"
  ge_json :: "string \<Rightarrow> pyval option"
  ge_resolve :: "string \<Rightarrow> string"
  ge_uuid :: string

record connector_config =
  core_url :: string
  display_name :: string
  installation_id :: string
  pairing_code :: "string option"
  ha_websocket_url :: string
  ha_access_token :: string
  ha_auth_mode :: string
  runtime_kind :: string
  state_dir :: string
  reconciliation_interval_seconds :: int
  heartbeat_interval_seconds :: int
  queue_max_age_seconds :: int
  queue_max_bytes :: int
  event_batch_size :: int
  retry_max_attempts :: int
  retry_base_seconds :: real
  circuit_failure_threshold :: int
  circuit_recovery_seconds :: int
  trusted_rule_package_key_ids :: "string set"
  rule_poll_interval_seconds :: int
  rule_evidence_max_rows :: int
  rule_evidence_retention_seconds :: int
  binding_poll_initial_seconds :: real
  binding_poll_max_seconds :: real
  claim_code_file :: "string option"
  cfg_tenant_id :: "string option"
  cfg_product_key :: "string option"
  cfg_device_name :: "string option"
  cfg_device_secret :: "string option"

section \<open>Reading single values\<close>

text \<open>\<open>os.getenv(name)\<close>, and \<open>os.getenv(name, "").strip()\<close>\<close>

definition getenv :: "config_env \<Rightarrow> string \<Rightarrow> pyval" where
  "getenv env name = (case ge_env env name of None \<Rightarrow> PNone | Some s \<Rightarrow> PStr s)"

definition getenv_text :: "config_env \<Rightarrow> string \<Rightarrow> string" where
  "getenv_text env name = strip (case ge_env env name of None \<Rightarrow> [] | Some s \<Rightarrow> s)"

text \<open>\<open>str(a or b).strip()\<close>\<close>

definition text_of :: "pyval \<Rightarrow> string" where
  "text_of v = strip (py_str v)"

definition first_text :: "string list \<Rightarrow> string" where
  "first_text xs = (case filter (\<lambda>s. s \<noteq> []) xs of [] \<Rightarrow> [] | s # _ \<Rightarrow> s)"

definition some_text :: "string \<Rightarrow> string option" where
  "some_text s = (if s = [] then None else Some s)"

definition required :: "config_env \<Rightarrow> string \<Rightarrow> string res" where
  "required env name =
     (let value = getenv_text env name
      in if value = [] then Inl (ValueError (name @ '' is required'')) else Inr value)"

definition required_secret_file :: "config_env \<Rightarrow> text_files \<Rightarrow> string \<Rightarrow> string res" where
  "required_secret_file env fs name =
     (let path = getenv_text env name
      in if path = [] then Inl (ValueError (name @ '' is required''))
         else case fs path of
           None \<Rightarrow> Inl (ValueError (name @ '' must point to a readable file''))
         | Some text \<Rightarrow>
             if strip text = [] then Inl (ValueError (name @ '' must not be empty''))
             else Inr (strip text))"

definition file_text :: "text_files \<Rightarrow> string \<Rightarrow> string" where
  "file_text fs path = (case fs path of None \<Rightarrow> [] | Some text \<Rightarrow> strip text)"

definition optional_secret_value ::
    "config_env \<Rightarrow> text_files \<Rightarrow> string \<Rightarrow> string \<Rightarrow> pydict \<Rightarrow> string \<Rightarrow> string" where
  "optional_secret_value env fs name file_env_name options option_key =
     (let path = getenv_text env file_env_name
      in if path \<noteq> [] then file_text fs path
         else text_of (py_or (py_or (getenv env name) (dget options option_key)) (PStr [])))"

definition secret_from_file :: "config_env \<Rightarrow> text_files \<Rightarrow> string \<Rightarrow> string" where
  "secret_from_file env fs file_env_name =
     (let path = getenv_text env file_env_name in if path = [] then [] else file_text fs path)"

definition config_value :: "config_env \<Rightarrow> string \<Rightarrow> pydict \<Rightarrow> string \<Rightarrow> string \<Rightarrow> bool \<Rightarrow> string res" where
  "config_value env name options option_key dflt is_required =
     (let value = text_of (py_or (py_or (getenv env name) (dget options option_key)) (PStr dflt))
      in if is_required \<and> value = []
         then Inl (ValueError (name @ '' or option '' @ option_key @ '' is required''))
         else Inr value)"

definition bounded_int ::
    "config_env \<Rightarrow> string \<Rightarrow> int \<Rightarrow> int \<Rightarrow> int \<Rightarrow> pydict \<Rightarrow> string \<Rightarrow> int res" where
  "bounded_int env name dflt minimum maximum options option_key =
     (let raw = (case ge_env env name of
            Some s \<Rightarrow> s
          | None \<Rightarrow> (case map_of options option_key of None \<Rightarrow> int_text dflt | Some v \<Rightarrow> py_str v))
      in rbind (if raw = [] then Inr dflt else py_int (PStr raw)) (\<lambda>value.
           if value < minimum \<or> maximum < value
           then Inl (ValueError (name @ '' must be between '' @ int_text minimum @ '' and '' @ int_text maximum))
           else Inr value))"

definition csv_set :: "string \<Rightarrow> string set res" where
  "csv_set value =
     (let items = filter (\<lambda>s. s \<noteq> []) (map strip (split_on (CHR '','') value))
      in if items = [] then Inl (ValueError ''ZEDIOT_RULE_PACKAGE_TRUSTED_KEY_IDS must not be empty'')
         else Inr (set items))"

definition config_runtime_kind :: "config_env \<Rightarrow> string \<Rightarrow> string res" where
  "config_runtime_kind env dflt =
     (let value = text_of (py_or (getenv env ''ZEDIOT_RUNTIME_KIND'') (PStr dflt))
      in if value \<notin> {''home_assistant_addon'', ''home_assistant_container''}
         then Inl (ValueError ''ZEDIOT_RUNTIME_KIND must be home_assistant_addon or home_assistant_container'')
         else Inr value)"

text \<open>
  The scheme and the network location as \<open>urllib.parse.urlsplit\<close> finds them: leading controls and
  blanks and all tabs and line ends are dropped, and an unbalanced bracket is an error. Its check
  of bracketed hosts, which newer interpreters add, is left out.
\<close>

definition scheme_char :: "char \<Rightarrow> bool" where
  "scheme_char c = (let n = of_char c :: nat in
     97 \<le> n \<and> n \<le> 122 \<or> 65 \<le> n \<and> n \<le> 90 \<or> 48 \<le> n \<and> n \<le> 57 \<or> n = 43 \<or> n = 45 \<or> n = 46)"

definition alpha_char :: "char \<Rightarrow> bool" where
  "alpha_char c = (let n = of_char c :: nat in 97 \<le> n \<and> n \<le> 122 \<or> 65 \<le> n \<and> n \<le> 90)"

definition url_parts :: "string \<Rightarrow> (string \<times> string) res" where
  "url_parts raw =
     (let url = filter (\<lambda>c. of_char c \<notin> {9, 10, 13 :: nat})
            (dropWhile (\<lambda>c. of_char c \<le> (32 :: nat)) raw);
          before = takeWhile (\<lambda>c. c \<noteq> CHR '':'') url;
          has_scheme = (before \<noteq> url \<and> before \<noteq> [] \<and> alpha_char (hd before) \<and> list_all scheme_char before);
          scheme = (if has_scheme then lower before else []);
          rest = (if has_scheme then drop (length before + 1) url else url);
          netloc = (if starts_with rest ''//''
                    then takeWhile (\<lambda>c. c \<notin> set ''/?#'') (drop 2 rest) else [])
      in if (CHR ''['' \<in> set netloc) \<noteq> (CHR '']'' \<in> set netloc)
         then Inl (ValueError ''Invalid IPv6 URL'') else Inr (scheme, netloc))"

definition validate_websocket_url :: "string \<Rightarrow> unit res" where
  "validate_websocket_url value =
     rbind (url_parts value) (\<lambda>(scheme, netloc).
       if scheme \<notin> {''ws'', ''wss''} \<or> netloc = []
       then Inl (ValueError ''ZEDIOT_HA_WEBSOCKET_URL must be an absolute ws:// or wss:// URL'')
       else Inr ())"

section \<open>Options, bundle, installation id\<close>

definition load_options :: "config_env \<Rightarrow> text_files \<Rightarrow> pydict res" where
  "load_options env fs =
     (case fs (case ge_env env ''ZEDIOT_OPTIONS_PATH'' of None \<Rightarrow> ''/data/options.json'' | Some p \<Rightarrow> p) of
        None \<Rightarrow> Inr []
      | Some text \<Rightarrow>
          (case ge_json env text of
             None \<Rightarrow> Inl (ValueError ''JSONDecodeError'')
           | Some (PDict d) \<Rightarrow> Inr d
           | Some _ \<Rightarrow> Inr []))"

text \<open>\<open>str(os.getenv(name) or "").strip() or str(options.get(key) or "").strip()\<close>\<close>

definition env_or_option :: "config_env \<Rightarrow> string \<Rightarrow> pydict \<Rightarrow> string \<Rightarrow> string" where
  "env_or_option env name options key =
     first_text [text_of (py_or (getenv env name) (PStr [])), text_of (py_or (dget options key) (PStr []))]"

definition load_provisioning_bundle :: "config_env \<Rightarrow> text_files \<Rightarrow> pydict \<Rightarrow> pydict res" where
  "load_provisioning_bundle env fs options =
     (let path = env_or_option env ''ZEDIOT_PROVISIONING_BUNDLE_FILE'' options ''provisioning_bundle_file''
      in if path = [] then Inr []
         else case fs path of
           None \<Rightarrow> Inr []
         | Some text \<Rightarrow>
             (case ge_json env text of
                None \<Rightarrow> Inl (ValueError ''ZEDIOT_PROVISIONING_BUNDLE_FILE is not valid JSON'')
              | Some (PDict d) \<Rightarrow> Inr d
              | Some _ \<Rightarrow> Inl (ValueError ''provisioning bundle must be a JSON object'')))"

record provisioning =
  pv_tenant :: "string option"
  pv_product :: "string option"
  pv_device :: "string option"
  pv_secret :: "string option"

definition provisioning_triple :: "config_env \<Rightarrow> text_files \<Rightarrow> pydict \<Rightarrow> provisioning res" where
  "provisioning_triple env fs options =
     rbind (load_provisioning_bundle env fs options) (\<lambda>bundle.
       let pick = (\<lambda>key name. some_text (first_text [env_or_option env name options key,
                     text_of (py_or (dget bundle key) (PStr []))]))
       in Inr \<lparr>pv_tenant = pick ''tenant_id'' ''ZEDIOT_TENANT_ID'',
               pv_product = pick ''product_key'' ''ZEDIOT_PRODUCT_KEY'',
               pv_device = pick ''device_name'' ''ZEDIOT_DEVICE_NAME'',
               pv_secret = some_text (first_text [secret_from_file env fs ''ZEDIOT_DEVICE_SECRET_FILE'',
                 text_of (py_or (dget bundle ''device_secret'') (PStr []))])\<rparr>)"

definition config_claim_code_file :: "config_env \<Rightarrow> string \<Rightarrow> pydict \<Rightarrow> string" where
  "config_claim_code_file env dir options =
     (let configured = env_or_option env ''ZEDIOT_CLAIM_CODE_FILE'' options ''claim_code_file''
      in if configured = [] then dir @ ''/claim_code'' else configured)"

definition config_installation_id :: "config_env \<Rightarrow> string \<Rightarrow> pydict \<Rightarrow> text_files \<Rightarrow> string \<times> text_files" where
  "config_installation_id env dir options fs =
     (let configured = text_of (py_or (py_or (getenv env ''ZEDIOT_INSTALLATION_ID'')
            (dget options ''installation_id'')) (PStr []));
          path = dir @ ''/installation_id''
      in if configured \<noteq> [] then (configured, fs)
         else if file_text fs path \<noteq> [] then (file_text fs path, fs)
         else (''ha-'' @ ge_uuid env, fs(path \<mapsto> ''ha-'' @ ge_uuid env)))"

section \<open>The whole configuration\<close>

definition with_bundle_url :: "config_env \<Rightarrow> pydict \<Rightarrow> pydict \<Rightarrow> pydict" where
  "with_bundle_url env bundle options =
     (if truthy (dget bundle ''core_url'') \<and> \<not> truthy (getenv env ''ZEDIOT_CORE_URL'')
      then dset options ''core_url'' (py_or (dget options ''core_url'') (dget bundle ''core_url''))
      else options)"

definition auth_mode :: "config_env \<Rightarrow> string res" where
  "auth_mode env =
     (let mode = text_of (py_or (getenv env ''ZEDIOT_HA_AUTH_MODE'')
            (PStr (if truthy (getenv env ''SUPERVISOR_TOKEN'') then ''supervisor'' else ''token_file'')))
      in if mode \<notin> {''supervisor'', ''token_file''}
         then Inl (ValueError ''ZEDIOT_HA_AUTH_MODE must be supervisor or token_file'')
         else Inr mode)"

text \<open>The access token, the default URL and the default runtime kind of a mode\<close>

definition access_of :: "config_env \<Rightarrow> text_files \<Rightarrow> string \<Rightarrow> (string \<times> string \<times> string) res" where
  "access_of env fs mode =
     (if mode = ''supervisor''
      then rbind (required env ''SUPERVISOR_TOKEN'') (\<lambda>token.
        Inr (token, ''ws://supervisor/core/websocket'', ''home_assistant_addon''))
      else rbind (required_secret_file env fs ''ZEDIOT_HA_TOKEN_FILE'') (\<lambda>token.
        Inr (token, ''ws://host.docker.internal:8123/api/websocket'', ''home_assistant_container'')))"

definition from_env :: "config_env \<Rightarrow> (text_files, connector_config) eff" where
  "from_env env =
     seq (asks (load_options env)) (\<lambda>o1. seq (lift_res o1) (\<lambda>options0.
     seq (asks (\<lambda>fs. load_provisioning_bundle env fs options0)) (\<lambda>b1. seq (lift_res b1) (\<lambda>bundle.
     let options = with_bundle_url env bundle options0;
         dir = ge_resolve env (case ge_env env ''ZEDIOT_STATE_DIR'' of None \<Rightarrow> ''/data'' | Some d \<Rightarrow> d)
     in
     seq (lift_res (auth_mode env)) (\<lambda>mode.
     seq (asks (\<lambda>fs. access_of env fs mode)) (\<lambda>a1. seq (lift_res a1) (\<lambda>(token, default_url, default_kind).
     let url = text_of (py_or (getenv env ''ZEDIOT_HA_WEBSOCKET_URL'') (PStr default_url)) in
     seq (lift_res (validate_websocket_url url)) (\<lambda>_.
     seq (lift_res (bounded_int env ''ZEDIOT_RECONCILIATION_INTERVAL_SECONDS'' 21600 21600 86400
       options ''reconciliation_interval_seconds'')) (\<lambda>reconciliation.
     seq (lift_res (config_value env ''ZEDIOT_CORE_URL'' options ''core_url'' [] True)) (\<lambda>core.
     seq (lift_res (config_value env ''ZEDIOT_CONNECTOR_DISPLAY_NAME'' options ''display_name''
       ''ZedIoT Hub Connector'' False)) (\<lambda>display.
     seq (\<lambda>fs. case config_installation_id env dir options fs of (i, fs') \<Rightarrow> (Inr i, fs')) (\<lambda>installation.
     seq (asks (\<lambda>fs. optional_secret_value env fs ''ZEDIOT_PAIRING_CODE'' ''ZEDIOT_PAIRING_CODE_FILE''
       options ''pairing_code'')) (\<lambda>pairing.
     seq (asks (\<lambda>fs. provisioning_triple env fs options)) (\<lambda>t1. seq (lift_res t1) (\<lambda>triple.
     seq (lift_res (config_runtime_kind env default_kind)) (\<lambda>kind.
     seq (lift_res (bounded_int env ''ZEDIOT_HEARTBEAT_INTERVAL_SECONDS'' 30 15 60
       options ''heartbeat_interval_seconds'')) (\<lambda>heartbeat.
     seq (lift_res (bounded_int env ''ZEDIOT_QUEUE_MAX_AGE_SECONDS'' 86400 3600 86400
       options ''queue_max_age_seconds'')) (\<lambda>max_age.
     seq (lift_res (bounded_int env ''ZEDIOT_QUEUE_MAX_BYTES'' (100 * 1024 * 1024) (1024 * 1024)
       (100 * 1024 * 1024) options ''queue_max_bytes'')) (\<lambda>max_bytes.
     seq (lift_res (bounded_int env ''ZEDIOT_EVENT_BATCH_SIZE'' 50 1 100
       options ''event_batch_size'')) (\<lambda>batch.
     seq (lift_res (rbind (config_value env ''ZEDIOT_RULE_PACKAGE_TRUSTED_KEY_IDS'' options
       ''rule_package_trusted_key_ids'' ''rule-package-signing-v1'' False) csv_set)) (\<lambda>trusted.
     seq (lift_res (bounded_int env ''ZEDIOT_RULE_POLL_INTERVAL_SECONDS'' 5 1 60
       options ''rule_poll_interval_seconds'')) (\<lambda>poll.
     seq (lift_res (bounded_int env ''ZEDIOT_RULE_EVIDENCE_MAX_ROWS'' 5000 100 50000
       options ''rule_evidence_max_rows'')) (\<lambda>rows.
     seq (lift_res (bounded_int env ''ZEDIOT_RULE_EVIDENCE_RETENTION_SECONDS'' (7 * 24 * 60 * 60) 86400
       (7 * 24 * 60 * 60) options ''rule_evidence_retention_seconds'')) (\<lambda>retention.
       ret \<lparr>core_url = rstrip_slashes core, display_name = display, installation_id = installation,
         pairing_code = some_text pairing, ha_websocket_url = url, ha_access_token = token,
         ha_auth_mode = mode, runtime_kind = kind, state_dir = dir,
         reconciliation_interval_seconds = reconciliation, heartbeat_interval_seconds = heartbeat,
         queue_max_age_seconds = max_age, queue_max_bytes = max_bytes, event_batch_size = batch,
         retry_max_attempts = 5, retry_base_seconds = 1, circuit_failure_threshold = 5,
         circuit_recovery_seconds = 60, trusted_rule_package_key_ids = trusted,
         rule_poll_interval_seconds = poll, rule_evidence_max_rows = rows,
         rule_evidence_retention_seconds = retention, binding_poll_initial_seconds = 5,
         binding_poll_max_seconds = 300,
         claim_code_file = Some (config_claim_code_file env dir options),
         cfg_tenant_id = pv_tenant triple, cfg_product_key = pv_product triple,
         cfg_device_name = pv_device triple, cfg_device_secret = pv_secret triple\<rparr>))))))))))))))))))))))))"

section \<open>What an accepted configuration guarantees\<close>

lemma bounded_int_range:
  "bounded_int env name d lo hi options key = Inr v \<Longrightarrow> lo \<le> v \<and> v \<le> hi"
  by (auto simp: bounded_int_def Let_def rbind_Inr_iff split: if_splits)

lemma csv_set_nonempty: "csv_set v = Inr items \<Longrightarrow> items \<noteq> {} \<and> [] \<notin> items"
  by (auto simp: csv_set_def Let_def split: if_splits)

lemma access_token_nonempty: "access_of env fs mode = Inr (token, url, kind) \<Longrightarrow> token \<noteq> []"
  by (auto simp: access_of_def required_def required_secret_file_def Let_def rbind_Inr_iff
      split: if_splits option.splits)

lemma installation_id_nonempty: "config_installation_id env dir options fs = (i, fs') \<Longrightarrow> i \<noteq> []"
  by (auto simp: config_installation_id_def Let_def split: if_splits)

lemma runtime_kind_allowed:
  "config_runtime_kind env d = Inr k \<Longrightarrow> k \<in> {''home_assistant_addon'', ''home_assistant_container''}"
  by (auto simp: config_runtime_kind_def Let_def split: if_splits)

lemma auth_mode_allowed: "auth_mode env = Inr m \<Longrightarrow> m \<in> {''supervisor'', ''token_file''}"
  by (auto simp: auth_mode_def Let_def split: if_splits)

text \<open>
  What an absolute WebSocket URL is, on the text itself: leaving out the characters \<open>urlsplit\<close>
  drops, it is the scheme \<open>ws\<close> or \<open>wss\<close> in any case, \<open>://\<close>, and a host that is not empty.
\<close>

definition absolute_websocket :: "string \<Rightarrow> bool" where
  "absolute_websocket url \<longleftrightarrow> (\<exists>scheme host rest.
     filter (\<lambda>c. of_char c \<notin> {9, 10, 13 :: nat}) (dropWhile (\<lambda>c. of_char c \<le> (32 :: nat)) url) =
       scheme @ ''://'' @ host @ rest \<and>
     lower scheme \<in> {''ws'', ''wss''} \<and> host \<noteq> [] \<and> set host \<inter> set ''/?#'' = {})"

lemma take_at_char:
  assumes "takeWhile (\<lambda>c. c \<noteq> x) xs \<noteq> xs"
  shows "xs = takeWhile (\<lambda>c. c \<noteq> x) xs @ x # drop (length (takeWhile (\<lambda>c. c \<noteq> x) xs) + 1) xs"
  using assms by (induction xs) auto

lemma accepted_url_is_absolute:
  assumes "validate_websocket_url url = Inr ()"
  shows "absolute_websocket url"
proof -
  define cleaned where "cleaned = filter (\<lambda>c. of_char c \<notin> {9, 10, 13 :: nat})
    (dropWhile (\<lambda>c. of_char c \<le> (32 :: nat)) url)"
  define scheme where "scheme = takeWhile (\<lambda>c. c \<noteq> CHR '':'') cleaned"
  define rest where "rest = drop (length scheme + 1) cleaned"
  define host where "host = takeWhile (\<lambda>c. c \<notin> set ''/?#'') (drop 2 rest)"
  obtain sch netloc where url: "url_parts url = Inr (sch, netloc)" "sch \<in> {''ws'', ''wss''}" "netloc \<noteq> []"
    using assms by (auto simp: validate_websocket_url_def rbind_Inr_iff split: if_splits)
  have "lower scheme \<in> {''ws'', ''wss''} \<and> scheme \<noteq> cleaned \<and> starts_with rest ''//'' \<and> host \<noteq> []"
  proof (cases "scheme \<noteq> cleaned \<and> scheme \<noteq> [] \<and> alpha_char (hd scheme) \<and> list_all scheme_char scheme")
    case True
    then show ?thesis
      using url unfolding url_parts_def Let_def cleaned_def [symmetric] scheme_def [symmetric]
        rest_def [symmetric]
      by (auto simp: True host_def split: if_splits)
  next
    case False
    have "sch = []"
      using url(1) unfolding url_parts_def Let_def cleaned_def [symmetric] scheme_def [symmetric]
        if_not_P [OF False]
      by (simp split: if_splits)
    with url(2) show ?thesis by simp
  qed
  then have parts: "lower scheme \<in> {''ws'', ''wss''}" "scheme \<noteq> cleaned" "starts_with rest ''//''" "host \<noteq> []"
    by blast+
  have "cleaned = scheme @ CHR '':'' # rest"
    using take_at_char [of "CHR '':''" cleaned] parts(2) by (simp add: scheme_def rest_def)
  moreover have "rest = ''//'' @ drop 2 rest"
    using parts(3) by (auto simp: starts_with_def prefix_def)
  moreover have "drop 2 rest = host @ dropWhile (\<lambda>c. c \<notin> set ''/?#'') (drop 2 rest)"
    unfolding host_def by (rule takeWhile_dropWhile_id [symmetric])
  ultimately have "cleaned = scheme @ ''://'' @ host @ dropWhile (\<lambda>c. c \<notin> set ''/?#'') (drop 2 rest)"
    by (metis append_Cons append_Nil append_assoc)
  moreover have "set host \<inter> set ''/?#'' = {}"
    unfolding host_def by (auto dest: set_takeWhileD)
  ultimately show ?thesis
    using parts(1,4) unfolding absolute_websocket_def cleaned_def [symmetric] by blast
qed

definition config_ok :: "connector_config \<Rightarrow> bool" where
  "config_ok c \<longleftrightarrow> reconciliation_interval_seconds c \<in> {21600..86400} \<and>
     heartbeat_interval_seconds c \<in> {15..60} \<and> queue_max_age_seconds c \<in> {3600..86400} \<and>
     queue_max_bytes c \<in> {1048576..104857600} \<and> event_batch_size c \<in> {1..100} \<and>
     rule_poll_interval_seconds c \<in> {1..60} \<and> rule_evidence_max_rows c \<in> {100..50000} \<and>
     rule_evidence_retention_seconds c \<in> {86400..604800} \<and> 1 \<le> retry_max_attempts c \<and>
     0 < retry_base_seconds c \<and> 1 \<le> circuit_failure_threshold c \<and> 0 < circuit_recovery_seconds c \<and>
     0 < binding_poll_initial_seconds c \<and> binding_poll_initial_seconds c \<le> binding_poll_max_seconds c \<and>
     trusted_rule_package_key_ids c \<noteq> {} \<and> ha_access_token c \<noteq> [] \<and> installation_id c \<noteq> [] \<and>
     ha_auth_mode c \<in> {''supervisor'', ''token_file''} \<and>
     runtime_kind c \<in> {''home_assistant_addon'', ''home_assistant_container''} \<and>
     absolute_websocket (ha_websocket_url c)"

text \<open>
  C20: an accepted configuration is within its bounds: whatever the environment, the options, the
  bundle and the files hold, a configuration that is returned has every interval, size and limit
  in its documented range (those read from outside as well as the constants of the retries and of
  the circuit breaker), a non-empty set of trusted keys, a token, an installation id and a
  WebSocket URL that reads \<open>ws://\<close> or \<open>wss://\<close> followed by a host. Anything else is an error at
  start.
\<close>

theorem accepted_configuration_is_bounded:
  assumes "from_env env fs = (Inr c, fs')"
  shows "config_ok c"
  using assms unfolding from_env_def
  apply (auto simp: Let_def elim!: seq_InrE)
  apply (simp_all add: lift_res_def asks_def ret_def rbind_Inr_iff split: prod.splits)
  apply (drule bounded_int_range)+
  apply (drule csv_set_nonempty access_token_nonempty installation_id_nonempty runtime_kind_allowed
      auth_mode_allowed accepted_url_is_absolute)+
  apply (clarsimp simp: config_ok_def)
  done

text \<open>
  The device secret never comes from the environment or the options: two starts that agree on
  which files hold the secret and the bundle, and on those files, use the same secret, whatever
  else the environment and the options say.
\<close>

theorem device_secret_comes_from_files:
  assumes "ge_json env = ge_json env'"
    and "getenv_text env ''ZEDIOT_DEVICE_SECRET_FILE'' = getenv_text env' ''ZEDIOT_DEVICE_SECRET_FILE''"
    and "env_or_option env ''ZEDIOT_PROVISIONING_BUNDLE_FILE'' options ''provisioning_bundle_file'' =
      env_or_option env' ''ZEDIOT_PROVISIONING_BUNDLE_FILE'' options' ''provisioning_bundle_file''"
    and "provisioning_triple env fs options = Inr p" "provisioning_triple env' fs options' = Inr p'"
  shows "pv_secret p = pv_secret p'"
proof -
  have "load_provisioning_bundle env fs options = load_provisioning_bundle env' fs options'"
    by (simp only: load_provisioning_bundle_def assms(1,3))
  moreover have "secret_from_file env fs ''ZEDIOT_DEVICE_SECRET_FILE'' =
      secret_from_file env' fs ''ZEDIOT_DEVICE_SECRET_FILE''"
    using assms(2) by (simp add: secret_from_file_def)
  ultimately show ?thesis
    using assms(4,5) by (auto simp: provisioning_triple_def rbind_Inr_iff Let_def)
qed

text \<open>
  C37: the installation id is kept: when none is configured, every later start with the file
  written by the first one uses the same id, whatever a new random id would be, and writes nothing.
\<close>

theorem installation_id_is_kept:
  assumes "config_installation_id env dir options fs = (i, fs')"
    and "\<forall>c \<in> set (ge_uuid env). \<not> is_space c"
    and "ge_env env' ''ZEDIOT_INSTALLATION_ID'' = ge_env env ''ZEDIOT_INSTALLATION_ID''"
  shows "config_installation_id env' dir options fs' = (i, fs')"
proof -
  have "strip (''ha-'' @ ge_uuid env) = ''ha-'' @ ge_uuid env"
    using assms(2) by (intro strip_solid) (auto simp: is_space_def Let_def list_all_iff)
  then show ?thesis
    using assms by (auto simp: config_installation_id_def Let_def getenv_def file_text_def split: if_splits)
qed

section \<open>Witnesses\<close>

definition sample_config_env :: "string \<Rightarrow> config_env" where
  "sample_config_env uuid = \<lparr>ge_env = map_of
       [(''SUPERVISOR_TOKEN'', ''secret''), (''ZEDIOT_CORE_URL'', ''https://core/''),
        (''ZEDIOT_RECONCILIATION_INTERVAL_SECONDS'', ''21600''), (''ZEDIOT_HEARTBEAT_INTERVAL_SECONDS'', '' 15 ''),
        (''ZEDIOT_QUEUE_MAX_AGE_SECONDS'', ''3600''), (''ZEDIOT_QUEUE_MAX_BYTES'', ''104857600''),
        (''ZEDIOT_EVENT_BATCH_SIZE'', ''100''), (''ZEDIOT_RULE_POLL_INTERVAL_SECONDS'', ''1''),
        (''ZEDIOT_RULE_EVIDENCE_MAX_ROWS'', ''50000''), (''ZEDIOT_RULE_EVIDENCE_RETENTION_SECONDS'', ''86400'')],
     ge_json = (\<lambda>_. None), ge_resolve = (\<lambda>p. p), ge_uuid = uuid\<rparr>"

lemma sample_config_parts:
  fixes e defines "e \<equiv> sample_config_env ''0a''"
  shows "load_options e Map.empty = Inr []" "load_provisioning_bundle e Map.empty [] = Inr []"
    "with_bundle_url e [] [] = []" "auth_mode e = Inr ''supervisor''"
    "access_of e Map.empty ''supervisor'' = Inr (''secret'', ''ws://supervisor/core/websocket'', ''home_assistant_addon'')"
    "text_of (py_or (getenv e ''ZEDIOT_HA_WEBSOCKET_URL'') (PStr ''ws://supervisor/core/websocket'')) =
       ''ws://supervisor/core/websocket''"
    "validate_websocket_url ''ws://supervisor/core/websocket'' = Inr ()"
    "config_value e ''ZEDIOT_CORE_URL'' [] ''core_url'' [] True = Inr ''https://core/''"
    "config_value e ''ZEDIOT_CONNECTOR_DISPLAY_NAME'' [] ''display_name'' ''ZedIoT Hub Connector'' False =
       Inr ''ZedIoT Hub Connector''"
    "config_runtime_kind e ''home_assistant_addon'' = Inr ''home_assistant_addon''"
    "config_value e ''ZEDIOT_RULE_PACKAGE_TRUSTED_KEY_IDS'' [] ''rule_package_trusted_key_ids''
       ''rule-package-signing-v1'' False = Inr ''rule-package-signing-v1''"
    "csv_set ''rule-package-signing-v1'' = Inr {''rule-package-signing-v1''}"
    "ge_env e ''ZEDIOT_STATE_DIR'' = None"
    "fst (config_installation_id e ''/data'' [] Map.empty) = ''ha-0a''"
    "\<not> isl (provisioning_triple e (snd (config_installation_id e ''/data'' [] Map.empty)) [])"
  unfolding e_def by code_simp+

lemma sample_config_ints:
  fixes e defines "e \<equiv> sample_config_env ''0a''"
  shows "bounded_int e ''ZEDIOT_RECONCILIATION_INTERVAL_SECONDS'' 21600 21600 86400 [] k = Inr 21600"
    "bounded_int e ''ZEDIOT_HEARTBEAT_INTERVAL_SECONDS'' 30 15 60 [] k = Inr 15"
    "bounded_int e ''ZEDIOT_QUEUE_MAX_AGE_SECONDS'' 86400 3600 86400 [] k = Inr 3600"
    "bounded_int e ''ZEDIOT_QUEUE_MAX_BYTES'' 104857600 1048576 104857600 [] k = Inr 104857600"
    "bounded_int e ''ZEDIOT_EVENT_BATCH_SIZE'' 50 1 100 [] k = Inr 100"
    "bounded_int e ''ZEDIOT_RULE_POLL_INTERVAL_SECONDS'' 5 1 60 [] k = Inr 1"
    "bounded_int e ''ZEDIOT_RULE_EVIDENCE_MAX_ROWS'' 5000 100 50000 [] k = Inr 50000"
    "bounded_int e ''ZEDIOT_RULE_EVIDENCE_RETENTION_SECONDS'' 604800 86400 604800 [] k = Inr 86400"
  unfolding e_def by code_simp+

theorem accepted_configuration_is_bounded_witness:
  "\<exists>c fs'. from_env (sample_config_env ''0a'') Map.empty = (Inr c, fs') \<and> config_ok c"
proof -
  let ?e = "sample_config_env ''0a''"
  obtain i fs1 where i: "config_installation_id ?e ''/data'' [] Map.empty = (i, fs1)"
    by (cases "config_installation_id ?e ''/data'' [] Map.empty")
  obtain p where p: "provisioning_triple ?e fs1 [] = Inr p"
    using sample_config_parts(15) i by (cases "provisioning_triple ?e fs1 []") auto
  have dir: "ge_resolve ?e = (\<lambda>p. p)" by (simp add: sample_config_env_def)
  have "\<exists>c. from_env ?e Map.empty = (Inr c, fs1)"
    unfolding from_env_def
    by (simp add: eff_simps Let_def sample_config_parts sample_config_ints i p dir)
  then obtain c where c: "from_env ?e Map.empty = (Inr c, fs1)" ..
  from accepted_configuration_is_bounded [OF c] c show ?thesis by (intro exI conjI)
qed

lemma provisioning_secret:
  assumes "provisioning_triple env fs options = Inr p" "load_provisioning_bundle env fs options = Inr bundle"
  shows "pv_secret p = some_text (first_text [secret_from_file env fs ''ZEDIOT_DEVICE_SECRET_FILE'',
    text_of (py_or (dget bundle ''device_secret'') (PStr []))])"
  using assms by (auto simp: provisioning_triple_def Let_def)

definition secret_env :: "(string \<times> string) list \<Rightarrow> config_env" where
  "secret_env rest = sample_config_env ''0a''\<lparr>ge_env :=
     map_of ((''ZEDIOT_DEVICE_SECRET_FILE'', ''/run/secret'') # rest)\<rparr>"

definition secret_files :: text_files where
  "secret_files = [''/run/secret'' \<mapsto> ''s3cret'']"

theorem device_secret_comes_from_files_witness:
  "\<exists>p p'. provisioning_triple (secret_env []) secret_files [] = Inr p \<and>
      provisioning_triple (secret_env [(''ZEDIOT_DEVICE_SECRET'', ''leak'')]) secret_files
        [(''device_secret'', PStr ''leak'')] = Inr p' \<and>
      pv_secret p = Some ''s3cret'' \<and> pv_secret p' = Some ''s3cret''"
proof -
  let ?env = "secret_env []" and ?env' = "secret_env [(''ZEDIOT_DEVICE_SECRET'', ''leak'')]"
  let ?options' = "[(''device_secret'', PStr ''leak'')]"
  have no_bundle: "env_or_option ?env ''ZEDIOT_PROVISIONING_BUNDLE_FILE'' [] ''provisioning_bundle_file'' = []"
    "env_or_option ?env' ''ZEDIOT_PROVISIONING_BUNDLE_FILE'' ?options' ''provisioning_bundle_file'' = []"
    by code_simp+
  then have empty: "load_provisioning_bundle ?env secret_files [] = Inr []"
    "load_provisioning_bundle ?env' secret_files ?options' = Inr []"
    by (simp_all add: load_provisioning_bundle_def)
  obtain p where run: "provisioning_triple ?env secret_files [] = Inr p"
    by (simp add: provisioning_triple_def empty Let_def)
  obtain p' where run': "provisioning_triple ?env' secret_files ?options' = Inr p'"
    by (simp add: provisioning_triple_def empty Let_def)
  have secret_path: "getenv_text (secret_env rest) ''ZEDIOT_DEVICE_SECRET_FILE'' = ''/run/secret''" for rest
  proof -
    have "strip ''/run/secret'' = ''/run/secret''" by code_simp
    then show ?thesis by (simp add: getenv_text_def secret_env_def)
  qed
  have "strip ''s3cret'' = ''s3cret''" by code_simp
  then have "secret_from_file ?env secret_files ''ZEDIOT_DEVICE_SECRET_FILE'' = ''s3cret''"
    by (simp add: secret_from_file_def secret_path file_text_def secret_files_def)
  then have "pv_secret p = Some ''s3cret''"
    using provisioning_secret [OF run empty(1)] by (simp add: first_text_def some_text_def)
  moreover have "pv_secret p = pv_secret p'"
  proof (rule device_secret_comes_from_files [OF _ _ _ run run'])
    show "ge_json ?env = ge_json ?env'" by (simp add: secret_env_def)
  qed (simp_all only: secret_path no_bundle)
  ultimately show ?thesis using run run' by (intro exI [of _ p] exI [of _ p'] conjI) simp_all
qed

theorem installation_id_is_kept_witness:
  "let q = config_installation_id (sample_config_env ''0a'') ''/data'' [] Map.empty
   in fst q = ''ha-0a'' \<and> config_installation_id (sample_config_env ''ff'') ''/data'' [] (snd q) = q"
proof -
  obtain i fs' where q: "config_installation_id (sample_config_env ''0a'') ''/data'' [] Map.empty = (i, fs')"
    by (cases "config_installation_id (sample_config_env ''0a'') ''/data'' [] Map.empty")
  have "fst (config_installation_id (sample_config_env ''0a'') ''/data'' [] Map.empty) = ''ha-0a''"
    by code_simp
  moreover have "\<forall>c \<in> set (ge_uuid (sample_config_env ''0a'')). \<not> is_space c" by code_simp
  ultimately show ?thesis
    using installation_id_is_kept [OF q, of "sample_config_env ''ff''"] q
    by (simp add: sample_config_env_def)
qed

end
