(* ===== verification/Connector.thy ===== *)
theory Connector
  imports Uplink_Queue Reliability Rule_Runtime Command_Executor Core_Client Snapshot Config
begin

text \<open>
  The state of \<open>HubConnectorRuntime\<close> (\<open>runtime.py\<close>), which holds every component, and its
  sessions with Core. The clock, the stop signal and the random numbers are the environment: a
  reading of a clock gives \<open>cn_now\<close> and lets \<open>ne_drift\<close> pass; both of Python's clocks are this
  one. \<open>stop_event\<close> is set by the connector itself (\<open>cn_stop\<close>) or by a signal at \<open>ne_stop_at\<close>.
  The methods of the connector are computations on this state; each runs without other threads
  changing it in between, which the code does not guarantee for all of them.
\<close>

section \<open>Environment and state\<close>

record connector_env =
  ne_config :: connector_config
  ne_core :: core_env
  ne_crypto :: package_crypto
  ne_float :: "string \<Rightarrow> (fval \<times> string) option"
  ne_client :: ha_client
  ne_drift :: "nat \<Rightarrow> nat"
  ne_random :: "nat \<Rightarrow> real"
  ne_error_text :: "exn \<Rightarrow> string" \<comment> \<open>what a library's error says of itself\<close>
  ne_stop_at :: "time option"
  ne_fuel :: nat \<comment> \<open>rounds of a loop that only ends when Core relents or a stop is requested\<close>

record connector =
  cn_identity :: "identity option"
  cn_session :: "hub_session option"
  cn_rule_instance :: "string option" \<comment> \<open>of \<open>local_rule_runtime\<close>, if there is one\<close>
  cn_cursor :: pydict
  cn_binding :: string
  cn_failure :: "string option"
  cn_snapshot_pending :: bool
  cn_breaker :: circuit_breaker
  cn_queue :: uplink_queue
  cn_rules :: rule_store
  cn_receipts :: command_store
  cn_ha :: ha_world
  cn_core :: core_client
  cn_files :: identity_store
  cn_claim :: "string option option" \<comment> \<open>the claim code file: missing, unreadable, or its text\<close>
  cn_stop :: bool
  cn_shutdown_reason :: string
  cn_now :: time
  cn_tick :: nat

section \<open>Time\<close>

definition now_tick :: "connector_env \<Rightarrow> (connector, time) eff" where
  "now_tick env s =
     (Inr (cn_now s), s\<lparr>cn_now := cn_now s + int (ne_drift env (cn_tick s)), cn_tick := Suc (cn_tick s)\<rparr>)"

definition micros :: "real \<Rightarrow> time" where
  "micros seconds = \<lfloor>seconds * 1000000\<rfloor>"

definition seconds_of :: "time \<Rightarrow> real" where
  "seconds_of t = real_of_int t / 1000000"

definition sleep_for :: "connector_env \<Rightarrow> real \<Rightarrow> connector \<Rightarrow> connector" where
  "sleep_for env d s =
     s\<lparr>cn_now := cn_now s + micros d + int (ne_drift env (cn_tick s)), cn_tick := Suc (cn_tick s)\<rparr>"

definition stopping :: "connector_env \<Rightarrow> connector \<Rightarrow> bool" where
  "stopping env s \<longleftrightarrow> cn_stop s \<or> (case ne_stop_at env of None \<Rightarrow> False | Some t \<Rightarrow> t \<le> cn_now s)"

text \<open>\<open>stop_event.wait(d)\<close>: returns at once, at the signal, or after \<open>d\<close>.\<close>

definition stop_wait :: "connector_env \<Rightarrow> real \<Rightarrow> (connector, bool) eff" where
  "stop_wait env d s =
     (if stopping env s then (Inr True, s)
      else case ne_stop_at env of
        Some t \<Rightarrow> (if t \<le> cn_now s + micros d then (Inr True, s\<lparr>cn_now := t\<rparr>)
                  else (Inr False, sleep_for env d s))
      | None \<Rightarrow> (Inr False, sleep_for env d s))"

definition draw_random :: "connector_env \<Rightarrow> connector \<Rightarrow> real \<times> connector" where
  "draw_random env s = (ne_random env (cn_tick s), s\<lparr>cn_tick := Suc (cn_tick s)\<rparr>)"

section \<open>Parts\<close>

definition on_core :: "(core_client, 'a) eff \<Rightarrow> (connector, 'a) eff" where
  "on_core = zoom cn_core (\<lambda>c s. s\<lparr>cn_core := c\<rparr>)"

definition on_queue :: "(uplink_queue, 'a) eff \<Rightarrow> (connector, 'a) eff" where
  "on_queue = zoom cn_queue (\<lambda>q s. s\<lparr>cn_queue := q\<rparr>)"

definition on_rule_store :: "(rule_store, 'a) eff \<Rightarrow> (connector, 'a) eff" where
  "on_rule_store = zoom cn_rules (\<lambda>q s. s\<lparr>cn_rules := q\<rparr>)"

definition on_files :: "(identity_store, 'a) eff \<Rightarrow> (connector, 'a) eff" where
  "on_files = zoom cn_files (\<lambda>q s. s\<lparr>cn_files := q\<rparr>)"

definition on_home :: "(ha_world, 'a) eff \<Rightarrow> (connector, 'a) eff" where
  "on_home = zoom cn_ha (\<lambda>q s. s\<lparr>cn_ha := q\<rparr>)"

definition queue_get :: "(uplink_queue \<Rightarrow> 'a \<times> uplink_queue) \<Rightarrow> (connector, 'a) eff" where
  "queue_get f = on_queue (\<lambda>q. case f q of (a, q') \<Rightarrow> (Inr a, q'))"

definition queue_do :: "(uplink_queue \<Rightarrow> uplink_queue) \<Rightarrow> (connector, unit) eff" where
  "queue_do f = on_queue (\<lambda>q. (Inr (), f q))"

definition executor_env_of :: "connector_env \<Rightarrow> executor_env" where
  "executor_env_of env = \<lparr>hx_sha = pc_sha (ne_crypto env), hx_fromiso = pc_fromiso (ne_crypto env),
     hx_client = ne_client env, hx_drift = ne_drift env\<rparr>"

definition executor_of :: "connector \<Rightarrow> executor" where
  "executor_of s = \<lparr>hx_receipts = cn_receipts s, hx_world = cn_ha s, hx_now = cn_now s, hx_tick = cn_tick s\<rparr>"

definition put_executor :: "executor \<Rightarrow> connector \<Rightarrow> connector" where
  "put_executor x s = s\<lparr>cn_receipts := hx_receipts x, cn_ha := hx_world x, cn_now := hx_now x, cn_tick := hx_tick x\<rparr>"

definition on_executor :: "(executor, 'a) eff \<Rightarrow> (connector, 'a) eff" where
  "on_executor = zoom executor_of put_executor"

text \<open>
  The rule runtime reads its clock as a function of the number of readings; here it is the
  connector's clock from the present on.
\<close>

definition clock_from :: "connector_env \<Rightarrow> connector \<Rightarrow> nat \<Rightarrow> time" where
  "clock_from env s n = cn_now s + int (\<Sum>k<n. ne_drift env (cn_tick s + k))"

definition rule_env_of :: "connector_env \<Rightarrow> string \<Rightarrow> connector \<Rightarrow> rule_env" where
  "rule_env_of env instance s = \<lparr>re_crypto = ne_crypto env, re_client = ne_client env, re_instance = instance,
     re_trusted = trusted_rule_package_key_ids (ne_config env), re_float = ne_float env,
     re_clock = clock_from env s\<rparr>"

definition on_rule_runtime ::
    "connector_env \<Rightarrow> string \<Rightarrow> (rule_env \<Rightarrow> (rule_runtime, 'a) eff) \<Rightarrow> (connector, 'a) eff" where
  "on_rule_runtime env instance m s =
     (case m (rule_env_of env instance s) \<lparr>rt_store = cn_rules s, rt_world = cn_ha s, rt_tick = 0\<rparr> of
        (r, x) \<Rightarrow> (r, s\<lparr>cn_rules := rt_store x, cn_ha := rt_world x,
                        cn_now := clock_from env s (rt_tick x), cn_tick := cn_tick s + rt_tick x\<rparr>))"

section \<open>The circuit breaker\<close>

definition breaker_failure :: "connector_env \<Rightarrow> (connector, unit) eff" where
  "breaker_failure env = seq (now_tick env) (\<lambda>now.
     modify (\<lambda>s. s\<lparr>cn_breaker := cb_failure (seconds_of now) (cn_breaker s)\<rparr>))"

definition breaker_success :: "circuit_permit \<Rightarrow> (connector, unit) eff" where
  "breaker_success p = modify (\<lambda>s. s\<lparr>cn_breaker := snd (cb_success p (cn_breaker s))\<rparr>)"

definition breaker_allow :: "connector_env \<Rightarrow> (connector, circuit_permit option) eff" where
  "breaker_allow env = seq (now_tick env) (\<lambda>now s.
     case cb_allow (seconds_of now) (cn_breaker s) of (p, b) \<Rightarrow> (Inr p, s\<lparr>cn_breaker := b\<rparr>))"

definition circuit_now :: "(connector, string) eff" where
  "circuit_now = asks (\<lambda>s. circuit_text (cb_current_state (cn_breaker s)))"

text \<open>\<open>except Exception: self.breaker.failure(); raise\<close>\<close>

definition failing :: "connector_env \<Rightarrow> (connector, 'a) eff \<Rightarrow> (connector, 'a) eff" where
  "failing env m = try_except m (\<lambda>e. seq (breaker_failure env) (\<lambda>_. throw e))"

text \<open>\<open>retry_bounded\<close> as every call of Core uses it\<close>

definition retryable_core_error :: "exn \<Rightarrow> bool" where
  "retryable_core_error e = (case e of HubSessionInvalidError _ _ \<Rightarrow> False | _ \<Rightarrow> True)"

definition core_retry :: "connector_env \<Rightarrow> (connector, 'a) eff \<Rightarrow> (connector, 'a) eff" where
  "core_retry env m = retry_bounded m (retry_max_attempts (ne_config env)) (retry_base_seconds (ne_config env))
     (sleep_for env) (draw_random env) retryable_core_error"

section \<open>Sessions\<close>

definition GRANT_INVENTORY_READ :: string where "GRANT_INVENTORY_READ = ''inventory_read''"
definition GRANT_STATE_UPLINK :: string where "GRANT_STATE_UPLINK = ''state_uplink''"
definition GRANT_COMMAND_DOWNLINK :: string where "GRANT_COMMAND_DOWNLINK = ''command_downlink''"
definition GRANT_LOCAL_RULE_RUNTIME :: string where "GRANT_LOCAL_RULE_RUNTIME = ''local_rule_runtime''"

text \<open>The wait after a lease conflict; a NaN, which no answer leads to, would stay one.\<close>

definition lease_conflict_wait_seconds :: "fval option \<Rightarrow> real" where
  "lease_conflict_wait_seconds retry =
     (case retry of
        None \<Rightarrow> 30
      | Some (Fin q) \<Rightarrow> min (max (real_of_rat q) 0 + 1) 600
      | Some NegInf \<Rightarrow> 1
      | Some _ \<Rightarrow> 600)"

text \<open>
  The loop of \<open>_establish_session\<close>: \<open>None\<close> when a stop was requested while waiting for the lease.
\<close>

primrec connect_loop ::
    "connector_env \<Rightarrow> identity \<Rightarrow> nat \<Rightarrow> (connector, hub_session option) eff" where
  "connect_loop env i 0 = throw NoFuel"
| "connect_loop env i (Suc n) =
     seq (now_tick env) (\<lambda>now.
       catch (seq (asks cn_cursor) (\<lambda>cursor.
              seq (on_core (connect_session (ne_core env) now i (PDict cursor))) (\<lambda>session. ret (Some session))))
         (\<lambda>e. case e of
            HubLeaseConflictError retry expires \<Rightarrow>
              seq (stop_wait env (lease_conflict_wait_seconds retry)) (\<lambda>stopped.
                if stopped then ret None else connect_loop env i n)
          | _ \<Rightarrow> throw e))"

definition adopt_session :: "hub_session \<Rightarrow> (connector, unit) eff" where
  "adopt_session session =
     seq (modify (\<lambda>s. s\<lparr>cn_session := Some session, cn_rule_instance :=
            (if allows session GRANT_LOCAL_RULE_RUNTIME then Some (integration_instance_id session) else None)\<rparr>)) (\<lambda>_.
     let server_cursor = (case resume_cursor session of None \<Rightarrow> [] | Some d \<Rightarrow> d) in
     seq (lift_res (py_int (py_or (dget server_cursor ''uplink_sequence'') (PInt 0)))) (\<lambda>acknowledged.
     seq (modify (\<lambda>s. s\<lparr>cn_cursor := (if server_cursor = [] then [(''uplink_sequence'', PInt acknowledged)]
            else server_cursor)\<rparr>)) (\<lambda>_.
     seq (on_queue (synchronize_with_server_cursor acknowledged)) (\<lambda>_. ret ()))))"

definition establish_session :: "connector_env \<Rightarrow> identity \<Rightarrow> (connector, unit) eff" where
  "establish_session env i =
     seq (modify (\<lambda>s. s\<lparr>cn_binding := BINDING_READY\<rparr>)) (\<lambda>_.
     seq (connect_loop env i (ne_fuel env)) (\<lambda>session.
       case session of None \<Rightarrow> ret () | Some x \<Rightarrow> adopt_session x))"

definition core_authenticate :: "connector_env \<Rightarrow> identity \<Rightarrow> (connector, unit) eff" where
  "core_authenticate env i = on_core (authenticate (ne_core env) i)"

definition recover_session :: "connector_env \<Rightarrow> string \<Rightarrow> (connector, unit) eff" where
  "recover_session env sid =
     seq (asks cn_session) (\<lambda>session.
       if (case session of None \<Rightarrow> False | Some x \<Rightarrow> session_id x \<noteq> sid) then ret ()
       else
         seq (asks cn_identity) (\<lambda>i.
           case i of
             None \<Rightarrow> throw (RuntimeError ''HUB_IDENTITY_NOT_READY'')
           | Some i \<Rightarrow> seq (core_authenticate env i) (\<lambda>_. establish_session env i)))"

definition recover_after_session_error :: "connector_env \<Rightarrow> string \<Rightarrow> (connector, unit) eff" where
  "recover_after_session_error env sid =
     seq (asks (\<lambda>s. cb_observe (cn_breaker s))) (\<lambda>permit.
       try_except (seq (recover_session env sid) (\<lambda>_. breaker_success permit))
         (\<lambda>_. seq (breaker_failure env) (\<lambda>_. modify (sleep_for env 1))))"

text \<open>\<open>if not self.identity or not self.session: raise\<close>\<close>

definition ready :: "(connector, identity \<times> hub_session) eff" where
  "ready = seq (asks cn_identity) (\<lambda>i. seq (asks cn_session) (\<lambda>session.
     case (i, session) of
       (Some i, Some x) \<Rightarrow> ret (i, x)
     | _ \<Rightarrow> throw (RuntimeError ''HUB_SESSION_NOT_READY'')))"

definition heartbeat :: "connector_env \<Rightarrow> (connector, pydict) eff" where
  "heartbeat env =
     seq ready (\<lambda>(i, session).
     seq (asks cn_cursor) (\<lambda>cursor.
     seq (now_tick env) (\<lambda>now.
     seq (queue_get (summary now)) (\<lambda>q.
     seq circuit_now (\<lambda>circuit.
     seq (now_tick env) (\<lambda>now.
       on_core (core_heartbeat (ne_core env) now i session cursor (queue_depth q) (summary_bytes q)
         (dropped_count q) circuit)))))))"

definition disconnect :: "connector_env \<Rightarrow> (connector, unit) eff" where
  "disconnect env =
     seq (asks cn_identity) (\<lambda>i. seq (asks cn_session) (\<lambda>session.
     seq (modify (\<lambda>s. s\<lparr>cn_session := None\<rparr>)) (\<lambda>_.
     seq (asks cn_shutdown_reason) (\<lambda>reason.
       case (i, session) of
         (Some _, Some x) \<Rightarrow>
           try_except (seq (on_core (disconnect_session (ne_core env) x reason)) (\<lambda>_. ret ()))
             (\<lambda>_. breaker_failure env)
       | _ \<Rightarrow> ret ()))))"

definition request_stop :: "string \<Rightarrow> (connector, unit) eff" where
  "request_stop reason = modify (\<lambda>s. s\<lparr>cn_shutdown_reason := take 120 reason, cn_stop := True\<rparr>)"

section \<open>Concrete connectors\<close>

definition sample_config :: connector_config where
  "sample_config = \<lparr>core_url = ''https://core'', display_name = ''hub'', installation_id = ''ha-1'',
     pairing_code = None, ha_websocket_url = ''ws://home'', ha_access_token = ''token'',
     ha_auth_mode = ''supervisor'', runtime_kind = ''home_assistant_addon'', state_dir = ''/data'',
     reconciliation_interval_seconds = 21600, heartbeat_interval_seconds = 30, queue_max_age_seconds = 86400,
     queue_max_bytes = 1048576, event_batch_size = 50, retry_max_attempts = 1, retry_base_seconds = 1,
     circuit_failure_threshold = 5, circuit_recovery_seconds = 30,
     trusted_rule_package_key_ids = {''k1''}, rule_poll_interval_seconds = 5, rule_evidence_max_rows = 5000,
     rule_evidence_retention_seconds = 604800, binding_poll_initial_seconds = 5, binding_poll_max_seconds = 300,
     claim_code_file = None, cfg_tenant_id = None, cfg_product_key = None, cfg_device_name = None,
     cfg_device_secret = None\<rparr>"

text \<open>A Core that gives the answers of a list, no drift of the clock, and a stop after eight seconds\<close>

definition sample_connector_env :: "http_response res list \<Rightarrow> connector_env" where
  "sample_connector_env answers = \<lparr>ne_config = sample_config, ne_core = answering answers,
     ne_crypto = sample_env, ne_float = (\<lambda>_. None), ne_client = sample_client, ne_drift = (\<lambda>_. 0),
     ne_random = (\<lambda>_. 0), ne_error_text = (\<lambda>_. []), ne_stop_at = Some 8000000, ne_fuel = 9\<rparr>"

definition sample_connector :: connector where
  "sample_connector = \<lparr>cn_identity = None, cn_session = None, cn_rule_instance = None,
     cn_cursor = [(''uplink_sequence'', PInt 0)], cn_binding = BINDING_AWAITING_ACTIVATION, cn_failure = None,
     cn_snapshot_pending = False, cn_breaker = new_breaker 5 30, cn_queue = new_queue 1048576 86400,
     cn_rules = fresh_store, cn_receipts = sample_receipts, cn_ha = sample_world [],
     cn_core = core_client_init ''https://core/'', cn_files = sample_store [], cn_claim = None,
     cn_stop = False, cn_shutdown_reason = ''connector_shutdown'', cn_now = 0, cn_tick = 0\<rparr>"

text \<open>The same in a session that grants everything in a list\<close>

definition in_session :: "string list \<Rightarrow> connector" where
  "in_session grants = sample_connector\<lparr>cn_identity := Some sample_identity, cn_binding := BINDING_READY,
     cn_session := Some (sample_session\<lparr>effective_grants := grants\<rparr>)\<rparr>"

end
