(* ===== verification/Downlink.thy ===== *)
theory Downlink
  imports Connector
begin

text \<open>
  The downlink of \<open>runtime.py\<close>: commands, rule packages and their controls are claimed from Core,
  carried out and acknowledged, and the evidence of local rules is uploaded.
\<close>

section \<open>Commands\<close>

text \<open>
  One delivery: \<open>execute\<close>, then the acknowledgement. An execution returns a receipt; \<open>None\<close>, which
  has no \<open>["status"]\<close>, is what a receipt pruned between saving and reading would be.
\<close>

definition process_command ::
    "connector_env \<Rightarrow> identity \<Rightarrow> hub_session \<Rightarrow> pydict \<Rightarrow> (connector, unit) eff" where
  "process_command env i session delivery =
     seq (on_executor (execute_command (executor_env_of env) delivery)) (\<lambda>result.
       seq (core_retry env
         (seq (lift_res (dindex delivery ''delivery_id'')) (\<lambda>delivery_id.
          case result of
            None \<Rightarrow> throw (TypeError ''NoneType object is not subscriptable'')
          | Some r \<Rightarrow>
              seq (now_tick env) (\<lambda>now.
                on_core (acknowledge_command (ne_core env) now i session delivery_id (rc_status r)
                  (case rc_reason r of None \<Rightarrow> PNone | Some t \<Rightarrow> PStr t) (rc_evidence r))))))
         (\<lambda>_. ret ()))"

primrec process_deliveries ::
    "connector_env \<Rightarrow> identity \<Rightarrow> hub_session \<Rightarrow> pydict list \<Rightarrow> (connector, nat) eff" where
  "process_deliveries env i session [] = ret 0"
| "process_deliveries env i session (d # ds) =
     seq (process_command env i session d) (\<lambda>_.
     seq (process_deliveries env i session ds) (\<lambda>n. ret (Suc n)))"

definition process_commands_once :: "connector_env \<Rightarrow> (connector, nat) eff" where
  "process_commands_once env =
     seq ready (\<lambda>(i, session).
       if \<not> allows session GRANT_COMMAND_DOWNLINK then ret 0
       else
         seq (core_retry env (seq (now_tick env) (\<lambda>now.
           on_core (claim_commands (ne_core env) now i session 10)))) (\<lambda>deliveries.
         process_deliveries env i session deliveries))"

section \<open>Rule packages\<close>

definition process_control :: "pyval \<Rightarrow> (connector, nat) eff" where
  "process_control control =
     seq (lift_res (py_dict control)) (\<lambda>d.
     seq (on_rule_store (apply_control d)) (\<lambda>removed. ret (if removed then 1 else 0)))"

primrec process_controls :: "pyval list \<Rightarrow> (connector, nat) eff" where
  "process_controls [] = ret 0"
| "process_controls (c # cs) =
     seq (process_control c) (\<lambda>n. seq (process_controls cs) (\<lambda>m. ret (n + m)))"

text \<open>\<open>str(exc)\<close>: the program's own texts, and for an error of a library what the library says\<close>

fun exn_text :: "(exn \<Rightarrow> string) \<Rightarrow> exn \<Rightarrow> string" where
  "exn_text lib (RuntimeError m) = m"
| "exn_text lib (ValueError m) = m"
| "exn_text lib (TypeError m) = m"
| "exn_text lib (KeyError k) = repr_str k"
| "exn_text lib (AttributeError m) = m"
| "exn_text lib (TimeoutError m) = m"
| "exn_text lib (TransportError m) = m"
| "exn_text lib (OtherError m) = m"
| "exn_text lib (HubActivationError m _ _) = m"
| "exn_text lib (HubSessionInvalidError _ m) = m"
| "exn_text lib (LocalRuleEvaluationError _ m) = m"
| "exn_text lib (HubLeaseConflictError _ _) = ''HUB_ACTIVE_LEASE_CONFLICT''"
| "exn_text lib e = lib e"

definition runtime_id :: "connector_env \<Rightarrow> string \<Rightarrow> string \<Rightarrow> string" where
  "runtime_id env pre v = pre @ ''_'' @ take 24 (pc_sha (ne_crypto env) v)"

text \<open>The outcome of one package: status, reason and evidence of its receipt\<close>

definition apply_delivery ::
    "connector_env \<Rightarrow> hub_session \<Rightarrow> pydict \<Rightarrow> (connector, string \<times> pyval \<times> pydict) eff" where
  "apply_delivery env session item =
     try_except
       (seq (now_tick env) (\<lambda>now.
        seq (lift_res (verify_rule_package_delivery (ne_crypto env) item (integration_instance_id session)
              (trusted_rule_package_key_ids (ne_config env)) now)) (\<lambda>verified.
        seq (now_tick env) (\<lambda>now. seq (on_rule_store (apply_package now verified)) (\<lambda>_.
        seq (lift_res (dindex (package_payload verified) ''runtime_version'')) (\<lambda>version.
        seq (asks (\<lambda>s. rule_summary (cn_rules s))) (\<lambda>sm.
          ret (''applied'', PNone, [(''runtime_version'', version),
            (''applied_checksum'', PStr (package_hash verified)),
            (''local_rule_count'', PInt (int (active_package_count sm)))])))))))
       )
       (\<lambda>e. ret (''failed'', PStr (take 120 (exn_text (ne_error_text env) e)), [(''failure_stage'', PStr ''package_validation'')]))"

definition process_item :: "connector_env \<Rightarrow> identity \<Rightarrow> hub_session \<Rightarrow> pyval \<Rightarrow> (connector, unit) eff" where
  "process_item env i session v =
     seq (lift_res (as_dict v)) (\<lambda>item.
     let pid = str_or_empty (dget item ''package_id''); hash = str_or_empty (dget item ''payload_hash'') in
     seq (apply_delivery env session item) (\<lambda>(status, reason, evidence).
     let receipt_id = runtime_id env ''rpreceipt'' (pid @ '':'' @ hash @ '':'' @ status) in
     seq (core_retry env (seq (now_tick env) (\<lambda>now. seq (now_tick env) (\<lambda>later.
       on_core (acknowledge_rule_package (ne_core env) now later i session pid receipt_id hash
         status reason evidence))))) (\<lambda>_. ret ())))"

primrec process_items ::
    "connector_env \<Rightarrow> identity \<Rightarrow> hub_session \<Rightarrow> pyval list \<Rightarrow> (connector, nat) eff" where
  "process_items env i session [] = ret 0"
| "process_items env i session (v # vs) =
     seq (process_item env i session v) (\<lambda>_.
     seq (process_items env i session vs) (\<lambda>n. ret (Suc n)))"

definition process_rule_packages_once :: "connector_env \<Rightarrow> (connector, nat) eff" where
  "process_rule_packages_once env =
     seq ready (\<lambda>(i, session).
       if \<not> allows session GRANT_LOCAL_RULE_RUNTIME then ret 0
       else
         seq (core_retry env (seq (now_tick env) (\<lambda>now.
           on_core (claim_rule_packages (ne_core env) now i session 10)))) (\<lambda>delivery.
         seq (lift_res (py_list (dget delivery ''controls''))) (\<lambda>controls.
         seq (process_controls controls) (\<lambda>n.
         seq (lift_res (py_list (dget delivery ''items''))) (\<lambda>items.
         seq (process_items env i session items) (\<lambda>m. ret (n + m)))))))"

section \<open>Evidence\<close>

definition without_connectivity :: "pydict \<Rightarrow> pydict" where
  "without_connectivity d = filter (\<lambda>(k, _). k \<noteq> ''connectivity_state'') d"

text \<open>\<open>{str(item["execution_id"]) for item in ... if ...}\<close>, sorted\<close>

primrec accepted_ids :: "pyval list \<Rightarrow> string list res" where
  "accepted_ids [] = Inr []"
| "accepted_ids (v # vs) =
     rbind (as_dict v) (\<lambda>item.
     rbind (in_strings (dget item ''ingest_status'') [''accepted'', ''duplicate'']) (\<lambda>taken.
     rbind (if taken then rbind (dindex item ''execution_id'') (\<lambda>x. Inr [py_str x]) else Inr []) (\<lambda>xs.
     rbind (accepted_ids vs) (\<lambda>ys. Inr (xs @ ys)))))"

definition flush_rule_evidence_once :: "connector_env \<Rightarrow> (connector, nat) eff" where
  "flush_rule_evidence_once env =
     seq ready (\<lambda>(i, session).
       if \<not> allows session GRANT_LOCAL_RULE_RUNTIME then ret 0
       else
         seq (asks (\<lambda>s. pending_evidence 100 (cn_rules s))) (\<lambda>items.
           if items = [] then ret 0
           else
             seq (core_retry env (seq (now_tick env) (\<lambda>now.
               on_core (upload_rule_evidence (ne_core env) now i session (map without_connectivity items))))) (\<lambda>response.
             seq (lift_res (rbind (py_list (dget response ''items'')) accepted_ids)) (\<lambda>accepted_list.
             let ids = sort (remdups accepted_list) in
             seq (now_tick env) (\<lambda>now. seq (now_tick env) (\<lambda>later.
             seq (on_rule_store (\<lambda>st. (Inr (), mark_uploaded now later ids st))) (\<lambda>_.
               ret (length ids))))))))"

section \<open>Receipts of packages\<close>

text \<open>
  C11: what Core is told of a package is what happened. If the receipt says \<open>applied\<close>, the delivery
  passed verification for this home and these trusted keys at the time, the store took the
  verified package, and the checksum reported is that of its payload. Otherwise it says \<open>failed\<close>;
  a delivery that cannot pass verification leaves the store as it was.
\<close>

theorem package_receipt_is_true:
  assumes "apply_delivery env session item s = (Inr (status, reason, evidence), s')"
  shows "(status = ''applied'' \<and> reason = PNone \<and>
      (\<exists>v later. verify_rule_package_delivery (ne_crypto env) item (integration_instance_id session)
          (trusted_rule_package_key_ids (ne_config env)) (cn_now s) = Inr v \<and>
        apply_package later v (cn_rules s) = (Inr (), cn_rules s') \<and>
        dget evidence ''applied_checksum'' = PStr (package_hash v)) \<or>
     status = ''failed'' \<and> dget evidence ''failure_stage'' = PStr ''package_validation'') \<and>
    ((\<forall>v. verify_rule_package_delivery (ne_crypto env) item (integration_instance_id session)
        (trusted_rule_package_key_ids (ne_config env)) (cn_now s) \<noteq> Inr v) \<longrightarrow>
      status = ''failed'' \<and> cn_rules s' = cn_rules s)"
proof -
  let ?verified = "verify_rule_package_delivery (ne_crypto env) item (integration_instance_id session)
      (trusted_rule_package_key_ids (ne_config env)) (cn_now s)"
  let ?tick = "\<lambda>s. s\<lparr>cn_now := cn_now s + int (ne_drift env (cn_tick s)), cn_tick := Suc (cn_tick s)\<rparr>"
  note run = assms [unfolded apply_delivery_def]
  show ?thesis
  proof (cases ?verified)
    case (Inl e)
    then show ?thesis using run by (auto simp: try_except_def eff_simps now_tick_def split: if_splits)
  next
    case (Inr v)
    obtain q st where st: "apply_package (cn_now (?tick s)) v (cn_rules s) = (q, st)"
      by (cases "apply_package (cn_now (?tick s)) v (cn_rules s)")
    let ?s2 = "(?tick (?tick s))\<lparr>cn_rules := st\<rparr>"
    let ?failed = "\<lambda>e. (''failed'', PStr (take 120 (exn_text (ne_error_text env) e)),
      [(''failure_stage'', PStr ''package_validation'')])"
    have outcome: "(Inr (status, reason, evidence), s') =
      (case rbind q (\<lambda>_. dindex (package_payload v) ''runtime_version'') of
         Inl e \<Rightarrow> if e = NoFuel then (Inl e, ?s2) else (Inr (?failed e), ?s2)
       | Inr version \<Rightarrow> (Inr (''applied'', PNone, [(''runtime_version'', version),
            (''applied_checksum'', PStr (package_hash v)),
            (''local_rule_count'', PInt (int (active_package_count (rule_summary st))))]), ?s2))"
      unfolding run [symmetric] using Inr st
      by (cases q; cases "dindex (package_payload v) ''runtime_version''")
        (simp_all add: try_except_def eff_simps now_tick_def on_rule_store_def zoom_def)
    have "status = ''applied'' \<and> reason = PNone \<and> apply_package (cn_now (?tick s)) v (cn_rules s) = (Inr (), cn_rules s') \<and>
        dget evidence ''applied_checksum'' = PStr (package_hash v) \<or>
      status = ''failed'' \<and> dget evidence ''failure_stage'' = PStr ''package_validation''"
    proof (cases "rbind q (\<lambda>_. dindex (package_payload v) ''runtime_version'')")
      case (Inl e)
      with outcome show ?thesis by (auto split: if_splits)
    next
      case (Inr version)
      then have "q = Inr ()" by (auto simp: rbind_Inr_iff)
      with outcome Inr st show ?thesis by auto
    qed
    then show ?thesis using Inr by auto
  qed
qed

section \<open>Grants\<close>

text \<open>
  C25: without its grant nothing of the downlink happens: no request is sent, nothing is executed,
  stored or acknowledged.
\<close>

theorem downlink_needs_its_grant:
  assumes "cn_identity s = Some i" "cn_session s = Some x"
  shows "(\<not> allows x GRANT_COMMAND_DOWNLINK \<longrightarrow> process_commands_once env s = (Inr 0, s)) \<and>
    (\<not> allows x GRANT_LOCAL_RULE_RUNTIME \<longrightarrow> process_rule_packages_once env s = (Inr 0, s) \<and>
      flush_rule_evidence_once env s = (Inr 0, s))"
  using assms
  by (simp add: process_commands_once_def process_rule_packages_once_def flush_rule_evidence_once_def ready_def eff_simps)

section \<open>Witnesses\<close>

text \<open>A time at which the sample package is valid\<close>

definition at_two_seconds :: connector where
  "at_two_seconds = (in_session [])\<lparr>cn_now := 2000\<rparr>"

theorem package_receipt_is_true_witness:
  "\<exists>evidence s'. apply_delivery (sample_connector_env []) (sample_session\<lparr>integration_instance_id := ''inst''\<rparr>)
      sample_delivery at_two_seconds = (Inr (''applied'', PNone, evidence), s') \<and>
    dget evidence ''applied_checksum'' = PStr (package_hash sample_package)"
proof -
  let ?env = "sample_connector_env []" and ?x = "sample_session\<lparr>integration_instance_id := ''inst''\<rparr>"
  have fields: "ne_crypto ?env = sample_env" "integration_instance_id ?x = ''inst''"
    "trusted_rule_package_key_ids (ne_config ?env) = {''k1''}" "cn_now at_two_seconds = 2000"
    "cn_rules at_two_seconds = fresh_store"
    by (simp_all add: sample_connector_env_def sample_config_def at_two_seconds_def in_session_def sample_connector_def)
  have payload: "dindex (package_payload sample_package) ''rule_id'' = Inr (PStr ''r1'')"
    "\<exists>v. dindex (package_payload sample_package) ''runtime_version'' = Inr v"
    by (simp_all add: sample_package_def sample_payload_def dindex_def)
  obtain st where "apply_package (2000 + int (ne_drift ?env (cn_tick at_two_seconds))) sample_package fresh_store = (Inr (), st)"
    using payload(1) by (simp add: apply_package_def Let_def)
  then obtain evidence s' where run: "apply_delivery ?env ?x sample_delivery at_two_seconds =
      (Inr (''applied'', PNone, evidence), s')"
    using payload(2) sample_verifies
    by (auto simp: apply_delivery_def try_except_def eff_simps now_tick_def fields on_rule_store_def zoom_def)
  from package_receipt_is_true [OF run] run show ?thesis by (auto simp: fields sample_verifies)
qed

theorem downlink_needs_its_grant_witness:
  "process_commands_once (sample_connector_env []) (in_session []) = (Inr 0, in_session [])"
  using downlink_needs_its_grant [of "in_session []" sample_identity "sample_session\<lparr>effective_grants := []\<rparr>"]
  by (simp add: in_session_def allows_def)

end
