(* ===== verification/Uplink.thy ===== *)
theory Uplink
  imports Connector
begin

text \<open>
  The uplink of \<open>runtime.py\<close>: snapshots and events go into the queue, and \<open>flush_once\<close> takes the
  head of the queue to Core, in batches that are consecutive and free of repeated event ids.
\<close>

section \<open>Filling the queue\<close>

definition read_snapshot :: "connector_env \<Rightarrow> (connector, ha_snapshot) eff" where
  "read_snapshot env =
     seq (now_tick env) (\<lambda>start. seq (now_tick env) (\<lambda>opening. seq (now_tick env) (\<lambda>wall.
       on_home (collect_snapshot (ne_client env) start opening wall))))"

definition enqueue_now :: "connector_env \<Rightarrow> string \<Rightarrow> pydict \<Rightarrow> (connector, queue_item) eff" where
  "enqueue_now env knd pl = seq (now_tick env) (\<lambda>now. on_queue (enqueue now knd pl))"

definition enqueue_snapshot :: "connector_env \<Rightarrow> string \<Rightarrow> (connector, queue_item) eff" where
  "enqueue_snapshot env run_type =
     seq (read_snapshot env) (\<lambda>snapshot.
     seq (lift_res (build_snapshot_uplink (pc_sha (ne_crypto env)) snapshot run_type)) (\<lambda>pl.
     seq circuit_now (\<lambda>circuit.
       enqueue_now env ''snapshot''
         (if circuit \<noteq> ''closed'' then dset pl ''delivery_mode'' (PStr ''replay'') else pl))))"

definition try_bootstrap_snapshot :: "connector_env \<Rightarrow> (connector, bool) eff" where
  "try_bootstrap_snapshot env =
     try_except
       (seq (enqueue_snapshot env ''bootstrap'') (\<lambda>_.
        seq (modify (\<lambda>s. s\<lparr>cn_snapshot_pending := False\<rparr>)) (\<lambda>_. ret True)))
       (\<lambda>_. ret False)"

definition session_lacks :: "string \<Rightarrow> connector \<Rightarrow> bool" where
  "session_lacks grant s = (case cn_session s of None \<Rightarrow> False | Some x \<Rightarrow> \<not> allows x grant)"

definition enqueue_reconciliation_if_needed :: "connector_env \<Rightarrow> bool \<Rightarrow> (connector, bool) eff" where
  "enqueue_reconciliation_if_needed env forced =
     seq (asks (session_lacks GRANT_INVENTORY_READ)) (\<lambda>lacks.
       if lacks then ret False
       else
         seq (asks (\<lambda>s. needs_reconciliation (cn_queue s))) (\<lambda>needed.
           if \<not> forced \<and> \<not> needed then ret False
           else
             seq (enqueue_snapshot env ''reconciliation'') (\<lambda>item.
               if \<not> accepted item then ret False
               else if needed then seq (queue_do mark_reconciliation_queued) (\<lambda>_. ret True)
               else ret True)))"

definition event_payload :: "string \<Rightarrow> string \<Rightarrow> bool \<Rightarrow> pydict \<Rightarrow> pydict" where
  "event_payload source_event_id observed rp new_state =
     [(''source_event_id'', PStr source_event_id), (''event_type'', PStr ''state_changed''),
      (''observed_at'', PStr observed),
      (''delivery_mode'', PStr (if rp then ''replay'' else ''realtime'')),
      (''is_replay'', PBool rp), (''payload'', PDict [(''new_state'', PDict new_state)])]"

definition enqueue_event :: "connector_env \<Rightarrow> pydict \<Rightarrow> (connector, queue_item option) eff" where
  "enqueue_event env event =
     seq (lift_res (dict_or_empty (dget event ''data''))) (\<lambda>data.
       case dget data ''new_state'' of
         PDict new_state \<Rightarrow>
           seq (let stamp = py_or (dget event ''time_fired'') (dget new_state ''last_updated'') in
                if truthy stamp then ret (py_str stamp)
                else seq (now_tick env) (\<lambda>now. ret (isoformat now))) (\<lambda>observed.
           seq (lift_res (build_source_event_id (pc_sha (ne_crypto env)) event new_state)) (\<lambda>sid.
           seq circuit_now (\<lambda>circuit.
           seq (asks cn_rule_instance) (\<lambda>rules.
           seq (case rules of
                  None \<Rightarrow> ret ()
                | Some instance \<Rightarrow>
                    seq (on_rule_runtime env instance (\<lambda>re. process_event re event
                      (if circuit = ''closed'' then ''connected'' else ''offline''))) (\<lambda>_. ret ())) (\<lambda>_.
           seq (asks (session_lacks GRANT_STATE_UPLINK)) (\<lambda>lacks.
             if lacks then ret None
             else
               seq circuit_now (\<lambda>circuit.
               seq (enqueue_now env ''event'' (event_payload sid observed (circuit \<noteq> ''closed'') new_state))
                 (\<lambda>item. ret (Some item)))))))))
       | _ \<Rightarrow> throw (ValueError ''HA_STATE_EVENT_MISSING_NEW_STATE''))"

section \<open>Batches\<close>

text \<open>
  The loop of \<open>_contiguous_events\<close>: \<open>expected\<close> is the next sequence number and \<open>seen\<close> the event ids
  taken so far (what a payload without one gives is \<open>None\<close>).
\<close>

fun contiguous_loop :: "int \<Rightarrow> pyval list \<Rightarrow> queue_item list \<Rightarrow> queue_item list" where
  "contiguous_loop expected seen [] = []"
| "contiguous_loop expected seen (item # items) =
     (let source_id = dget (payload item) ''source_event_id'' in
      if kind item \<noteq> ''event'' \<or> sequence item \<noteq> expected \<or> source_id \<in> set seen then []
      else item # contiguous_loop (expected + 1) (source_id # seen) items)"

definition contiguous_events :: "queue_item list \<Rightarrow> queue_item list" where
  "contiguous_events items = (case items of [] \<Rightarrow> [] | first # _ \<Rightarrow> contiguous_loop (sequence first) [] items)"

definition replay_mode :: "bool \<Rightarrow> pyval" where
  "replay_mode rp = PStr (if rp then ''replay'' else ''realtime'')"

definition snapshot_body :: "queue_item \<Rightarrow> bool \<Rightarrow> pydict" where
  "snapshot_body item rp = dmerge (payload item)
     [(''sequence'', PInt (sequence item)), (''delivery_mode'', replay_mode rp)]"

definition event_entry :: "bool \<Rightarrow> queue_item \<Rightarrow> pydict" where
  "event_entry rp item = dmerge (payload item)
     [(''sequence'', PInt (sequence item)), (''delivery_mode'', replay_mode rp),
      (''is_replay'', PBool rp)]"

definition events_body :: "queue_item list \<Rightarrow> bool \<Rightarrow> pydict res" where
  "events_body items rp =
     (let events = map (event_entry rp) items in
      rbind (dindex (last events) ''observed_at'') (\<lambda>observed.
        Inr [(''sequence_start'', PInt (sequence (hd items))), (''sequence_end'', PInt (sequence (last items))),
          (''source_version'', PStr (''ha:event:'' @ int_text (sequence (last items)))),
          (''observed_at'', observed), (''events'', PList (map PDict events))]))"

section \<open>Uploading\<close>

text \<open>
  One attempt, over the connector and the variable \<open>attempt\<close> of the closure: the rows are marked
  as attempted before the request leaves, and if it fails everything pending is marked as
  uncertain.
\<close>

definition with_attempt :: "(connector, 'a) eff \<Rightarrow> (connector \<times> int, 'a) eff" where
  "with_attempt = zoom fst (\<lambda>s (_, n). (s, n))"

definition upload_attempt ::
    "connector_env \<Rightarrow> bool \<Rightarrow> int list \<Rightarrow> (bool \<Rightarrow> pydict res) \<Rightarrow>
     (time \<Rightarrow> pydict \<Rightarrow> (core_client, pydict) eff) \<Rightarrow> (connector \<times> int, pydict) eff" where
  "upload_attempt env queued_as_replay sequences body send =
     seq (asks (\<lambda>(_, n). queued_as_replay \<or> 0 < n)) (\<lambda>rp.
     seq (lift_res (body rp)) (\<lambda>json.
     seq (with_attempt (seq (now_tick env) (\<lambda>now. queue_do (mark_delivery_attempted now sequences)))) (\<lambda>_.
     seq (modify (\<lambda>(s, n). (s, n + 1))) (\<lambda>_.
       with_attempt (try_except
         (seq (now_tick env) (\<lambda>now. on_core (send now json)))
         (\<lambda>e. seq (now_tick env) (\<lambda>now. seq (queue_do (mark_pending_delivery_uncertain now)) (\<lambda>_. throw e))))))))"

definition retry_upload ::
    "connector_env \<Rightarrow> int \<Rightarrow> (connector \<times> int, pydict) eff \<Rightarrow> (connector, pydict) eff" where
  "retry_upload env attempts m s =
     (case retry_bounded m (retry_max_attempts (ne_config env)) (retry_base_seconds (ne_config env))
            (\<lambda>d (s, n). (sleep_for env d s, n)) (\<lambda>(s, n). case draw_random env s of (r, s') \<Rightarrow> (r, (s', n)))
            retryable_core_error (s, attempts) of
        (r, (s', _)) \<Rightarrow> (r, s'))"

definition queued_as_replay :: "queue_item \<Rightarrow> bool" where
  "queued_as_replay item \<longleftrightarrow> dget (payload item) ''delivery_mode'' = PStr ''replay'' \<or>
     dget (payload item) ''is_replay'' = PBool True"

definition upload_head ::
    "connector_env \<Rightarrow> identity \<Rightarrow> hub_session \<Rightarrow> queue_item list \<Rightarrow> (connector, pydict) eff" where
  "upload_head env i session items =
     (let first = hd items in
      if kind first = ''snapshot''
      then retry_upload env (delivery_attempts first)
        (upload_attempt env (dget (payload first) ''delivery_mode'' = PStr ''replay'') [sequence first]
          (\<lambda>rp. Inr (snapshot_body first rp))
          (\<lambda>now. core_upload_snapshot (ne_core env) now i session))
      else
        let event_items = contiguous_events items in
        if event_items = [] then throw (ValueError ''max() arg is an empty sequence'')
        else retry_upload env (Max (set (map delivery_attempts event_items)))
          (upload_attempt env (list_ex queued_as_replay event_items) (map sequence event_items)
            (events_body event_items)
            (\<lambda>now. core_upload_events (ne_core env) now i session)))"

definition complete_half_open_probe :: "connector_env \<Rightarrow> circuit_permit \<Rightarrow> (connector, unit) eff" where
  "complete_half_open_probe env permit =
     (if \<not> half_open_probe permit then ret ()
      else failing env (seq (heartbeat env) (\<lambda>_. breaker_success permit)))"

text \<open>What is done with the head of the queue; the last part is in a \<open>try\<close> of its own.\<close>

definition deliver ::
    "connector_env \<Rightarrow> circuit_permit \<Rightarrow> identity \<Rightarrow> hub_session \<Rightarrow> queue_item list \<Rightarrow> (connector, bool) eff" where
  "deliver env permit i session items =
     (if items = [] \<or> kind (hd items) = ''snapshot'' \<and> \<not> allows session GRANT_INVENTORY_READ \<or>
         kind (hd items) = ''event'' \<and> \<not> allows session GRANT_STATE_UPLINK
      then seq (complete_half_open_probe env permit) (\<lambda>_. ret False)
      else failing env
        (seq (upload_head env i session items) (\<lambda>answer.
         seq (lift_res (rbind (dindex answer ''cursor_after'') py_int)) (\<lambda>acknowledged.
         seq (queue_do (acknowledge_through acknowledged)) (\<lambda>_.
         seq (modify (\<lambda>s. s\<lparr>cn_cursor := dset (cn_cursor s) ''uplink_sequence'' (PInt acknowledged)\<rparr>)) (\<lambda>_.
         seq (breaker_success permit) (\<lambda>_. ret True)))))))"

definition flush_once :: "connector_env \<Rightarrow> (connector, bool) eff" where
  "flush_once env =
     seq (breaker_allow env) (\<lambda>permit.
       case permit of
         None \<Rightarrow> ret False
       | Some permit \<Rightarrow>
           seq (failing env (seq ready (\<lambda>(i, session).
                seq (now_tick env) (\<lambda>now.
                seq (queue_get (peek_all now (event_batch_size (ne_config env)))) (\<lambda>items.
                  ret (i, session, items)))))) (\<lambda>(i, session, items).
             deliver env permit i session items))"

section \<open>What an upload keeps\<close>

text \<open>
  A relation that time, the marks on the queue's rows and the requests of an upload keep is kept
  by the whole upload, whatever the retries.
\<close>

locale upload_frame = frame_condition R for R :: "connector \<Rightarrow> connector \<Rightarrow> bool" +
  assumes passes: "R s (sleep_for env d s)" "R s (snd (draw_random env s))" "R s (snd (now_tick env s))"
    and marks: "framed R (queue_do (mark_delivery_attempted now sequences))"
      "framed R (queue_do (mark_pending_delivery_uncertain now))"

sublocale upload_frame \<subseteq> counted: frame_condition "\<lambda>x y :: connector \<times> int. R (fst x) (fst y)"
  by unfold_locales (auto intro: refl trans)

context upload_frame begin

lemma framed_with_attempt: "framed R m \<Longrightarrow> framed (\<lambda>x y. R (fst x) (fst y)) (with_attempt m)"
  unfolding with_attempt_def by (erule framed_zoom) auto

lemma framed_tick: "(\<And>now. framed R (f now)) \<Longrightarrow> framed R (seq (now_tick env) f)"
  by (intro framed_seq) (simp_all add: framed_def passes)

lemma framed_attempt:
  assumes "\<And>rp json now. body rp = Inr json \<Longrightarrow> framed R (on_core (send now json))"
  shows "framed (\<lambda>x y. R (fst x) (fst y)) (upload_attempt env queued sequences body send)"
proof -
  have count: "framed (\<lambda>x y. R (fst x) (fst y)) (modify (\<lambda>(s, n). (s, n + 1)))"
    by (auto simp: framed_def modify_def refl)
  have send: "framed R (try_except (seq (now_tick env) (\<lambda>now. on_core (send now json)))
      (\<lambda>e. seq (now_tick env) (\<lambda>now. seq (queue_do (mark_pending_delivery_uncertain now)) (\<lambda>_. throw e))))"
    if "body rp = Inr json" for rp json
    using that by (intro framed_try framed_tick framed_seq framed_basic marks assms)
  show ?thesis
    unfolding upload_attempt_def
    by (intro counted.framed_seq counted.framed_basic counted.framed_lift framed_with_attempt count
        framed_tick marks send)
qed

lemma framed_retry_upload:
  assumes "framed (\<lambda>x y. R (fst x) (fst y)) m"
  shows "framed R (retry_upload env n m)"
proof (rule framedI)
  fix s
  let ?sleep = "\<lambda>d (s, n :: int). (sleep_for env d s, n)"
  let ?draw = "\<lambda>(s, n :: int). case draw_random env s of (r, s') \<Rightarrow> (r, (s', n))"
  let ?run = "retry_bounded m (retry_max_attempts (ne_config env)) (retry_base_seconds (ne_config env))
    ?sleep ?draw retryable_core_error"
  have "framed (\<lambda>x y. R (fst x) (fst y)) ?run"
  proof (rule counted.framed_retry [OF assms])
    show "R (fst x) (fst (?sleep d x))" for d x by (cases x) (simp add: passes)
    show "R (fst x) (fst (snd (?draw x)))" for x
      using passes(2) [of "fst x"] by (cases x) (simp add: case_prod_unfold)
  qed
  then show "R s (snd (retry_upload env n m s))"
    by (auto simp: framed_def retry_upload_def split: prod.split) (metis fst_conv snd_conv)
qed

lemmas framed_upload = framed_retry_upload framed_attempt

end

section \<open>What a batch is\<close>

abbreviation source_ids :: "queue_item list \<Rightarrow> pyval list" where
  "source_ids items \<equiv> map (\<lambda>item. dget (payload item) ''source_event_id'') items"

lemma contiguous_loop_prefix:
  "\<exists>rest. items = contiguous_loop e seen items @ rest \<and>
    map sequence (contiguous_loop e seen items) = [e..e + int (length (contiguous_loop e seen items)) - 1] \<and>
    list_all (\<lambda>x. kind x = ''event'') (contiguous_loop e seen items) \<and>
    distinct (source_ids (contiguous_loop e seen items)) \<and>
    set (source_ids (contiguous_loop e seen items)) \<inter> set seen = {} \<and>
    (rest \<noteq> [] \<longrightarrow> kind (hd rest) \<noteq> ''event'' \<or>
      sequence (hd rest) \<noteq> e + int (length (contiguous_loop e seen items)) \<or>
      dget (payload (hd rest)) ''source_event_id'' \<in> set seen \<union> set (source_ids (contiguous_loop e seen items)))"
proof (induction e seen items rule: contiguous_loop.induct)
  case (2 e seen item items)
  show ?case
  proof (cases "kind item \<noteq> ''event'' \<or> sequence item \<noteq> e \<or>
      dget (payload item) ''source_event_id'' \<in> set seen")
    case True
    then have "contiguous_loop e seen (item # items) = []" by (auto simp: Let_def)
    with True show ?thesis by auto
  next
    case False
    let ?tail = "contiguous_loop (e + 1) (dget (payload item) ''source_event_id'' # seen) items"
    have loop: "contiguous_loop e seen (item # items) = item # ?tail" using False by (auto simp: Let_def)
    obtain rest where rest: "items = ?tail @ rest" "map sequence ?tail = [e + 1..e + 1 + int (length ?tail) - 1]"
      "list_all (\<lambda>x. kind x = ''event'') ?tail" "distinct (source_ids ?tail)"
      "set (source_ids ?tail) \<inter> set (dget (payload item) ''source_event_id'' # seen) = {}"
      "rest \<noteq> [] \<longrightarrow> kind (hd rest) \<noteq> ''event'' \<or> sequence (hd rest) \<noteq> e + 1 + int (length ?tail) \<or>
        dget (payload (hd rest)) ''source_event_id'' \<in>
          set (dget (payload item) ''source_event_id'' # seen) \<union> set (source_ids ?tail)"
      using 2 [OF refl] False by auto
    have "[e..e + int (length (item # ?tail)) - 1] = e # [e + 1..e + 1 + int (length ?tail) - 1]"
      by (subst upto.simps) (simp add: algebra_simps)
    with rest False show ?thesis
      unfolding loop by (intro exI [of _ rest]) (auto simp: algebra_simps)
  qed
qed simp

lemma batch_is_contiguous_prefix:
  assumes "items \<noteq> []" "kind (hd items) = ''event''"
  shows "\<exists>rest. items = contiguous_events items @ rest \<and> contiguous_events items \<noteq> [] \<and>
    map sequence (contiguous_events items) =
      [sequence (hd items)..sequence (hd items) + int (length (contiguous_events items)) - 1] \<and>
    list_all (\<lambda>x. kind x = ''event'') (contiguous_events items) \<and>
    distinct (source_ids (contiguous_events items)) \<and>
    (rest \<noteq> [] \<longrightarrow> kind (hd rest) \<noteq> ''event'' \<or>
      sequence (hd rest) \<noteq> sequence (hd items) + int (length (contiguous_events items)) \<or>
      dget (payload (hd rest)) ''source_event_id'' \<in> set (source_ids (contiguous_events items)))"
proof -
  obtain x xs where items: "items = x # xs" using assms(1) by (cases items) auto
  have batch: "contiguous_events items = contiguous_loop (sequence (hd items)) [] items"
    by (simp add: contiguous_events_def items)
  have "contiguous_events items \<noteq> []" using assms(2) unfolding batch by (simp add: items Let_def)
  with contiguous_loop_prefix [of items "sequence (hd items)" "[]"] show ?thesis
    unfolding batch by fastforce
qed

text \<open>
  C10: a batch is what Core accepts: when an event heads the queue, \<open>_contiguous_events\<close> takes the
  head and what follows it as far as it can: events only, under consecutive numbers, with distinct
  event ids. It stops only before a snapshot, a gap in the numbers or a repeated id, and what it
  leaves stays queued in its order.
\<close>

theorem batch_is_contiguous:
  assumes "items \<noteq> []" "kind (hd items) = ''event''"
  shows "\<exists>rest. items = contiguous_events items @ rest \<and> contiguous_events items \<noteq> [] \<and>
    map sequence (contiguous_events items) =
      [sequence (hd items)..sequence (hd items) + int (length (contiguous_events items)) - 1] \<and>
    list_all (\<lambda>x. kind x = ''event'') (contiguous_events items) \<and>
    distinct (source_ids (contiguous_events items)) \<and>
    (rest \<noteq> [] \<longrightarrow> kind (hd rest) \<noteq> ''event'' \<or>
      sequence (hd rest) \<noteq> sequence (hd items) + int (length (contiguous_events items)) \<or>
      dget (payload (hd rest)) ''source_event_id'' \<in> set (source_ids (contiguous_events items)))"
  using assms by (rule batch_is_contiguous_prefix)

section \<open>Replays\<close>

lemma attempt_of_attempted:
  assumes "queued \<or> 0 < n"
  shows "upload_attempt env queued sequences body send (s, n) =
    upload_attempt env True sequences (\<lambda>_. body True) send (s, n)"
  using assms by (simp add: upload_attempt_def seq_def [of "asks _"] eff_simps)

interpretation grows: frame_condition "\<lambda>x y :: connector \<times> int. snd x \<le> snd y"
  by unfold_locales auto

lemma attempt_kept: "framed (\<lambda>x y. snd x \<le> snd y) (with_attempt m)"
  by (rule framedI) (auto simp: with_attempt_def zoom_def split: prod.split)

lemma attempt_counts: "snd p \<le> snd (snd (upload_attempt env queued sequences body send p))"
proof -
  have "framed (\<lambda>x y :: connector \<times> int. snd x \<le> snd y) (modify (\<lambda>(s, n). (s, n + 1)))"
    by (auto simp: framed_def modify_def)
  then have "framed (\<lambda>x y. snd x \<le> snd y) (upload_attempt env queued sequences body send)"
    unfolding upload_attempt_def by (intro grows.framed_seq grows.framed_basic attempt_kept)
  then show ?thesis by (cases p) (simp add: framed_def)
qed

lemma retry_of_attempted:
  assumes "queued \<or> 0 < n"
  shows "retry_upload env n (upload_attempt env queued sequences body send) =
    retry_upload env n (upload_attempt env True sequences (\<lambda>_. body True) send)"
proof
  fix s
  let ?opn = "upload_attempt env queued sequences body send"
  let ?opn' = "upload_attempt env True sequences (\<lambda>_. body True) send"
  have "retry_bounded ?opn m base sleep draw retryable (s, n) = retry_bounded ?opn' m base sleep draw retryable (s, n)"
    if "\<And>d p. snd (sleep d p) = snd p" "\<And>p. snd (snd (draw p)) = snd p"
    for m base retryable sleep and draw :: "connector \<times> int \<Rightarrow> real \<times> connector \<times> int"
  proof (rule retry_bounded_cong [where I = "\<lambda>p. queued \<or> 0 < snd p"])
    show "?opn p = ?opn' p" if "queued \<or> 0 < snd p" for p
      using that by (cases p) (simp only: snd_conv, rule attempt_of_attempted)
    show "queued \<or> 0 < snd (snd (?opn p))" if "queued \<or> 0 < snd p" for p
      using attempt_counts [of p env queued sequences body send] that by (meson less_le_trans)
  qed (use assms that in auto)
  from this [of "\<lambda>d (s, n). (sleep_for env d s, n)" "\<lambda>(s, n). case draw_random env s of (r, s') \<Rightarrow> (r, (s', n))"]
  show "retry_upload env n ?opn s = retry_upload env n ?opn' s"
    by (simp add: retry_upload_def case_prod_unfold)
qed

lemma attempted_upload:
  assumes "items \<noteq> []" "kind (hd items) \<in> {''event'', ''snapshot''}"
    and "kind (hd items) = ''event'' \<Longrightarrow>
      list_ex (\<lambda>x. queued_as_replay x \<or> 0 < delivery_attempts x) (contiguous_events items)"
    and "kind (hd items) = ''snapshot'' \<Longrightarrow>
      dget (payload (hd items)) ''delivery_mode'' = PStr ''replay'' \<or> 0 < delivery_attempts (hd items)"
  shows "upload_head env i session items =
    (if kind (hd items) = ''snapshot''
     then retry_upload env (delivery_attempts (hd items))
       (upload_attempt env True [sequence (hd items)] (\<lambda>_. Inr (snapshot_body (hd items) True))
         (\<lambda>now. core_upload_snapshot (ne_core env) now i session))
     else retry_upload env (Max (set (map delivery_attempts (contiguous_events items))))
       (upload_attempt env True (map sequence (contiguous_events items))
         (\<lambda>_. events_body (contiguous_events items) True)
         (\<lambda>now. core_upload_events (ne_core env) now i session)))"
proof (cases "kind (hd items) = ''snapshot''")
  case True
  note replay = retry_of_attempted [OF assms(4) [OF True]]
  show ?thesis unfolding upload_head_def Let_def if_P [OF True] replay ..
next
  case False
  let ?batch = "contiguous_events items"
  have event: "kind (hd items) = ''event''" using False assms(2) by simp
  have batch: "?batch \<noteq> []" using batch_is_contiguous_prefix [OF assms(1) event] by (elim exE conjE)
  obtain x where x: "x \<in> set ?batch" "queued_as_replay x \<or> 0 < delivery_attempts x"
    using assms(3) [OF event] by (auto simp: list_ex_iff)
  have "delivery_attempts x \<le> Max (set (map delivery_attempts ?batch))"
    using x(1) by (intro Max_ge) auto
  then have "list_ex queued_as_replay ?batch \<or> 0 < Max (set (map delivery_attempts ?batch))"
    using x by (cases "queued_as_replay x") (auto simp only: list_ex_iff)
  note replay = retry_of_attempted [OF this]
  show ?thesis
    unfolding upload_head_def Let_def if_not_P [OF False] if_not_P [OF batch] replay ..
qed

text \<open>What a request to the two upload endpoints of a session says when all of it is a replay\<close>

definition says_replay :: "pydict \<Rightarrow> bool" where
  "says_replay event \<longleftrightarrow> dget event ''delivery_mode'' = PStr ''replay'' \<and> dget event ''is_replay'' = PBool True"

definition announces_replay :: "hub_session \<Rightarrow> string \<Rightarrow> http_request \<Rightarrow> bool" where
  "announces_replay session base rq \<longleftrightarrow> (case rq_json rq of None \<Rightarrow> True | Some body \<Rightarrow>
     (rq_url rq = base @ session_path session ''/events'' \<longrightarrow>
        (\<exists>events. dget body ''events'' = PList (map PDict events) \<and> list_all says_replay events)) \<and>
     (rq_url rq = base @ session_path session ''/snapshots'' \<longrightarrow>
        dget body ''delivery_mode'' = PStr ''replay''))"

lemma announces_other:
  "prefix ''/api/hub/v1/auth/'' path \<Longrightarrow> framed (sends (announces_replay x)) (open_post ce path json)"
  "framed (sends (announces_replay x)) (bearer_post ce (session_path x ''/token'') json)"
  unfolding open_post_def bearer_post_def
  by (rule sends_request; auto simp: announces_replay_def session_path_def prefix_def)+

lemma announces_uploads:
  "events_body items True = Inr json \<Longrightarrow> framed (sends (announces_replay x)) (core_upload_events ce now i x json)"
  "distinct (map fst (payload item)) \<Longrightarrow>
    framed (sends (announces_replay x)) (core_upload_snapshot ce now i x (snapshot_body item True))"
proof -
  show "framed (sends (announces_replay x)) (core_upload_events ce now i x json)"
    if "events_body items True = Inr json"
  proof -
    let ?events = "map (event_entry True) items"
    have "dget (dmerge [generation_field x] json) ''events'' = PList (map PDict ?events)"
      using that by (auto simp: events_body_def Let_def rbind_Inr_iff dmerge_def)
    moreover have "list_all says_replay ?events"
      by (simp add: list_all_iff says_replay_def event_entry_def replay_mode_def dmerge_def)
    ultimately have "\<exists>events. dget (dmerge [generation_field x] json) ''events'' = PList (map PDict events) \<and>
        list_all says_replay events" by blast
    then have "framed (sends (announces_replay x))
        (bearer_post ce (session_path x ''/events'') (dmerge [generation_field x] json))"
      unfolding bearer_post_def by (intro sends_request) (auto simp: announces_replay_def session_path_def)
    then show ?thesis
      unfolding core_upload_events_def by (intro sends_call announces_other)
  qed
  show "framed (sends (announces_replay x)) (core_upload_snapshot ce now i x (snapshot_body item True))"
    if "distinct (map fst (payload item))"
  proof -
    have "map_of (snapshot_body item True) ''delivery_mode'' = Some (PStr ''replay'')"
      by (simp add: snapshot_body_def replay_mode_def dmerge_def)
    moreover have "distinct (map fst (snapshot_body item True))"
      unfolding snapshot_body_def by (rule distinct_dmerge [OF that])
    ultimately have "dget (dmerge [generation_field x] (snapshot_body item True)) ''delivery_mode'' = PStr ''replay''"
      by (simp only: dget_def map_of_dmerge map_add_def option.case)
    then have "framed (sends (announces_replay x))
        (bearer_post ce (session_path x ''/snapshots'') (dmerge [generation_field x] (snapshot_body item True)))"
      unfolding bearer_post_def by (intro sends_request) (simp add: announces_replay_def session_path_def)
    then show ?thesis
      unfolding core_upload_snapshot_def by (intro sends_call announces_other)
  qed
qed

interpretation announced: upload_frame "\<lambda>s s'. sends P (cn_core s) (cn_core s')" for P
  by unfold_locales
    (auto simp: sleep_for_def draw_random_def now_tick_def framed_def queue_do_def on_queue_def zoom_def
      intro: sent.refl sent.trans)

lemma announced_core:
  "framed (sends P) m \<Longrightarrow> framed (\<lambda>s s'. sends P (cn_core s) (cn_core s')) (on_core m)"
  unfolding on_core_def by (erule framed_zoom) simp

text \<open>
  C6: what may have been delivered before is never sent as new. If any event of the batch at the
  head of the queue was queued as a replay or has an attempt behind it, then every upload of events
  that the delivery sends Core, in whichever of its attempts, announces every event in it as a
  replay; likewise for a snapshot.
\<close>

theorem attempted_items_are_replayed:
  assumes "items \<noteq> []" "kind (hd items) \<in> {''event'', ''snapshot''}"
    and "kind (hd items) = ''event'' \<Longrightarrow>
      list_ex (\<lambda>x. queued_as_replay x \<or> 0 < delivery_attempts x) (contiguous_events items)"
    and "kind (hd items) = ''snapshot'' \<Longrightarrow>
      dget (payload (hd items)) ''delivery_mode'' = PStr ''replay'' \<or> 0 < delivery_attempts (hd items)"
    and "distinct (map fst (payload (hd items)))"
    and "upload_head env i session items s = (r, s')"
  shows "\<exists>new. cc_log (cn_core s') = cc_log (cn_core s) @ new \<and>
    list_all (announces_replay session (cc_base_url (cn_core s))) new"
proof -
  have "framed (\<lambda>s s'. sends (announces_replay session) (cn_core s) (cn_core s')) (upload_head env i session items)"
    by (subst attempted_upload)
      (use assms(1-5) in \<open>auto intro!: announced.framed_upload announced_core announces_uploads\<close>)
  from framedD [OF this assms(6)] show ?thesis by (simp add: sends_def)
qed

section \<open>Acknowledgements\<close>

text \<open>All that was queued is still there, or all of it expired and is counted as dropped.\<close>

definition kept_or_dropped :: "connector \<Rightarrow> connector \<Rightarrow> bool" where
  "kept_or_dropped s s' \<longleftrightarrow>
     pending (cn_queue s') = pending (cn_queue s) \<and> dropped (cn_queue s') = dropped (cn_queue s) \<or>
     pending (cn_queue s') = [] \<and> dropped (cn_queue s') = dropped (cn_queue s) + depth (cn_queue s)"

lemma kept_same: "cn_queue s' = cn_queue s \<Longrightarrow> kept_or_dropped s s'"
  by (simp add: kept_or_dropped_def)

lemma kept_on_queue:
  "(\<And>q. pending (snd (m q)) = pending q \<and> dropped (snd (m q)) = dropped q \<or>
     pending (snd (m q)) = [] \<and> dropped (snd (m q)) = dropped q + depth q) \<Longrightarrow>
   framed kept_or_dropped (on_queue m)"
proof (rule framedI)
  fix s
  assume m: "\<And>q. pending (snd (m q)) = pending q \<and> dropped (snd (m q)) = dropped q \<or>
    pending (snd (m q)) = [] \<and> dropped (snd (m q)) = dropped q + depth q"
  show "kept_or_dropped s (snd (on_queue m s))"
    using m [of "cn_queue s"] by (cases "m (cn_queue s)") (simp add: on_queue_def zoom_def kept_or_dropped_def)
qed

interpretation safe: upload_frame kept_or_dropped
proof
  show "kept_or_dropped s t \<Longrightarrow> kept_or_dropped t u \<Longrightarrow> kept_or_dropped s u" for s t u
    unfolding kept_or_dropped_def by (metis add_0_right length_map list.size(3) of_nat_0)
  show "kept_or_dropped s s" "kept_or_dropped s (sleep_for env d s)"
    "kept_or_dropped s (snd (draw_random env s))" "kept_or_dropped s (snd (now_tick env s))" for s env d
    by (rule kept_same; simp add: sleep_for_def draw_random_def now_tick_def)+
qed (simp_all add: queue_do_def kept_on_queue mark_frame)

lemma kept_core: "framed kept_or_dropped (on_core m)"
  unfolding on_core_def by (rule framedI, rule kept_same) (simp add: zoom_def split: prod.split)

lemma kept_modify: "(\<And>s. cn_queue (f s) = cn_queue s) \<Longrightarrow> framed kept_or_dropped (modify f)"
  by (rule framedI, rule kept_same) (simp add: modify_def)

lemma kept_reads:
  "framed kept_or_dropped (queue_get (peek_all now n))" "framed kept_or_dropped (queue_get (summary now))"
  unfolding queue_get_def
  by (rule kept_on_queue; simp add: peek_all_def summary_def Let_def expire_effect split: prod.split)+

lemma kept_breaker:
  "framed kept_or_dropped (breaker_failure env)" "framed kept_or_dropped (breaker_success p)"
  "framed kept_or_dropped (breaker_allow env)"
proof -
  show "framed kept_or_dropped (breaker_failure env)" "framed kept_or_dropped (breaker_success p)"
    unfolding breaker_failure_def breaker_success_def by (intro safe.framed_tick kept_modify; simp)+
  have "framed kept_or_dropped (\<lambda>s. case cb_allow t (cn_breaker s) of (p, b) \<Rightarrow> (Inr p, s\<lparr>cn_breaker := b\<rparr>))" for t
    by (rule framedI, rule kept_same) (simp split: prod.split)
  then show "framed kept_or_dropped (breaker_allow env)" unfolding breaker_allow_def by (rule safe.framed_tick)
qed

lemma kept_failing: "framed kept_or_dropped m \<Longrightarrow> framed kept_or_dropped (failing env m)"
  unfolding failing_def by (intro safe.framed_try safe.framed_seq safe.framed_basic kept_breaker)

lemma kept_ready: "framed kept_or_dropped ready"
  unfolding ready_def by (intro safe.framed_seq safe.framed_basic) (auto split: option.split simp: safe.framed_basic)

lemma kept_probe: "framed kept_or_dropped (complete_half_open_probe env permit)"
  unfolding complete_half_open_probe_def heartbeat_def circuit_now_def
  by (intro safe.framed_if safe.framed_basic kept_failing safe.framed_seq safe.framed_tick kept_breaker)
    (auto intro!: safe.framed_seq safe.framed_basic safe.framed_tick kept_ready kept_reads kept_core)

lemma kept_upload: "framed kept_or_dropped (upload_head env i session items)"
  unfolding upload_head_def Let_def
  by (intro safe.framed_if safe.framed_basic safe.framed_upload kept_core)

text \<open>The outcome of a flush, with \<open>r\<close> what it returns\<close>

definition flush_outcome :: "connector \<Rightarrow> bool res \<Rightarrow> connector \<Rightarrow> bool" where
  "flush_outcome s r s' \<longleftrightarrow> (\<exists>s1. kept_or_dropped s s1 \<and> dropped (cn_queue s') = dropped (cn_queue s1) \<and>
     (if r = Inr True
      then \<exists>k. dget (cn_cursor s') ''uplink_sequence'' = PInt k \<and>
        cn_queue s' = acknowledge_through k (cn_queue s1)
      else pending (cn_queue s') = pending (cn_queue s1)))"

lemma outcome_kept: "kept_or_dropped s s' \<Longrightarrow> r \<noteq> Inr True \<Longrightarrow> flush_outcome s r s'"
  unfolding flush_outcome_def by (rule exI [of _ s']) simp

lemma outcome_after: "kept_or_dropped s t \<Longrightarrow> flush_outcome t r s' \<Longrightarrow> flush_outcome s r s'"
  unfolding flush_outcome_def using safe.trans by blast

lemma outcome_seq:
  assumes "framed kept_or_dropped m" "\<And>a s r s'. f a s = (r, s') \<Longrightarrow> flush_outcome s r s'"
    and "seq m f s = (r, s')"
  shows "flush_outcome s r s'"
proof (cases "m s")
  case (Pair q t)
  have t: "kept_or_dropped s t" using framedD [OF assms(1) Pair] .
  show ?thesis
  proof (cases q)
    case (Inl e)
    with assms(3) Pair t show ?thesis by (auto simp: seq_def intro: outcome_kept)
  next
    case (Inr a)
    with assms(3) Pair have "f a t = (r, s')" by (simp add: seq_def)
    then show ?thesis by (rule outcome_after [OF t assms(2)])
  qed
qed

lemma outcome_Inl:
  assumes "flush_outcome s (Inl e) t"
  shows "kept_or_dropped s t"
proof -
  obtain s1 where s1: "kept_or_dropped s s1" "dropped (cn_queue t) = dropped (cn_queue s1)"
    "pending (cn_queue t) = pending (cn_queue s1)"
    using assms unfolding flush_outcome_def by (elim exE conjE) (simp only: sum.distinct if_False)
  then show ?thesis by (simp add: kept_or_dropped_def)
qed

lemma outcome_failing:
  assumes "\<And>r s'. m s = (r, s') \<Longrightarrow> flush_outcome s r s'" "failing env m s = (r, s')"
  shows "flush_outcome s r s'"
proof (cases "m s")
  case (Pair q t)
  have out: "flush_outcome s q t" by (rule assms(1) [OF Pair])
  show ?thesis
  proof (cases q)
    case (Inr b)
    with assms(2) Pair out show ?thesis by (simp add: failing_def try_except_def catch_def)
  next
    case (Inl e)
    have t: "kept_or_dropped s t" using out unfolding Inl by (rule outcome_Inl)
    have handler: "framed kept_or_dropped (if e = NoFuel then throw e else seq (breaker_failure env) (\<lambda>_. throw e))"
      by (intro safe.framed_if safe.framed_seq safe.framed_basic kept_breaker)
    have "(if e = NoFuel then throw e else seq (breaker_failure env) (\<lambda>_. throw e)) t = (r, s')"
      using assms(2) Pair Inl by (simp add: failing_def try_except_def catch_def)
    from safe.trans [OF t framedD [OF handler this]] have "kept_or_dropped s s'" .
    moreover have "r \<noteq> Inr True"
      using assms(2) Pair Inl
      by (auto simp: failing_def try_except_def catch_def seq_def throw_def split: if_splits prod.splits sum.splits)
    ultimately show ?thesis by (rule outcome_kept)
  qed
qed

lemma outcome_deliver:
  assumes "deliver env permit i session items s = (r, s')"
  shows "flush_outcome s r s'"
proof -
  have settled: "flush_outcome t r t'"
    if "seq (lift_res (rbind (dindex a ''cursor_after'') py_int)) (\<lambda>acknowledged.
         seq (queue_do (acknowledge_through acknowledged)) (\<lambda>_.
         seq (modify (\<lambda>s. s\<lparr>cn_cursor := dset (cn_cursor s) ''uplink_sequence'' (PInt acknowledged)\<rparr>)) (\<lambda>_.
         seq (breaker_success permit) (\<lambda>_. ret True)))) t = (r, t')" for a t r t'
  proof (cases "rbind (dindex a ''cursor_after'') py_int")
    case (Inl e)
    with that show ?thesis by (auto simp: eff_simps intro: outcome_kept safe.refl)
  next
    case (Inr k)
    with that have "r = Inr True" "cn_queue t' = acknowledge_through k (cn_queue t)"
      "dget (cn_cursor t') ''uplink_sequence'' = PInt k"
      by (auto simp: eff_simps queue_do_def on_queue_def zoom_def breaker_success_def)
    then show ?thesis
      unfolding flush_outcome_def by (intro exI [of _ t]) (auto simp: safe.refl acknowledge_effect)
  qed
  have no: "framed kept_or_dropped (seq (complete_half_open_probe env permit) (\<lambda>_. ret False))"
    by (intro safe.framed_seq kept_probe safe.framed_basic)
  have idle: "flush_outcome s r s'" if "seq (complete_half_open_probe env permit) (\<lambda>_. ret False) s = (r, s')"
  proof (rule outcome_kept [OF framedD [OF no that]])
    show "r \<noteq> Inr True" using that by (auto simp: seq_def ret_def split: prod.splits sum.splits)
  qed
  show ?thesis
  proof (cases "items = [] \<or> kind (hd items) = ''snapshot'' \<and> \<not> allows session GRANT_INVENTORY_READ \<or>
      kind (hd items) = ''event'' \<and> \<not> allows session GRANT_STATE_UPLINK")
    case True
    with assms show ?thesis unfolding deliver_def if_P [OF True] by (intro idle)
  next
    case False
    show ?thesis
      using assms unfolding deliver_def if_not_P [OF False]
      by (rule outcome_failing [rotated]) (rule outcome_seq [OF kept_upload settled])
  qed
qed

lemma outcome_flush:
  assumes "flush_once env s = (r, s')"
  shows "flush_outcome s r s'"
proof (rule outcome_seq [OF kept_breaker(3) _ assms [unfolded flush_once_def]])
  fix p t q t'
  let ?peek = "failing env (seq ready (\<lambda>(i, session). seq (now_tick env) (\<lambda>now.
    seq (queue_get (peek_all now (event_batch_size (ne_config env)))) (\<lambda>items. ret (i, session, items)))))"
  assume run: "(case p of None \<Rightarrow> ret False | Some permit \<Rightarrow> seq ?peek (\<lambda>(i, session, items).
    deliver env permit i session items)) t = (q, t')"
  have peek: "framed kept_or_dropped ?peek"
    by (intro kept_failing safe.framed_seq kept_ready)
      (auto intro!: safe.framed_tick safe.framed_seq kept_reads safe.framed_basic)
  show "flush_outcome t q t'"
  proof (cases p)
    case None
    with run show ?thesis by (auto simp: ret_def intro: outcome_kept safe.refl)
  next
    case (Some permit)
    with run show ?thesis
      by (auto elim!: outcome_seq [OF peek, rotated] intro: outcome_deliver)
  qed
qed

text \<open>
  The answer behind an acknowledgement: the last request a client sent is an upload to that
  session, and Core accepted it and answered \<open>cursor_after\<close>.
\<close>

definition core_acknowledged :: "core_env \<Rightarrow> hub_session \<Rightarrow> core_client \<Rightarrow> core_client \<Rightarrow> int \<Rightarrow> bool" where
  "core_acknowledged env session c c' k \<longleftrightarrow> (\<exists>pre rq a. cc_log c' = cc_log c @ pre @ [rq] \<and>
     rq_url rq \<in> {cc_base_url c @ session_path session ''/events'',
       cc_base_url c @ session_path session ''/snapshots''} \<and>
     answered_with env (cc_log c @ pre) rq a \<and> dhas a ''cursor_after'' \<and>
     py_int (dget a ''cursor_after'') = Inr k)"

abbreviation sent_more :: "connector \<Rightarrow> connector \<Rightarrow> bool" where
  "sent_more s s' \<equiv> sends (\<lambda>_ _. True) (cn_core s) (cn_core s')"

definition last_answer :: "core_env \<Rightarrow> hub_session \<Rightarrow> core_client \<Rightarrow> core_client \<Rightarrow> pydict \<Rightarrow> bool" where
  "last_answer env session c c' a \<longleftrightarrow> (\<exists>pre rq. cc_log c' = cc_log c @ pre @ [rq] \<and>
     rq_url rq \<in> {cc_base_url c @ session_path session ''/events'',
       cc_base_url c @ session_path session ''/snapshots''} \<and>
     answered_with env (cc_log c @ pre) rq a)"

lemma attempt_answered:
  assumes "upload_attempt env queued sequences body send (s, n) = (Inr a, (s', n'))"
  shows "\<exists>now json. send now json (cn_core s) = (Inr a, cn_core s')"
  using assms
  by (fastforce simp: upload_attempt_def with_attempt_def zoom_def on_core_def queue_do_def on_queue_def
      now_tick_def try_except_def catch_def eff_simps split: prod.splits sum.splits if_splits)

lemma retry_upload_answered:
  assumes framed: "\<And>now json. framed (sends (\<lambda>_ _. True)) (send now json)"
    and answered: "\<And>now json c c'. send now json c = (Inr a, c') \<Longrightarrow> last_answer ce session c c' a"
    and run: "retry_upload env n (upload_attempt env queued sequences body send) s = (Inr a, s')"
  shows "last_answer ce session (cn_core s) (cn_core s') a"
proof -
  let ?sleep = "\<lambda>d (s, n :: int). (sleep_for env d s, n)"
  let ?draw = "\<lambda>(s, n :: int). case draw_random env s of (r, s') \<Rightarrow> (r, (s', n))"
  obtain n' where "retry_bounded (upload_attempt env queued sequences body send)
      (retry_max_attempts (ne_config env)) (retry_base_seconds (ne_config env)) ?sleep ?draw
      retryable_core_error (s, n) = (Inr a, (s', n'))"
    using run by (auto simp: retry_upload_def split: prod.splits)
  moreover have "framed (\<lambda>x y. sent_more (fst x) (fst y)) (upload_attempt env queued sequences body send)"
    by (intro announced.framed_attempt announced_core framed)
  moreover have "sent_more (fst x) (fst (?sleep d x))" for d x
    by (cases x) (simp add: announced.passes)
  moreover have "sent_more (fst x) (fst (snd (?draw x)))" for x
    using announced.passes(2) [of _ "fst x"] by (cases x) (simp add: case_prod_unfold)
  ultimately have "\<exists>p. sent_more (fst (s, n)) (fst p) \<and>
      upload_attempt env queued sequences body send p = (Inr a, (s', n'))"
    by (intro announced.counted.retry_last)
  then obtain t m where t: "sent_more s t"
      "upload_attempt env queued sequences body send (t, m) = (Inr a, (s', n'))" by auto
  from attempt_answered [OF t(2)] obtain now json
    where "send now json (cn_core t) = (Inr a, cn_core s')" by blast
  from answered [OF this] have "last_answer ce session (cn_core t) (cn_core s') a" .
  moreover obtain new where "cc_log (cn_core t) = cc_log (cn_core s) @ new"
      "cc_base_url (cn_core t) = cc_base_url (cn_core s)"
    using t(1) by (auto simp: sends_def)
  ultimately show ?thesis
    unfolding last_answer_def by (elim exE conjE) (intro exI [of _ "new @ _"] exI conjI; simp)
qed

lemma sends_any: "framed (sends (\<lambda>_ _. True)) (core_upload_events ce now i x json)"
  "framed (sends (\<lambda>_ _. True)) (core_upload_snapshot ce now i x json)"
  unfolding core_upload_events_def core_upload_snapshot_def open_post_def bearer_post_def
  by (intro sends_call; unfold open_post_def bearer_post_def; rule sends_request; simp)+

lemma upload_head_answered:
  assumes "upload_head env i session items s = (Inr a, s')"
  shows "last_answer (ne_core env) session (cn_core s) (cn_core s') a"
proof -
  have events: "last_answer ce session c c' a" if "core_upload_events ce now i session json c = (Inr a, c')"
    for ce now json c c'
    using session_call_sent [OF that [unfolded core_upload_events_def]] unfolding last_answer_def by blast
  have snapshot: "last_answer ce session c c' a" if "core_upload_snapshot ce now i session json c = (Inr a, c')"
    for ce now json c c'
    using session_call_sent [OF that [unfolded core_upload_snapshot_def]] unfolding last_answer_def by blast
  show ?thesis
    using assms unfolding upload_head_def Let_def
    by (auto split: if_splits simp: throw_def
        intro: retry_upload_answered [OF sends_any(1) events] retry_upload_answered [OF sends_any(2) snapshot])
qed

lemma deliver_answered:
  assumes "deliver env permit i session items s = (Inr True, s')"
  shows "\<exists>k. dget (cn_cursor s') ''uplink_sequence'' = PInt k \<and>
    core_acknowledged (ne_core env) session (cn_core s) (cn_core s') k"
proof -
  have "\<not> (items = [] \<or> kind (hd items) = ''snapshot'' \<and> \<not> allows session GRANT_INVENTORY_READ \<or>
      kind (hd items) = ''event'' \<and> \<not> allows session GRANT_STATE_UPLINK)" (is "\<not> ?idle")
    using assms by (auto simp: deliver_def seq_def ret_def split: if_splits prod.splits sum.splits)
  note run = assms [unfolded deliver_def if_not_P [OF this]]
  obtain a t k where t: "upload_head env i session items s = (Inr a, t)"
    and k: "rbind (dindex a ''cursor_after'') py_int = Inr k"
    and s': "cn_core s' = cn_core t" "dget (cn_cursor s') ''uplink_sequence'' = PInt k"
    using run
    by (auto simp: failing_def try_except_def catch_def eff_simps queue_do_def on_queue_def zoom_def
        breaker_success_def now_tick_def breaker_failure_def
        split: prod.splits sum.splits if_splits)
  from k have "dhas a ''cursor_after'' \<and> py_int (dget a ''cursor_after'') = Inr k"
    by (auto simp: dindex_def dhas_def dget_def split: option.splits)
  with upload_head_answered [OF t] s' show ?thesis
    unfolding last_answer_def core_acknowledged_def by (intro exI [of _ k]) auto
qed

lemma flush_answered:
  assumes "flush_once env s = (Inr True, s')"
  shows "\<exists>session k. cn_session s = Some session \<and> dget (cn_cursor s') ''uplink_sequence'' = PInt k \<and>
    core_acknowledged (ne_core env) session (cn_core s) (cn_core s') k"
proof -
  have "\<exists>permit i session items t. deliver env permit i session items t = (Inr True, s') \<and>
      cn_session s = Some session \<and> cn_core t = cn_core s"
    using assms
    apply (auto simp: flush_once_def breaker_allow_def now_tick_def failing_def try_except_def catch_def
        ready_def eff_simps queue_get_def on_queue_def zoom_def breaker_failure_def
        split: prod.splits sum.splits if_splits option.splits)
    apply (intro exI conjI, assumption)
    apply simp_all
    done
  then obtain permit i session items t where "deliver env permit i session items t = (Inr True, s')"
    and t: "cn_session s = Some session" "cn_core t = cn_core s" by blast
  from deliver_answered [OF this(1)] t show ?thesis by auto
qed

text \<open>
  C5: uploading loses nothing. Whatever a flush does and whatever Core answers, up to the moment of
  the acknowledgement the queue holds all that it held, or all of it expired and is counted as
  dropped. A flush that reports progress then removes exactly what Core has acknowledged: its last
  request was an upload to the session held, Core accepted it, and the \<open>cursor_after\<close> of that very
  answer is the number through which the queue is cleared, the cursor the next heartbeat and the
  next session start from, and a number the queue numbers after. Any other flush, failed or not,
  removes nothing more.
\<close>

theorem flush_removes_only_acknowledged:
  assumes "flush_once env s = (r, s')"
  shows "\<exists>kept. (kept = pending (cn_queue s) \<and> dropped (cn_queue s') = dropped (cn_queue s) \<or>
      kept = [] \<and> dropped (cn_queue s') = dropped (cn_queue s) + depth (cn_queue s)) \<and>
    (if r = Inr True
     then \<exists>session k. cn_session s = Some session \<and>
       core_acknowledged (ne_core env) session (cn_core s) (cn_core s') k \<and>
       dget (cn_cursor s') ''uplink_sequence'' = PInt k \<and>
       pending (cn_queue s') = filter (\<lambda>n. k < n) kept \<and>
       k < next_sequence (cn_queue s') \<and> k \<le> acknowledged_sequence (cn_queue s')
     else pending (cn_queue s') = kept)"
proof -
  have "flush_outcome s r s'" by (rule outcome_flush [OF assms])
  then obtain s1 where s1: "kept_or_dropped s s1" "dropped (cn_queue s') = dropped (cn_queue s1)"
    "if r = Inr True then \<exists>k. dget (cn_cursor s') ''uplink_sequence'' = PInt k \<and>
       cn_queue s' = acknowledge_through k (cn_queue s1) else pending (cn_queue s') = pending (cn_queue s1)"
    unfolding flush_outcome_def by (elim exE conjE)
  have "if r = Inr True
     then \<exists>session k. cn_session s = Some session \<and>
       core_acknowledged (ne_core env) session (cn_core s) (cn_core s') k \<and>
       dget (cn_cursor s') ''uplink_sequence'' = PInt k \<and>
       pending (cn_queue s') = filter (\<lambda>n. k < n) (pending (cn_queue s1)) \<and>
       k < next_sequence (cn_queue s') \<and> k \<le> acknowledged_sequence (cn_queue s')
     else pending (cn_queue s') = pending (cn_queue s1)"
  proof (cases "r = Inr True")
    case True
    with s1(3) obtain k where k: "dget (cn_cursor s') ''uplink_sequence'' = PInt k"
      "cn_queue s' = acknowledge_through k (cn_queue s1)" by (auto simp only: if_True simp_thms)
    obtain session where session: "cn_session s = Some session"
      "core_acknowledged (ne_core env) session (cn_core s) (cn_core s') k"
      using flush_answered [OF assms [unfolded True]] k(1) by auto
    from True show ?thesis
      unfolding if_P [OF True] k(2) pending_acknowledge
      by (intro exI [of _ session] exI [of _ k] conjI session k(1) refl) (simp_all add: acknowledge_effect)
  qed (use s1(3) in simp)
  then show ?thesis
    using s1(1,2) unfolding kept_or_dropped_def by (intro exI [of _ "pending (cn_queue s1)"] conjI) simp_all
qed

section \<open>Witnesses\<close>

definition sample_item :: "int \<Rightarrow> string \<Rightarrow> int \<Rightarrow> queue_item" where
  "sample_item n sid attempts = \<lparr>sequence = n, kind = ''event'',
     payload = event_payload sid ''t1'' False [], created_at = 0, byte_size = 9,
     delivery_attempts = attempts, last_attempted_at = None, accepted = True, drop_reason = None\<rparr>"

theorem batch_is_contiguous_witness:
  "\<exists>rest. [sample_item 4 ''a'' 0, sample_item 5 ''b'' 0, sample_item 6 ''a'' 0] =
      [sample_item 4 ''a'' 0, sample_item 5 ''b'' 0] @ rest"
proof -
  let ?items = "[sample_item 4 ''a'' 0, sample_item 5 ''b'' 0, sample_item 6 ''a'' 0]"
  have "kind (hd ?items) = ''event''" by (simp add: sample_item_def)
  then obtain rest where "?items = contiguous_events ?items @ rest"
    using batch_is_contiguous [of ?items] by blast
  moreover have "contiguous_events ?items = [sample_item 4 ''a'' 0, sample_item 5 ''b'' 0]"
    by (simp add: contiguous_events_def sample_item_def event_payload_def Let_def)
  ultimately show ?thesis by auto
qed

definition queued_snapshot :: queue_row where
  "queued_snapshot = \<lparr>row_sequence = 1, row_kind = ''snapshot'', row_payload = [], row_bytes = 9,
     row_created = 0, row_attempts = 0, row_last = None\<rparr>"

definition with_token :: "core_client \<Rightarrow> core_client" where
  "with_token c = c\<lparr>cc_token := PStr ''tok'', cc_token_expires := Some 900000000\<rparr>"

definition ready_to_flush :: connector where
  "ready_to_flush = in_session [GRANT_INVENTORY_READ]
     \<lparr>cn_core := with_token (core_client_init ''https://core/''),
      cn_queue := (new_queue 1048576 86400)\<lparr>q_rows := [queued_snapshot]\<rparr>\<rparr>"

theorem attempted_items_are_replayed_witness:
  "list_all (announces_replay sample_session ''https://core'')
    (cc_log (cn_core (snd (upload_head (sample_connector_env []) sample_identity sample_session
      [sample_item 4 ''a'' 1] ready_to_flush))))"
proof -
  obtain r s' where run: "upload_head (sample_connector_env []) sample_identity sample_session
      [sample_item 4 ''a'' 1] ready_to_flush = (r, s')" by fastforce
  have "kind (sample_item 4 ''a'' 1) = ''event''" "delivery_attempts (sample_item 4 ''a'' 1) = 1"
    "contiguous_events [sample_item 4 ''a'' 1] = [sample_item 4 ''a'' 1]"
    "distinct (map fst (payload (sample_item 4 ''a'' 1)))"
    by (simp_all add: contiguous_events_def sample_item_def event_payload_def Let_def)
  with attempted_items_are_replayed [OF _ _ _ _ _ run]
  have "\<exists>new. cc_log (cn_core s') = cc_log (cn_core ready_to_flush) @ new \<and>
      list_all (announces_replay sample_session (cc_base_url (cn_core ready_to_flush))) new" by simp
  moreover have "cc_log (cn_core ready_to_flush) = []" "cc_base_url (cn_core ready_to_flush) = ''https://core''"
    by (simp_all add: ready_to_flush_def with_token_def core_client_init_def rstrip_slashes_def)
  ultimately show ?thesis by (auto simp: run)
qed

lemmas connector_eval = eff_simps breaker_allow_def now_tick_def cb_allow_def in_session_def
  sample_connector_def new_breaker_def failing_def try_except_def ready_def queue_get_def queue_do_def
  on_queue_def on_core_def zoom_def sample_config_def sample_connector_env_def allows_def Let_def

lemmas upload_eval = flush_once_def ready_to_flush_def peek_all_def expire_stale_queue_def
  queued_snapshot_def new_queue_state cutoff_def row_item_def sql_limit_def deliver_def upload_head_def
  retry_upload_def retry_bounded_def retry_loop.simps upload_attempt_def snapshot_body_def with_attempt_def
  mark_delivery_attempted_def core_upload_snapshot_def session_call_def with_token_def core_client_init_def
  breaker_success_def

theorem flush_removes_only_acknowledged_witness:
  "\<exists>s' k. flush_once (sample_connector_env [Inr (answer 200 (PDict [(''cursor_after'', PInt 1)]))]) ready_to_flush =
      (Inr True, s') \<and> k \<le> acknowledged_sequence (cn_queue s') \<and> set (pending (cn_queue s')) \<subseteq> {n. k < n} \<and>
      (\<exists>session. core_acknowledged (ne_core (sample_connector_env
         [Inr (answer 200 (PDict [(''cursor_after'', PInt 1)]))])) session (cn_core ready_to_flush) (cn_core s') k)"
proof -
  let ?env = "sample_connector_env [Inr (answer 200 (PDict [(''cursor_after'', PInt 1)]))]"
  have "\<exists>s'. flush_once ?env ready_to_flush = (Inr True, s')"
    by (simp add: connector_eval upload_eval core_eval dindex_def py_int_def)
  then obtain s' where s': "flush_once ?env ready_to_flush = (Inr True, s')" ..
  from flush_removes_only_acknowledged [OF this] obtain session k
    where k: "k \<le> acknowledged_sequence (cn_queue s')"
      "\<exists>kept. pending (cn_queue s') = filter (\<lambda>n. k < n) kept"
      "core_acknowledged (ne_core ?env) session (cn_core ready_to_flush) (cn_core s') k"
    by (auto simp only: if_True simp_thms)
  then have "set (pending (cn_queue s')) \<subseteq> {n. k < n}" by (elim exE) (simp only: set_filter, blast)
  with s' k(1,3) show ?thesis by (intro exI conjI)
qed

end
