(* ===== verification/Bootstrap.thy ===== *)
theory Bootstrap
  imports Downlink Uplink
begin

text \<open>
  The bootstrap of \<open>runtime.py\<close>: an existing identity goes live, a provisioned device activates and
  waits for its binding, a paired one exchanges its code. The waits are bounded by \<open>ne_fuel\<close>
  rounds in the model.
\<close>

section \<open>Waiting for Core\<close>

definition core_temporarily_unavailable :: "exn \<Rightarrow> bool" where
  "core_temporarily_unavailable e =
     (case e of
        TransportError _ \<Rightarrow> True
      | HTTPStatusError status \<Rightarrow> 500 \<le> status \<or> status = 429
      | _ \<Rightarrow> False)"

definition CORE_RETRY_MAX_SECONDS :: real where
  "CORE_RETRY_MAX_SECONDS = 60"

definition next_core_delay :: "real \<Rightarrow> real" where
  "next_core_delay delay = min (delay * 2) CORE_RETRY_MAX_SECONDS"

text \<open>\<open>None\<close>: a stop was requested while waiting.\<close>

primrec unavailable_loop ::
    "connector_env \<Rightarrow> (connector, 'a) eff \<Rightarrow> nat \<Rightarrow> real \<Rightarrow> (connector, 'a option) eff" where
  "unavailable_loop env action 0 delay = throw NoFuel"
| "unavailable_loop env action (Suc n) delay =
     catch (seq action (\<lambda>a. ret (Some a)))
       (\<lambda>e. if \<not> core_temporarily_unavailable e then throw e
             else seq (stop_wait env delay) (\<lambda>stopped.
               if stopped then ret None
               else unavailable_loop env action n (next_core_delay delay)))"

definition call_while_core_unavailable ::
    "connector_env \<Rightarrow> (connector, 'a) eff \<Rightarrow> (connector, 'a option) eff" where
  "call_while_core_unavailable env action =
     unavailable_loop env action (ne_fuel env) (binding_poll_initial_seconds (ne_config env))"

definition go_live :: "connector_env \<Rightarrow> identity \<Rightarrow> (connector, unit) eff" where
  "go_live env i =
     seq (modify (\<lambda>s. s\<lparr>cn_binding := BINDING_READY\<rparr>)) (\<lambda>_.
     seq (call_while_core_unavailable env
       (seq (core_authenticate env i) (\<lambda>_. establish_session env i))) (\<lambda>_. ret ()))"

section \<open>Existing and paired identities\<close>

text \<open>Values of the identity that the code holds to be texts\<close>

definition text_or :: "string \<Rightarrow> pyval \<Rightarrow> string" where
  "text_or dflt v = (if truthy v then py_str v else dflt)"

definition adopt_identity :: "identity \<Rightarrow> string \<Rightarrow> (connector, unit) eff" where
  "adopt_identity i binding = modify (\<lambda>s. s\<lparr>cn_identity := Some i, cn_binding := binding\<rparr>)"

text \<open>ASCII and Latin-1 upper case, as \<open>str.upper\<close>\<close>

definition upper :: "string \<Rightarrow> string" where
  "upper s = map (\<lambda>c. let n = of_char c :: nat in
     if 97 \<le> n \<and> n \<le> 122 \<or> 224 \<le> n \<and> n \<le> 254 \<and> n \<noteq> 247 then char_of (n - 32) else c) s"

definition prepare_existing :: "connector_env \<Rightarrow> identity \<Rightarrow> (connector, unit) eff" where
  "prepare_existing env i =
     (if effective_bootstrap_mode i = PStr BOOTSTRAP_PROVISIONED
      then seq (adopt_identity i (text_or BINDING_READY (binding_state i))) (\<lambda>_. go_live env i)
      else if \<not> truthy (enrollment_id i) \<or> \<not> truthy (exchange_receipt i)
      then throw (RuntimeError ''HUB_ENROLLMENT_STATE_INVALID'')
      else
        seq (call_while_core_unavailable env (on_core (enrollment_status (ne_core env)
              (py_str (enrollment_id i)) (py_str (exchange_receipt i))))) (\<lambda>status.
          case status of
            None \<Rightarrow> ret ()
          | Some status \<Rightarrow>
              seq (lift_res (dindex status ''status'')) (\<lambda>st.
                if st \<noteq> PStr ''approved''
                then throw (case st of PStr t \<Rightarrow> RuntimeError (''HUB_APPROVAL_'' @ upper t)
                            | _ \<Rightarrow> AttributeError ''upper'')
                else seq (adopt_identity i BINDING_READY) (\<lambda>_. go_live env i))))"

definition prepare_paired :: "connector_env \<Rightarrow> identity \<Rightarrow> string \<Rightarrow> (connector, unit) eff" where
  "prepare_paired env i code =
     (let cfg = ne_config env; keys = ce_keys (ne_core env) in
      seq (on_core (exchange (ne_core env) code (Config.installation_id cfg) (display_name cfg)
        (public_key_pem keys i) (runtime_kind cfg) (Identity.signature_algorithm i))) (\<lambda>exchanged.
      seq (lift_res (dindex exchanged ''enrollment_id'')) (\<lambda>enrollment.
      seq (lift_res (dindex exchanged ''connector_id'')) (\<lambda>connector.
      seq (lift_res (dindex exchanged ''credential_id'')) (\<lambda>credential.
      seq (lift_res (dindex exchanged ''exchange_receipt'')) (\<lambda>receipt.
      seq (on_files (save_exchange keys enrollment connector credential receipt)) (\<lambda>i'.
        prepare_existing env i')))))))"

section \<open>Provisioned devices\<close>

definition next_poll_delay :: "connector_env \<Rightarrow> real \<Rightarrow> real" where
  "next_poll_delay env delay = min (delay * 2) (binding_poll_max_seconds (ne_config env))"

definition wait_before_retry :: "connector_env \<Rightarrow> real \<Rightarrow> (connector, real) eff" where
  "wait_before_retry env delay =
     seq (stop_wait env delay) (\<lambda>_. ret (next_poll_delay env delay))"

definition self_health :: "connector_env \<Rightarrow> pydict" where
  "self_health env = [(''runtime_kind'', PStr (runtime_kind (ne_config env))),
     (''installation_id'', PStr (Config.installation_id (ne_config env))), (''contract_version'', PStr ''1.0'')]"

definition CLAIM_CODE_HINT :: string where
  "CLAIM_CODE_HINT = ''claim code received locally but this build binds through the IoT Core app: ask the end user to enter it there. Device-side claim submission needs a hub-facing endpoint (provisioning mode C, not in this release).''"

text \<open>The file is removed whether or not it could be read.\<close>

definition consume_claim_code :: "connector_env \<Rightarrow> (connector, unit) eff" where
  "consume_claim_code env s =
     (if claim_code_file (ne_config env) = None then (Inr (), s)
      else case cn_claim s of
        None \<Rightarrow> (Inr (), s)
      | Some None \<Rightarrow> (Inr (), s\<lparr>cn_claim := None\<rparr>)
      | Some (Some code) \<Rightarrow>
          (Inr (), s\<lparr>cn_claim := None,
             cn_failure := (if strip code = [] then cn_failure s else Some CLAIM_CODE_HINT)\<rparr>))"

definition provisioning_texts :: "connector_env \<Rightarrow> string \<times> string \<times> string \<times> string" where
  "provisioning_texts env = (case ne_config env of c \<Rightarrow>
     let text = (\<lambda>v. case v of None \<Rightarrow> [] | Some t \<Rightarrow> t) in
     (text (cfg_tenant_id c), text (cfg_product_key c), text (cfg_device_name c), text (cfg_device_secret c)))"

definition has_provisioning_triple :: "connector_env \<Rightarrow> bool" where
  "has_provisioning_triple env = (case provisioning_texts env of (t, p, d, s) \<Rightarrow>
     t \<noteq> [] \<and> p \<noteq> [] \<and> d \<noteq> [] \<and> s \<noteq> [])"

definition activate_now :: "connector_env \<Rightarrow> identity \<Rightarrow> (connector, pydict) eff" where
  "activate_now env i = (case provisioning_texts env of (t, p, d, secret) \<Rightarrow>
     seq (now_tick env) (\<lambda>now.
       on_core (activate (ne_core env) now t p d secret (public_key_pem (ce_keys (ne_core env)) i)
         (Config.installation_id (ne_config env)) (Identity.signature_algorithm i) (self_health env))))"

text \<open>
  What follows a successful activation: \<open>Some ()\<close> when the device is bound and live, \<open>None\<close> with
  the identity to go on with when it still waits.
\<close>

definition after_activation ::
    "connector_env \<Rightarrow> pydict \<Rightarrow> (connector, identity option) eff" where
  "after_activation env result = (case provisioning_texts env of (t, p, d, _) \<Rightarrow>
     (let keys = ce_keys (ne_core env) in
      seq (modify (\<lambda>s. s\<lparr>cn_failure := None\<rparr>)) (\<lambda>_.
      seq (on_files (save_activation keys (PStr t) (PStr p) (PStr d) (dget result ''identity_id'')
        (py_str (py_or (dget result ''binding_state'') (PStr BINDING_AWAITING_BINDING)))
        (dget result ''bound_space_node_id'') (dget result ''connector_id'') PNone)) (\<lambda>i.
      seq (modify (\<lambda>s. s\<lparr>cn_binding := text_or BINDING_AWAITING_BINDING (binding_state i)\<rparr>)) (\<lambda>_.
      seq (asks cn_binding) (\<lambda>binding.
        if binding = BINDING_READY \<and> truthy (dget result ''connector_id'')
        then
          seq (on_files (save_binding_state keys BINDING_READY PNone (dget result ''connector_id'')
            (dget result ''credential_id''))) (\<lambda>i.
          seq (modify (\<lambda>s. s\<lparr>cn_identity := Some i\<rparr>)) (\<lambda>_.
          seq (go_live env i) (\<lambda>_. ret None)))
        else ret (Some i)))))))"

primrec provision_loop :: "connector_env \<Rightarrow> nat \<Rightarrow> identity \<Rightarrow> real \<Rightarrow> (connector, unit) eff" where
  "provision_loop env 0 i delay = throw NoFuel"
| "provision_loop env (Suc n) i delay =
     seq (asks (stopping env)) (\<lambda>stopped.
       if stopped then ret ()
       else
         seq (catch (seq (activate_now env i) (\<lambda>result. ret (Inr result))) (\<lambda>e. ret (Inl e))) (\<lambda>outcome.
           case outcome of
             Inl e \<Rightarrow>
               (case e of
                  HubActivationError detail _ terminal \<Rightarrow>
                    seq (modify (\<lambda>s. s\<lparr>cn_failure := Some detail\<rparr>)) (\<lambda>_.
                      if terminal then throw (RuntimeError (''HUB_ACTIVATION_REJECTED: '' @ detail))
                      else seq (wait_before_retry env delay) (provision_loop env n i))
                | _ \<Rightarrow>
                    seq (modify (\<lambda>s. s\<lparr>cn_failure := Some (exn_text (ne_error_text env) e)\<rparr>)) (\<lambda>_.
                      seq (wait_before_retry env delay) (provision_loop env n i)))
           | Inr result \<Rightarrow>
               seq (after_activation env result) (\<lambda>waiting.
                 case waiting of
                   None \<Rightarrow> ret ()
                 | Some i' \<Rightarrow>
                     seq (consume_claim_code env) (\<lambda>_.
                     seq (wait_before_retry env delay) (provision_loop env n i')))))"

definition prepare_provisioned :: "connector_env \<Rightarrow> identity \<Rightarrow> (connector, unit) eff" where
  "prepare_provisioned env i =
     seq (modify (\<lambda>s. s\<lparr>cn_binding := BINDING_AWAITING_ACTIVATION\<rparr>)) (\<lambda>_.
       provision_loop env (ne_fuel env) i (binding_poll_initial_seconds (ne_config env)))"

section \<open>Choosing the path\<close>

definition prepare :: "connector_env \<Rightarrow> (connector, unit) eff" where
  "prepare env =
     seq (on_files (load_or_create (ce_keys (ne_core env)))) (\<lambda>i.
       if truthy (connector_id i) then prepare_existing env i
       else if has_provisioning_triple env then prepare_provisioned env i
       else case pairing_code (ne_config env) of
         Some code \<Rightarrow> (if code \<noteq> [] then prepare_paired env i code else throw (RuntimeError ''HUB_PAIRING_REQUIRED''))
       | None \<Rightarrow> throw (RuntimeError ''HUB_PAIRING_REQUIRED''))"

definition ensure_data_plane_open :: "(connector, unit) eff" where
  "ensure_data_plane_open =
     seq (asks cn_binding) (\<lambda>binding.
       if binding \<noteq> BINDING_READY then throw (RuntimeError (''HUB_DATA_PLANE_CLOSED: '' @ binding)) else ret ())"

definition local_status :: "connector_env \<Rightarrow> connector \<Rightarrow> pydict" where
  "local_status env s =
     [(''binding_state'', PStr (cn_binding s)),
      (''failure_reason'', case cn_failure s of None \<Rightarrow> PNone | Some m \<Rightarrow> PStr m),
      (''data_plane_open'', PBool (cn_binding s = BINDING_READY)),
      (''bootstrap_mode'', case cn_identity s of None \<Rightarrow> PNone | Some i \<Rightarrow> effective_bootstrap_mode i),
      (''device_name'', case cfg_device_name (ne_config env) of None \<Rightarrow> PNone | Some d \<Rightarrow> PStr d),
      (''installation_id'', PStr (Config.installation_id (ne_config env))),
      (''bound_space_node_id'', case cn_identity s of None \<Rightarrow> PNone | Some i \<Rightarrow> bound_space_node_id i),
      (''session_id'', case cn_session s of None \<Rightarrow> PNone | Some x \<Rightarrow> PStr (session_id x)),
      (''effective_grants'', case cn_session s of None \<Rightarrow> PList []
         | Some x \<Rightarrow> PList (map PStr (sort (remdups (effective_grants x)))))]"

section \<open>The delays\<close>

interpretation core_wait: capped_doubling next_core_delay 60
  by unfold_locales (simp add: next_core_delay_def CORE_RETRY_MAX_SECONDS_def)

interpretation poll_wait: capped_doubling "next_poll_delay env" "binding_poll_max_seconds (ne_config env)" for env
  by unfold_locales (simp add: next_poll_delay_def)

text \<open>
  Waits back off and stay bounded. After \<open>n + 1\<close> failures in a row the next wait for Core is the
  first one doubled \<open>n + 1\<close> times, or a minute if that is less; between two polls of an unbound
  device it is the same with the configured maximum.
\<close>

theorem waits_double_up_to_their_cap:
  assumes "0 < binding_poll_max_seconds (ne_config env)"
  shows "(next_core_delay ^^ Suc n) d = min (d * 2 ^ Suc n) 60 \<and>
    (next_poll_delay env ^^ Suc n) d = min (d * 2 ^ Suc n) (binding_poll_max_seconds (ne_config env))"
  using core_wait.delay_iterate [of n d] poll_wait.delay_iterate [OF assms, of n d] by simp

theorem waits_double_up_to_their_cap_witness:
  "(next_core_delay ^^ Suc 3) 5 = 60 \<and> (next_poll_delay (sample_connector_env []) ^^ Suc 3) 5 = 80"
  using waits_double_up_to_their_cap [of "sample_connector_env []" 3 5]
  by (simp add: sample_connector_env_def sample_config_def del: funpow.simps)

section \<open>Frames of start-up\<close>

text \<open>
  A frame condition that the steps of start-up keep, one by one, is kept by the ways into a
  session and by the path of an existing identity.
\<close>

locale startup_frame = frame_condition R for R :: "connector \<Rightarrow> connector \<Rightarrow> bool" +
  assumes clock: "framed R (now_tick env)" "framed R (stop_wait env d)"
    and requests: "framed R (on_core (authenticate ce i))"
      "framed R (on_core (connect_session ce t i cursor))"
      "framed R (on_core (enrollment_status ce enrollment receipt))"
    and resync: "framed R (on_queue (synchronize_with_server_cursor k))"
    and records: "framed R (modify (\<lambda>s. s\<lparr>cn_binding := b\<rparr>))"
      "framed R (modify (\<lambda>s. s\<lparr>cn_session := x, cn_rule_instance := r\<rparr>))"
      "framed R (modify (\<lambda>s. s\<lparr>cn_cursor := c\<rparr>))"
      "framed R (modify (\<lambda>s. s\<lparr>cn_identity := Some j, cn_binding := b\<rparr>))"
begin

lemmas frame_rules = framed_seq framed_basic framed_catch framed_if clock requests resync records

lemma framed_connect: "framed R (connect_loop env i n)"
proof (induction n)
  case (Suc n)
  have "framed R (case e of
      HubLeaseConflictError retry expires \<Rightarrow>
        seq (stop_wait env (lease_conflict_wait_seconds retry)) (\<lambda>stopped.
          if stopped then ret None else connect_loop env i n)
    | _ \<Rightarrow> throw e)" for e
    by (cases e) (auto intro!: frame_rules Suc)
  then show ?case by (auto intro!: frame_rules)
qed (auto intro!: frame_rules)

lemma framed_adopt: "framed R (adopt_session x)"
  unfolding adopt_session_def Let_def by (intro frame_rules)

lemma framed_establish: "framed R (establish_session env i)"
proof -
  have "framed R (case x of None \<Rightarrow> ret () | Some x \<Rightarrow> adopt_session x)" for x
    by (cases x) (auto intro!: frame_rules framed_adopt)
  then show ?thesis unfolding establish_session_def by (intro frame_rules framed_connect)
qed

lemma framed_unavailable: "framed R action \<Longrightarrow> framed R (unavailable_loop env action n delay)"
  by (induction n arbitrary: delay) (auto intro!: frame_rules)

lemma framed_go_live: "framed R (go_live env i)"
  unfolding go_live_def call_while_core_unavailable_def core_authenticate_def
  by (intro frame_rules framed_unavailable framed_establish)

lemma framed_existing: "framed R (prepare_existing env i)"
proof -
  have "framed R (case status of None \<Rightarrow> ret ()
      | Some status \<Rightarrow>
          seq (lift_res (dindex status ''status'')) (\<lambda>st.
            if st \<noteq> PStr ''approved''
            then throw (case st of PStr t \<Rightarrow> RuntimeError (''HUB_APPROVAL_'' @ upper t)
                        | _ \<Rightarrow> AttributeError ''upper'')
            else seq (adopt_identity i BINDING_READY) (\<lambda>_. go_live env i)))" for status
    unfolding adopt_identity_def by (cases status) (auto intro!: frame_rules framed_go_live)
  then show ?thesis
    unfolding prepare_existing_def call_while_core_unavailable_def adopt_identity_def
    by (intro frame_rules framed_unavailable framed_go_live)
qed

end

end
