(* ===== verification/Startup.thy ===== *)
theory Startup
  imports Bootstrap
begin

text \<open>
  Start-up ends. \<open>prepare\<close> waits for a lease, for Core to come back and for a binding in loops that
  nothing bounds but a stop request. When a stop is requested at some time, each loop returns after
  it: every round that goes on takes at least a second of the clock, so a number of rounds that
  spans the time up to the request is enough.
\<close>

section \<open>Computations that do not run out of rounds\<close>

named_theorems unstuck \<open>computations that never run out of rounds\<close>

abbreviation unstuck_res :: "'a res \<Rightarrow> bool" where
  "unstuck_res r \<equiv> r \<noteq> Inl NoFuel"

definition never_stuck :: "('s, 'a) eff \<Rightarrow> bool" where
  "never_stuck m \<longleftrightarrow> (\<forall>s. unstuck_res (fst (m s)))"

lemma never_stuckI: "(\<And>s. unstuck_res (fst (m s))) \<Longrightarrow> never_stuck m"
  by (simp add: never_stuck_def)

lemma never_stuck_basic [unstuck]:
  "never_stuck (ret a)" "never_stuck (asks f)" "never_stuck (modify k)"
  "unstuck_res r \<Longrightarrow> never_stuck (lift_res r)" "e \<noteq> NoFuel \<Longrightarrow> never_stuck (throw e)"
  by (simp_all add: never_stuck_def eff_simps)

lemma never_stuck_seq [unstuck]:
  assumes "never_stuck m" "\<And>a. never_stuck (f a)"
  shows "never_stuck (seq m f)"
proof (rule never_stuckI)
  fix s
  show "unstuck_res (fst (seq m f s))"
    using assms by (cases "m s") (auto simp: never_stuck_def seq_def split: sum.split dest: spec [of _ s])
qed

lemma never_stuck_if [unstuck]: "never_stuck m \<Longrightarrow> never_stuck k \<Longrightarrow> never_stuck (if b then m else k)"
  by simp

lemma unstuck_rbind [unstuck]:
  "unstuck_res r \<Longrightarrow> (\<And>a. unstuck_res (f a)) \<Longrightarrow> unstuck_res (rbind r f)"
  by (cases r) auto

lemma unstuck_rmap [unstuck]: "(\<And>x. unstuck_res (f x)) \<Longrightarrow> unstuck_res (rmap f xs)"
  by (induction xs) (auto simp: rbind_def split: sum.split)

lemma unstuck_Inr [unstuck]: "unstuck_res (Inr a)" "e \<noteq> NoFuel \<Longrightarrow> unstuck_res (Inl e)"
  by simp_all

lemma unstuck_values [unstuck]:
  "unstuck_res (dindex d k)" "unstuck_res (py_int v)" "unstuck_res (py_list v)" "unstuck_res (as_dict v)"
  by (auto simp: dindex_def py_int_def py_list_def py_iter_def as_dict_def
      split: option.split pyval.split fval.split)

lemma unstuck_py_dict [unstuck]: "unstuck_res (py_dict v)"
  by (cases v rule: py_dict.cases) auto

section \<open>Core and the files answer\<close>

lemma unstuck_response: "unstuck_res (check_response env path response)"
  by (auto simp: check_response_def session_id_from_path_def lease_conflict_def dict_or_empty_def
      unstuck_py_dict rbind_Inl_iff split: option.split pyval.split if_splits)

lemma unstuck_request [unstuck]:
  assumes "http_peer env"
  shows "never_stuck (send_request env m path json headers auth timeout)"
    "never_stuck (core_request env m path json headers auth timeout)"
    "never_stuck (open_post env path body)" "never_stuck (bearer_post env path body)"
proof -
  show send: "never_stuck (send_request env m path json headers auth timeout)"
    for m path json headers auth timeout
    using assms by (auto simp: never_stuck_def send_request_def Let_def http_peer_def)
  then show "never_stuck (core_request env m path json headers auth timeout)"
    for m path json headers auth timeout
    unfolding core_request_def by (intro unstuck unstuck_response)
  then show "never_stuck (open_post env path body)" "never_stuck (bearer_post env path body)"
    unfolding open_post_def bearer_post_def by this+
qed

lemma unstuck_time [unstuck]: "unstuck_res (core_parse_time env v)"
  by (auto simp: core_parse_time_def from_timestamp_def Let_def split: option.split pyval.split fval.split)

lemma unstuck_authenticate [unstuck]:
  assumes "http_peer env" shows "never_stuck (authenticate env i)"
proof -
  have "unstuck_res (case m of PStr message \<Rightarrow> sign_challenge (ce_keys env) i message
      | _ \<Rightarrow> Inl (AttributeError ''encode''))" for m
    by (auto simp: sign_challenge_def split: pyval.split)
  then show ?thesis
    unfolding authenticate_def using assms by (intro unstuck) simp_all
qed

lemma unstuck_connect [unstuck]:
  assumes "http_peer env" shows "never_stuck (connect_session env now i cursor)"
proof -
  have "never_stuck (ensure_token env now i None)"
    using unstuck_authenticate [OF assms]
    by (auto simp: never_stuck_def ensure_token_def seq_def eff_simps split: prod.split sum.split)
      (metis fst_conv)
  moreover have "unstuck_res (session_of env row)" for row
    unfolding session_of_def row_items_def by (intro unstuck) (auto simp: rbind_Inl_iff unstuck_py_dict)
  ultimately show ?thesis
    unfolding connect_session_def using assms by (intro unstuck) simp_all
qed

lemma unstuck_enrollment [unstuck]:
  "http_peer env \<Longrightarrow> never_stuck (exchange env code inst name pem knd alg)"
  "http_peer env \<Longrightarrow> never_stuck (enrollment_status env enrollment receipt)"
  unfolding exchange_def enrollment_status_def by (intro unstuck, assumption)+

lemma unstuck_activate [unstuck]:
  assumes "http_peer env" shows "never_stuck (activate env now t p d secret pem inst alg health)"
proof -
  have "never_stuck (seq (send_request env ''POST'' path (Some json) [] False None) (\<lambda>response.
           case check_response env path response of
             Inl (HTTPStatusError _) \<Rightarrow> throw (activation_error response)
           | r \<Rightarrow> lift_res r))" for path json
  proof (intro unstuck_request(1) never_stuck_seq assms)
    fix response
    have "activation_error response \<noteq> NoFuel"
      by (auto simp: activation_error_def split: option.split pyval.split)
    then show "never_stuck (case check_response env path response of
             Inl (HTTPStatusError _) \<Rightarrow> throw (activation_error response) | r \<Rightarrow> lift_res r)"
      using unstuck_response [of env path response]
      by (auto simp: never_stuck_def eff_simps split: sum.split exn.split)
  qed
  then show ?thesis by (simp add: never_stuck_def activate_def Let_def)
qed

lemma unstuck_load [unstuck]: "never_stuck (load_or_create kl)"
proof -
  have "never_stuck (load_or_create_key kl)"
    by (auto simp: never_stuck_def load_or_create_key_def Let_def split: option.split content.split)
  moreover have "unstuck_res (load_state st)" for st
    by (auto simp: load_state_def split: option.split content.split)
  ultimately show ?thesis
    unfolding load_or_create_def never_stuck_def eff_simps
    by (auto simp: Let_def as_dict_def ret_def throw_def rbind_def seq_def split: sum.split prod.split pyval.split) (metis fst_conv)+
qed

lemma unstuck_saves [unstuck]:
  "never_stuck (save_exchange kl a b c d)" "never_stuck (save_activation kl t p d i bs s c r)"
  "never_stuck (save_binding_state kl bs s c r)"
proof -
  have merge: "never_stuck (merge_state changes)" for changes
    by (auto simp: never_stuck_def merge_state_def load_state_def split: option.split sum.split pyval.split content.split)
  show "never_stuck (save_exchange kl a b c d)" "never_stuck (save_activation kl t p d i bs s c r)"
    "never_stuck (save_binding_state kl bs s c r)"
    unfolding save_exchange_def save_activation_def save_binding_state_def by (intro unstuck merge)+
qed

section \<open>Time and stop requests only move forward\<close>

definition later :: "connector \<Rightarrow> connector \<Rightarrow> bool" where
  "later s s' \<longleftrightarrow> cn_now s \<le> cn_now s' \<and> (cn_stop s \<longrightarrow> cn_stop s')"

lemma later_refl: "later s s" and later_trans: "later s s1 \<Longrightarrow> later s1 s2 \<Longrightarrow> later s s2"
  by (auto simp: later_def)

lemma stopping_later: "later s s' \<Longrightarrow> stopping env s \<Longrightarrow> stopping env s'"
  by (auto simp: later_def stopping_def split: option.splits)

text \<open>\<open>ends t m\<close>: started at \<open>t\<close> or later, \<open>m\<close> does not run out of rounds and time moves forward.\<close>

definition ends :: "time \<Rightarrow> (connector, 'a) eff \<Rightarrow> bool" where
  "ends t m \<longleftrightarrow> (\<forall>s. t \<le> cn_now s \<longrightarrow> unstuck_res (fst (m s)) \<and> later s (snd (m s)))"

lemma endsI: "(\<And>s r s'. t \<le> cn_now s \<Longrightarrow> m s = (r, s') \<Longrightarrow> unstuck_res r \<and> later s s') \<Longrightarrow> ends t m"
  unfolding ends_def by (metis prod.collapse)

lemma endsD: "ends t m \<Longrightarrow> t \<le> cn_now s \<Longrightarrow> m s = (r, s') \<Longrightarrow> unstuck_res r \<and> later s s'"
  unfolding ends_def by (metis fst_conv snd_conv)

named_theorems ending \<open>computations that end after a stop request\<close>

lemma ends_basic [ending]:
  "ends t (ret a)" "ends t (asks f)" "unstuck_res r \<Longrightarrow> ends t (lift_res r)" "e \<noteq> NoFuel \<Longrightarrow> ends t (throw e)"
  by (simp_all add: ends_def eff_simps later_refl)

lemma ends_modify:
  "(\<And>s. cn_now (f s) = cn_now s \<and> cn_stop (f s) = cn_stop s) \<Longrightarrow> ends t (modify f)"
  by (simp add: ends_def eff_simps later_def)

lemma ends_modifies [ending]:
  "ends t (modify (\<lambda>s. s\<lparr>cn_binding := b s\<rparr>))" "ends t (modify (\<lambda>s. s\<lparr>cn_failure := f\<rparr>))"
  "ends t (modify (\<lambda>s. s\<lparr>cn_identity := i\<rparr>))" "ends t (modify (\<lambda>s. s\<lparr>cn_cursor := c s\<rparr>))"
  "ends t (modify (\<lambda>s. s\<lparr>cn_identity := i, cn_binding := b2\<rparr>))"
  "ends t (modify (\<lambda>s. s\<lparr>cn_session := x, cn_rule_instance := r\<rparr>))"
  by (rule ends_modify; simp)+

lemma ends_seq [ending]:
  assumes "ends t m" "\<And>a. ends t (f a)" shows "ends t (seq m f)"
proof (rule endsI)
  fix s r s' assume s: "t \<le> cn_now s" "seq m f s = (r, s')"
  obtain r1 s1 where m: "m s = (r1, s1)" by (cases "m s")
  note first = endsD [OF assms(1) s(1) m]
  show "unstuck_res r \<and> later s s'"
  proof (cases r1)
    case (Inl e)
    with s(2) m first show ?thesis by (auto simp: seq_def)
  next
    case (Inr a)
    have "t \<le> cn_now s1" using s(1) first by (simp add: later_def)
    from endsD [OF assms(2) this] s(2) m first Inr show ?thesis
      by (auto simp: seq_def intro: later_trans)
  qed
qed

lemma ends_if [ending]: "ends t m \<Longrightarrow> ends t k \<Longrightarrow> ends t (if b then m else k)"
  by simp

lemma ends_zoom:
  assumes "never_stuck m" "\<And>x s. cn_now (put x s) = cn_now s" "\<And>x s. cn_stop (put x s) = cn_stop s"
  shows "ends t (zoom get put m)"
  using assms(1) by (auto simp: ends_def never_stuck_def zoom_def later_def assms(2,3) split: prod.split)
    (metis fst_conv)

lemma ends_core [ending]: "never_stuck m \<Longrightarrow> ends t (on_core m)"
  unfolding on_core_def by (rule ends_zoom) simp_all

lemma ends_files [ending]: "never_stuck m \<Longrightarrow> ends t (on_files m)"
  unfolding on_files_def by (rule ends_zoom) simp_all

lemma ends_clock [ending]: "ends t (now_tick env)"
  by (simp add: ends_def now_tick_def later_def)

section \<open>Waiting\<close>

text \<open>A wait of a second or more: it is cut short only by the stop.\<close>

lemma micros_second: "1 \<le> d \<Longrightarrow> 1000000 \<le> micros d"
  unfolding micros_def by (simp add: le_floor_iff)

lemma stop_wait_round:
  assumes "stop_wait env d s = (r, s')" "1 \<le> d"
  obtains b where "r = Inr b" "later s s'" "b \<Longrightarrow> stopping env s'"
    "\<not> b \<Longrightarrow> \<not> stopping env s \<and> cn_now s + 1000000 \<le> cn_now s'"
proof (cases "stopping env s")
  case True
  then show thesis using assms(1) that [of True] by (simp add: stop_wait_def later_refl)
next
  case going: False
  show thesis
  proof (cases "\<exists>T. ne_stop_at env = Some T \<and> T \<le> cn_now s + micros d")
    case True
    then obtain T where T: "ne_stop_at env = Some T" "T \<le> cn_now s + micros d" by blast
    then have "r = Inr True" "s' = s\<lparr>cn_now := T\<rparr>" using assms(1) going by (simp_all add: stop_wait_def)
    then show thesis using that [of True] going T(1) by (simp add: later_def stopping_def)
  next
    case False
    then have "r = Inr False" "s' = sleep_for env d s"
      using assms(1) going by (auto simp: stop_wait_def split: option.splits if_splits)
    then show thesis using that [of False] going micros_second [OF assms(2)]
      by (simp add: later_def sleep_for_def)
  qed
qed

lemma ends_wait [ending]: "1 \<le> d \<Longrightarrow> ends t (stop_wait env d)"
  by (rule endsI, erule stop_wait_round) auto

text \<open>
  The shape of the three loops: a round ends the loop, or it goes on from a later state, a second
  later at least unless a stop was requested meanwhile; once one is requested no round goes on.
\<close>

lemma waiting_loop:
  assumes stop: "ne_stop_at env = Some T"
    and round: "\<And>n d s r s'. good d \<Longrightarrow> t \<le> cn_now s \<Longrightarrow> loop (Suc n) d s = (r, s') \<Longrightarrow>
      unstuck_res r \<and> later s s' \<or>
      (\<exists>d' s1. loop (Suc n) d s = loop n d' s1 \<and> good d' \<and> later s s1 \<and> \<not> stopping env s \<and>
        (cn_now s + 1000000 \<le> cn_now s1 \<or> stopping env s1))"
    and "good d" "t \<le> cn_now s" "T \<le> cn_now s + 1000000 * int n \<or> stopping env s"
    and "loop (Suc n) d s = (r, s')"
  shows "unstuck_res r \<and> later s s'"
  using assms(3-)
proof (induction n arbitrary: d s r s')
  case 0
  then have "stopping env s" using stop by (auto simp: stopping_def)
  with round [OF 0(1,2,4)] show ?case by blast
next
  case (Suc n)
  from round [OF Suc.prems(1,2,4)] consider "unstuck_res r \<and> later s s'"
    | d' s1 where "loop (Suc (Suc n)) d s = loop (Suc n) d' s1" "good d'" "later s s1" "\<not> stopping env s"
      "cn_now s + 1000000 \<le> cn_now s1 \<or> stopping env s1"
    by blast
  then show ?case
  proof cases
    case 2
    have "t \<le> cn_now s1" using Suc.prems(2) 2(3) by (simp add: later_def)
    moreover have "T \<le> cn_now s1 + 1000000 * int n \<or> stopping env s1"
      using Suc.prems(3) 2(4,5) by auto
    moreover have "loop (Suc n) d' s1 = (r, s')" using 2(1) Suc.prems(4) by simp
    ultimately have "unstuck_res r \<and> later s1 s'" by (intro Suc.IH [OF 2(2)])
    then show ?thesis using later_trans [OF 2(3)] by blast
  qed
qed

lemma lease_wait: "1 \<le> lease_conflict_wait_seconds retry \<and> lease_conflict_wait_seconds retry \<le> 600"
  by (auto simp: lease_conflict_wait_seconds_def split: option.split fval.split)

section \<open>The loops\<close>

text \<open>What start-up is told: Core's client is documented, a stop comes, and waits are not too short.\<close>

definition stop_comes :: "connector_env \<Rightarrow> time \<Rightarrow> bool" where
  "stop_comes env t \<longleftrightarrow> http_peer (ne_core env) \<and> 1 \<le> binding_poll_initial_seconds (ne_config env) \<and>
     1 \<le> binding_poll_max_seconds (ne_config env) \<and>
     (\<exists>T n. ne_stop_at env = Some T \<and> ne_fuel env = Suc n \<and> T \<le> t + 1000000 * int n)"

lemma stop_comesE:
  assumes "stop_comes env t" "t \<le> cn_now s"
  obtains T n where "ne_stop_at env = Some T" "ne_fuel env = Suc n"
    "T \<le> cn_now s + 1000000 * int n \<or> stopping env s"
  using assms by (auto simp: stop_comes_def)

lemma connect_round:
  assumes "http_peer (ne_core env)" "connect_loop env i (Suc n) s = (r, s')"
  shows "unstuck_res r \<and> later s s' \<or>
    (\<exists>s1. connect_loop env i (Suc n) s = connect_loop env i n s1 \<and> later s s1 \<and> \<not> stopping env s \<and>
      (cn_now s + 1000000 \<le> cn_now s1 \<or> stopping env s1))"
proof -
  let ?now = "\<lambda>s. s\<lparr>cn_now := cn_now s + int (ne_drift env (cn_tick s)), cn_tick := Suc (cn_tick s)\<rparr>"
  let ?body = "seq (asks cn_cursor) (\<lambda>cursor.
    seq (on_core (connect_session (ne_core env) (cn_now s) i (PDict cursor))) (\<lambda>session. ret (Some session)))"
  obtain q s1 where q: "?body (?now s) = (q, s1)" by (cases "?body (?now s)")
  have "ends (cn_now s) ?body" by (intro ending unstuck assms(1))
  from endsD [OF this _ q] have q': "unstuck_res q" "later (?now s) s1" by simp_all
  then have s1: "later s s1" by (auto simp: later_def)
  show ?thesis
  proof (cases "\<exists>retry x. q = Inl (HubLeaseConflictError retry x)")
    case True
    then obtain retry x where x: "q = Inl (HubLeaseConflictError retry x)" by blast
    obtain w s2 where w: "stop_wait env (lease_conflict_wait_seconds retry) s1 = (w, s2)"
      by (cases "stop_wait env (lease_conflict_wait_seconds retry) s1")
    obtain b where b: "w = Inr b" "later s1 s2" "b \<Longrightarrow> stopping env s2"
      "\<not> b \<Longrightarrow> \<not> stopping env s1 \<and> cn_now s1 + 1000000 \<le> cn_now s2"
      using stop_wait_round [OF w] lease_wait by blast
    have run: "connect_loop env i (Suc n) s = (if b then (Inr None, s2) else connect_loop env i n s2)"
      using q w b(1) by (simp add: x eff_simps now_tick_def)
    show ?thesis
    proof (cases b)
      case True
      then show ?thesis using run assms(2) later_trans [OF s1 b(2)] by auto
    next
      case False
      have "\<not> stopping env s" using stopping_later [OF s1] b(4) False by blast
      then show ?thesis using run False b(4) later_trans [OF s1 b(2)] s1
        by (intro disjI2 exI [of _ s2]) (auto simp: later_def)
    qed
  next
    case False
    then have "connect_loop env i (Suc n) s = (q, s1)"
      using q by (auto simp: eff_simps now_tick_def split: sum.split exn.split)
    then show ?thesis using assms(2) q'(1) s1 by auto
  qed
qed

lemma ends_establish [ending]: "stop_comes env t \<Longrightarrow> ends t (establish_session env i)"
proof -
  assume stop: "stop_comes env t"
  have peer: "http_peer (ne_core env)" using stop by (simp add: stop_comes_def)
  have "ends t (connect_loop env i (ne_fuel env))"
  proof (rule endsI)
    fix s r s' assume s: "t \<le> cn_now s" "connect_loop env i (ne_fuel env) s = (r, s')"
    obtain T n where "ne_stop_at env = Some T" "ne_fuel env = Suc n"
      "T \<le> cn_now s + 1000000 * int n \<or> stopping env s" using stop s(1) by (rule stop_comesE)
    with s show "unstuck_res r \<and> later s s'"
      using connect_round [OF peer]
      by (intro waiting_loop [where loop = "\<lambda>n (_ :: unit). connect_loop env i n" and good = "\<lambda>_. True"]) auto
  qed
  moreover have "ends t (on_queue (synchronize_with_server_cursor k))" for k
    unfolding on_queue_def
    by (rule ends_zoom) (auto simp: never_stuck_def synchronize_with_server_cursor_def Let_def)
  then have "ends t (adopt_session x)" for x
    unfolding adopt_session_def Let_def by (intro ending unstuck)
  then have "ends t (case x of None \<Rightarrow> ret () | Some x \<Rightarrow> adopt_session x)" for x
    by (cases x) (auto intro: ending)
  ultimately show ?thesis unfolding establish_session_def by (intro ending)
qed

lemma unavailable_round:
  assumes "ends t action" "t \<le> cn_now s" "1 \<le> d" "unavailable_loop env action (Suc n) d s = (r, s')"
  shows "unstuck_res r \<and> later s s' \<or>
    (\<exists>s1. unavailable_loop env action (Suc n) d s = unavailable_loop env action n (next_core_delay d) s1 \<and>
      later s s1 \<and> \<not> stopping env s \<and> (cn_now s + 1000000 \<le> cn_now s1 \<or> stopping env s1))"
proof -
  obtain q s1 where q: "action s = (q, s1)" by (cases "action s")
  from endsD [OF assms(1,2) q] have q': "unstuck_res q" "later s s1" by simp_all
  show ?thesis
  proof (cases "\<exists>e. q = Inl e \<and> core_temporarily_unavailable e")
    case True
    then obtain e where e: "q = Inl e" "core_temporarily_unavailable e" by blast
    obtain w s2 where w: "stop_wait env d s1 = (w, s2)" by (cases "stop_wait env d s1")
    obtain b where b: "w = Inr b" "later s1 s2" "b \<Longrightarrow> stopping env s2"
      "\<not> b \<Longrightarrow> \<not> stopping env s1 \<and> cn_now s1 + 1000000 \<le> cn_now s2"
      using stop_wait_round [OF w assms(3)] by blast
    have run: "unavailable_loop env action (Suc n) d s =
        (if b then (Inr None, s2) else unavailable_loop env action n (next_core_delay d) s2)"
      using q w b(1) e by (simp add: eff_simps)
    show ?thesis
    proof (cases b)
      case True
      then show ?thesis using run assms(4) later_trans [OF q'(2) b(2)] by auto
    next
      case False
      have "\<not> stopping env s" using stopping_later [OF q'(2)] b(4) False by blast
      then show ?thesis using run False b(4) later_trans [OF q'(2) b(2)] q'(2)
        by (intro disjI2 exI [of _ s2]) (auto simp: later_def)
    qed
  next
    case False
    then have "fst (unavailable_loop env action (Suc n) d s) = map_sum id Some q"
      "snd (unavailable_loop env action (Suc n) d s) = s1"
      using q by (auto simp: eff_simps split: sum.split)
    then show ?thesis using assms(4) q' by (cases q) auto
  qed
qed

lemma ends_unavailable [ending]:
  assumes "stop_comes env t" "ends t action"
  shows "ends t (call_while_core_unavailable env action)"
  unfolding call_while_core_unavailable_def
proof (rule endsI)
  let ?d = "binding_poll_initial_seconds (ne_config env)"
  fix s r s' assume s: "t \<le> cn_now s" "unavailable_loop env action (ne_fuel env) ?d s = (r, s')"
  obtain T n where T: "ne_stop_at env = Some T" "ne_fuel env = Suc n"
    "T \<le> cn_now s + 1000000 * int n \<or> stopping env s" using assms(1) s(1) by (rule stop_comesE)
  have first: "1 \<le> ?d" using assms(1) by (simp add: stop_comes_def)
  have grows: "1 \<le> d \<Longrightarrow> 1 \<le> next_core_delay d" for d
    by (simp add: next_core_delay_def CORE_RETRY_MAX_SECONDS_def)
  show "unstuck_res r \<and> later s s'"
  proof (rule waiting_loop [where loop = "\<lambda>n d. unavailable_loop env action n d" and good = "\<lambda>d. 1 \<le> d",
        OF T(1) _ first s(1) T(3)])
    show "unavailable_loop env action (Suc n) ?d s = (r, s')" using s(2) T(2) by simp
    fix n d s r s' assume "1 \<le> (d :: real)" "t \<le> cn_now s" "unavailable_loop env action (Suc n) d s = (r, s')"
    then show "unstuck_res r \<and> later s s' \<or>
      (\<exists>d' s1. unavailable_loop env action (Suc n) d s = unavailable_loop env action n d' s1 \<and> 1 \<le> d' \<and>
        later s s1 \<and> \<not> stopping env s \<and> (cn_now s + 1000000 \<le> cn_now s1 \<or> stopping env s1))"
      using unavailable_round [OF assms(2)] grows by blast
  qed
qed

lemma ends_go_live [ending]: "stop_comes env t \<Longrightarrow> ends t (go_live env i)"
  unfolding go_live_def core_authenticate_def
  by (intro ending unstuck) (simp_all add: stop_comes_def)

lemma ends_existing [ending]:
  assumes "stop_comes env t" shows "ends t (prepare_existing env i)"
proof -
  have peer: "http_peer (ne_core env)" using assms by (simp add: stop_comes_def)
  have "ends t (case status of None \<Rightarrow> ret ()
      | Some status \<Rightarrow>
          seq (lift_res (dindex status ''status'')) (\<lambda>st.
            if st \<noteq> PStr ''approved''
            then throw (case st of PStr t \<Rightarrow> RuntimeError (''HUB_APPROVAL_'' @ upper t)
                        | _ \<Rightarrow> AttributeError ''upper'')
            else seq (adopt_identity i BINDING_READY) (\<lambda>_. go_live env i)))" for status
    unfolding adopt_identity_def
    by (cases status) (auto intro!: ending unstuck assms split: pyval.splits)
  then show ?thesis
    unfolding prepare_existing_def adopt_identity_def
    by (intro ending unstuck assms peer) simp_all
qed

lemma ends_paired [ending]:
  assumes "stop_comes env t" shows "ends t (prepare_paired env i code)"
proof -
  have peer: "http_peer (ne_core env)" using assms by (simp add: stop_comes_def)
  show ?thesis
    unfolding prepare_paired_def Let_def by (intro ending unstuck assms peer)
qed

section \<open>Waiting for a binding\<close>

lemma ends_claim [ending]: "ends t (consume_claim_code env)"
  by (auto simp: ends_def consume_claim_code_def later_def split: option.split)

lemma ends_activate [ending]: "http_peer (ne_core env) \<Longrightarrow> ends t (activate_now env i)"
  unfolding activate_now_def by (auto intro!: ending unstuck split: prod.split)

lemma ends_after_activation [ending]: "stop_comes env t \<Longrightarrow> ends t (after_activation env result)"
  unfolding after_activation_def Let_def
  by (auto intro!: ending unstuck split: prod.split)

text \<open>A wait before the next poll, and what it says of the next round\<close>

lemma wait_before_retry_round:
  assumes "1 \<le> d" "1 \<le> binding_poll_max_seconds (ne_config env)"
  obtains s1 where "wait_before_retry env d s = (Inr (next_poll_delay env d), s1)" "later s s1"
    "cn_now s + 1000000 \<le> cn_now s1 \<or> stopping env s1" "1 \<le> next_poll_delay env d"
proof -
  obtain w s1 where w: "stop_wait env d s = (w, s1)" by (cases "stop_wait env d s")
  obtain b where "w = Inr b" "later s s1" "b \<Longrightarrow> stopping env s1"
    "\<not> b \<Longrightarrow> \<not> stopping env s \<and> cn_now s + 1000000 \<le> cn_now s1"
    using stop_wait_round [OF w assms(1)] by blast
  then show thesis
    using that [of s1] w assms by (cases b) (auto simp: wait_before_retry_def next_poll_delay_def eff_simps)
qed

lemma provision_round:
  assumes stop: "stop_comes env t" and s: "t \<le> cn_now s" and d: "1 \<le> d"
    and run: "provision_loop env (Suc n) i d s = (r, s')"
  shows "unstuck_res r \<and> later s s' \<or>
    (\<exists>i' d' s1. provision_loop env (Suc n) i d s = provision_loop env n i' d' s1 \<and> 1 \<le> d' \<and>
      later s s1 \<and> \<not> stopping env s \<and> (cn_now s + 1000000 \<le> cn_now s1 \<or> stopping env s1))"
proof (cases "stopping env s")
  case True
  then show ?thesis using run by (auto simp: eff_simps later_refl)
next
  case going: False
  have peer: "http_peer (ne_core env)" and poll: "1 \<le> binding_poll_max_seconds (ne_config env)"
    using stop by (simp_all add: stop_comes_def)
  have waits: ?thesis
    if s1: "later s s1" and eq: "provision_loop env (Suc n) i d s = seq (wait_before_retry env d) (provision_loop env n i') s1"
    for i' s1
  proof -
    obtain s2 where "wait_before_retry env d s1 = (Inr (next_poll_delay env d), s2)" "later s1 s2"
      "cn_now s1 + 1000000 \<le> cn_now s2 \<or> stopping env s2" "1 \<le> next_poll_delay env d"
      by (rule wait_before_retry_round [OF d poll])
    with s1 going show ?thesis
      unfolding eq
      by (intro disjI2 exI [of _ i'] exI [of _ "next_poll_delay env d"] exI [of _ s2])
        (auto simp: seq_Inr later_def)
  qed
  obtain q s1 where q: "activate_now env i s = (q, s1)" by (cases "activate_now env i s")
  from endsD [OF ends_activate [OF peer] s q] have q': "unstuck_res q" "later s s1" by simp_all
  show ?thesis
  proof (cases q)
    case (Inl e)
    define told where "told m = s1\<lparr>cn_failure := Some m\<rparr>" for m
    have later_told: "later s (told m)" for m using q'(2) by (simp add: later_def told_def)
    show ?thesis
    proof (cases "\<exists>detail c. e = HubActivationError detail c True")
      case True
      then obtain detail c where "e = HubActivationError detail c True" by blast
      then show ?thesis using run q Inl going later_told [of detail]
        by (auto simp: eff_simps told_def)
    next
      case False
      then obtain m where "provision_loop env (Suc n) i d s = seq (wait_before_retry env d) (provision_loop env n i) (told m)"
        using q Inl going by (cases e) (auto simp: eff_simps told_def)
      then show ?thesis by (rule waits [OF later_told])
    qed
  next
    case (Inr result)
    obtain p s2 where p: "after_activation env result s1 = (p, s2)" by (cases "after_activation env result s1")
    have "t \<le> cn_now s1" using s q'(2) by (simp add: later_def)
    from endsD [OF ends_after_activation [OF stop] this p] have p': "unstuck_res p" "later s s2"
      using later_trans [OF q'(2)] by blast+
    show ?thesis
    proof (cases "\<exists>i'. p = Inr (Some i')")
      case True
      then obtain i' where i': "p = Inr (Some i')" by blast
      have "fst (consume_claim_code env s2) = Inr () \<and> later s2 (snd (consume_claim_code env s2))"
        by (auto simp: consume_claim_code_def later_def split: option.split)
      then obtain s3 where s3: "consume_claim_code env s2 = (Inr (), s3)" "later s2 s3"
        by (cases "consume_claim_code env s2") auto
      have "provision_loop env (Suc n) i d s = seq (wait_before_retry env d) (provision_loop env n i') s3"
        using q Inr going p i' s3(1) by (simp add: eff_simps)
      then show ?thesis by (rule waits [OF later_trans [OF p'(2) s3(2)]])
    next
      case False
      then have "snd (provision_loop env (Suc n) i d s) = s2"
        "unstuck_res (fst (provision_loop env (Suc n) i d s))"
        using q Inr going p p'(1) by (auto simp: eff_simps split: sum.split option.split)
      then show ?thesis using run p'(2) by simp
    qed
  qed
qed

lemma ends_provisioned [ending]:
  assumes "stop_comes env t" shows "ends t (prepare_provisioned env i)"
proof -
  let ?d = "binding_poll_initial_seconds (ne_config env)"
  have "ends t (provision_loop env (ne_fuel env) i ?d)"
  proof (rule endsI)
    fix s r s' assume s: "t \<le> cn_now s" "provision_loop env (ne_fuel env) i ?d s = (r, s')"
    obtain T n where T: "ne_stop_at env = Some T" "ne_fuel env = Suc n"
      "T \<le> cn_now s + 1000000 * int n \<or> stopping env s" using assms(1) s(1) by (rule stop_comesE)
    have first: "1 \<le> snd (i, ?d)" using assms by (simp add: stop_comes_def)
    show "unstuck_res r \<and> later s s'"
    proof (rule waiting_loop [where loop = "\<lambda>n (i, d). provision_loop env n i d" and good = "\<lambda>(_, d). 1 \<le> d",
          OF T(1) _ _ s(1) T(3)])
      show "(case (i, ?d) of (_, d) \<Rightarrow> 1 \<le> d)" using first by simp
      show "(case (i, ?d) of (i, d) \<Rightarrow> provision_loop env (Suc n) i d) s = (r, s')"
        using s(2) T(2) by simp
      fix n x and s :: connector and r s'
      assume "case x of (_, d) \<Rightarrow> 1 \<le> d" "t \<le> cn_now s"
        "(case x of (i, d) \<Rightarrow> provision_loop env (Suc n) i d) s = (r, s')"
      then show "unstuck_res r \<and> later s s' \<or>
        (\<exists>x' s1. (case x of (i, d) \<Rightarrow> provision_loop env (Suc n) i d) s =
            (case x' of (i, d) \<Rightarrow> provision_loop env n i d) s1 \<and> (case x' of (_, d) \<Rightarrow> 1 \<le> d) \<and>
          later s s1 \<and> \<not> stopping env s \<and> (cn_now s + 1000000 \<le> cn_now s1 \<or> stopping env s1))"
        using provision_round [OF assms] by (cases x) fastforce
    qed
  qed
  then show ?thesis unfolding prepare_provisioned_def by (intro ending)
qed

lemma ends_prepare: "stop_comes env t \<Longrightarrow> ends t (prepare env)"
  unfolding prepare_def
  by (intro ending unstuck) (auto intro!: ending unstuck split: option.split)

text \<open>
  C14: start-up ends after a stop request. However Core answers, if its client fails only as documented
  and the polling intervals are at least a second, \<open>prepare\<close> returns or raises, and never hangs in
  one of its waits, once a stop is requested at \<open>T\<close>: as many rounds as there are seconds to \<open>T\<close>,
  and one more, are enough for each of its loops.
\<close>

theorem prepare_ends_after_stop:
  assumes "http_peer (ne_core env)" "1 \<le> binding_poll_initial_seconds (ne_config env)"
    "1 \<le> binding_poll_max_seconds (ne_config env)"
    and "ne_stop_at env = Some T" "ne_fuel env = Suc n" "T \<le> cn_now s + 1000000 * int n"
  shows "fst (prepare env s) \<noteq> Inl NoFuel \<and> cn_now s \<le> cn_now (snd (prepare env s))"
proof -
  have "stop_comes env (cn_now s)" using assms by (simp add: stop_comes_def)
  then show ?thesis using ends_prepare [of env "cn_now s"] by (simp add: ends_def later_def)
qed

text \<open>A device of long standing that finds Core unreachable, and is stopped after eight seconds\<close>

definition waiting_device :: connector where
  "waiting_device = sample_connector\<lparr>cn_files := sample_store
     [(''connector_id'', PStr ''c1''), (''credential_id'', PStr ''k1''),
      (''bootstrap_mode'', PStr BOOTSTRAP_PROVISIONED)]\<rparr>"

theorem prepare_ends_after_stop_witness:
  "fst (prepare (sample_connector_env []) waiting_device) \<noteq> Inl NoFuel"
proof -
  have "http_peer (ne_core (sample_connector_env []))"
    by (simp add: http_peer_def sample_connector_env_def answering_def)
  moreover have "1 \<le> binding_poll_initial_seconds (ne_config (sample_connector_env []))"
    "1 \<le> binding_poll_max_seconds (ne_config (sample_connector_env []))"
    "ne_stop_at (sample_connector_env []) = Some 8000000" "ne_fuel (sample_connector_env []) = Suc 8"
    "8000000 \<le> cn_now waiting_device + 1000000 * int 8"
    by (simp_all add: sample_connector_env_def sample_config_def waiting_device_def sample_connector_def)
  ultimately show ?thesis using prepare_ends_after_stop by blast
qed

end
