(* ===== verification/First_Start.thy ===== *)
theory First_Start
  imports Startup
begin

text \<open>
  What start-up tells Core and asks of the home. An identity of long standing is never enrolled or
  activated again, and until a device is bound nothing but its activation leaves it.
\<close>

section \<open>Requests that enroll\<close>

definition enrolls :: "string \<Rightarrow> http_request \<Rightarrow> bool" where
  "enrolls base rq \<longleftrightarrow> rq_method rq = ''POST'' \<and>
     rq_url rq \<in> {base @ ''/api/hub/v1/gateways/activate'', base @ ''/api/hub/v1/enrollments/exchange''}"

abbreviation enrolls_not :: "string \<Rightarrow> http_request \<Rightarrow> bool" where
  "enrolls_not base rq \<equiv> \<not> enrolls base rq"

lemma enrolls_not_calls:
  "framed (sends enrolls_not) (authenticate ce i)"
  "framed (sends enrolls_not) (connect_session ce t i cursor)"
  "framed (sends enrolls_not) (enrollment_status ce enrollment receipt)"
proof -
  have sessions: "framed (sends enrolls_not) (bearer_post ce ''/api/hub/v1/sessions'' json)" for json
    unfolding bearer_post_def by (rule sends_request) (simp add: enrolls_def)
  show token: "framed (sends enrolls_not) (authenticate ce i)"
  proof (rule sends_authenticate)
    show "framed (sends enrolls_not) (open_post ce path json)" if "prefix ''/api/hub/v1/auth/'' path" for path json
      unfolding open_post_def using that by (intro sends_request) (auto simp: enrolls_def prefix_def)
  qed
  show "framed (sends enrolls_not) (connect_session ce t i cursor)"
    unfolding connect_session_def by (intro sent.framed_seq sent.framed_basic sessions sends_ensure token) simp
  show "framed (sends enrolls_not) (enrollment_status ce enrollment receipt)"
    unfolding enrollment_status_def by (rule sends_request) (simp add: enrolls_def)
qed

interpretation old: startup_frame "\<lambda>s s'. sends enrolls_not (cn_core s) (cn_core s')"
proof
  show "framed (\<lambda>s s'. sends enrolls_not (cn_core s) (cn_core s')) (on_core (authenticate ce i))"
    "framed (\<lambda>s s'. sends enrolls_not (cn_core s) (cn_core s')) (on_core (connect_session ce t i cursor))"
    "framed (\<lambda>s s'. sends enrolls_not (cn_core s) (cn_core s')) (on_core (enrollment_status ce enrollment receipt))"
    for ce t i cursor enrollment receipt
    unfolding on_core_def by (rule framed_zoom [OF enrolls_not_calls(1)] framed_zoom [OF enrolls_not_calls(2)]
        framed_zoom [OF enrolls_not_calls(3)], simp)+
qed (auto intro!: framedI sent.refl simp: now_tick_def stop_wait_def sleep_for_def modify_def on_queue_def zoom_def
      split: option.split prod.split)

lemma load_sends_nothing:
  assumes "prepare env s = (r, s')" "load_or_create (ce_keys (ne_core env)) (cn_files s) = (Inr i, fs)"
  shows "(if truthy (connector_id i) then prepare_existing env i
     else if has_provisioning_triple env then prepare_provisioned env i
     else case pairing_code (ne_config env) of
       Some code \<Rightarrow> (if code \<noteq> [] then prepare_paired env i code else throw (RuntimeError ''HUB_PAIRING_REQUIRED''))
     | None \<Rightarrow> throw (RuntimeError ''HUB_PAIRING_REQUIRED'')) (s\<lparr>cn_files := fs\<rparr>) = (r, s')"
  using assms by (simp add: prepare_def seq_def on_files_def zoom_def)

text \<open>
  C13: an upgrade never asks for a new activation: when the stored identity has a connector id,
  start-up sends Core no activation and no pairing exchange, whatever else is configured and
  however long it waits for Core.
\<close>

theorem existing_identity_is_never_enrolled_again:
  assumes "prepare env s = (r, s')" "load_or_create (ce_keys (ne_core env)) (cn_files s) = (Inr i, fs)"
    and "truthy (connector_id i)"
  shows "\<exists>new. cc_log (cn_core s') = cc_log (cn_core s) @ new \<and>
    list_all (\<lambda>rq. \<not> enrolls (cc_base_url (cn_core s)) rq) new"
proof -
  have "prepare_existing env i (s\<lparr>cn_files := fs\<rparr>) = (r, s')"
    using load_sends_nothing [OF assms(1,2)] assms(3) by simp
  from framedD [OF old.framed_existing this] show ?thesis by (auto simp: sends_def)
qed

section \<open>Before the binding\<close>

definition activation :: "string \<Rightarrow> http_request \<Rightarrow> bool" where
  "activation base rq \<longleftrightarrow> rq_method rq = ''POST'' \<and> rq_url rq = base @ ''/api/hub/v1/gateways/activate'' \<and>
     \<not> (''Authorization'' \<in> fst ` set (rq_headers rq))"

text \<open>As long as there is no identity in use, only activations leave, and nothing else is done.\<close>

definition unbound :: "connector \<Rightarrow> connector \<Rightarrow> bool" where
  "unbound s s' \<longleftrightarrow> cn_identity s' \<noteq> None \<or>
     cn_identity s = None \<and> sends activation (cn_core s) (cn_core s') \<and> cn_ha s' = cn_ha s \<and>
     cn_session s' = cn_session s \<and> cn_queue s' = cn_queue s \<and> cn_rules s' = cn_rules s \<and>
     cn_receipts s' = cn_receipts s"

interpretation unb: frame_condition unbound
proof
  show "unbound s s" for s by (auto simp: unbound_def sent.refl)
  show "unbound s t \<Longrightarrow> unbound t u \<Longrightarrow> unbound s u" for s t u
    unfolding unbound_def using sent.trans [of activation "cn_core s" "cn_core t" "cn_core u"] by auto
qed

lemma unbound_same:
  assumes "cn_identity s' = cn_identity s" "cn_core s' = cn_core s" "cn_ha s' = cn_ha s"
    "cn_session s' = cn_session s" "cn_queue s' = cn_queue s" "cn_rules s' = cn_rules s"
    "cn_receipts s' = cn_receipts s"
  shows "unbound s s'"
  using assms by (auto simp: unbound_def sent.refl)

text \<open>Once an identity is in use it stays in use.\<close>

interpretation ident: startup_frame "\<lambda>s s'. cn_identity s \<noteq> None \<longrightarrow> cn_identity s' \<noteq> None"
  by unfold_locales
    (auto intro!: framedI simp: now_tick_def stop_wait_def sleep_for_def modify_def on_queue_def on_core_def zoom_def
      split: option.split prod.split)

lemma unbound_live:
  "framed unbound (seq (modify (\<lambda>s. s\<lparr>cn_identity := Some i\<rparr>)) (\<lambda>_. seq (go_live env i) (\<lambda>_. ret a)))"
proof (rule framedI)
  fix s :: connector
  obtain r s' where live: "go_live env i (s\<lparr>cn_identity := Some i\<rparr>) = (r, s')"
    by (cases "go_live env i (s\<lparr>cn_identity := Some i\<rparr>)")
  from framedD [OF ident.framed_go_live this] have "cn_identity s' \<noteq> None" by simp
  then show "unbound s (snd (seq (modify (\<lambda>s. s\<lparr>cn_identity := Some i\<rparr>)) (\<lambda>_. seq (go_live env i) (\<lambda>_. ret a)) s))"
    using live by (auto simp: unbound_def eff_simps split: sum.split)
qed

lemma unbound_activate: "framed unbound (activate_now env i)"
proof -
  have "framed (sends activation) (activate ce t tenant p d secret pem inst alg health)"
    for ce t tenant p d secret pem inst alg health
  proof -
    have "framed (sends activation) (seq (send_request ce ''POST'' ''/api/hub/v1/gateways/activate'' (Some json) [] False None)
        (\<lambda>response. case check_response ce ''/api/hub/v1/gateways/activate'' response of
           Inl (HTTPStatusError _) \<Rightarrow> throw (activation_error response)
         | r \<Rightarrow> lift_res r))" for json
    proof (intro sent.framed_seq)
      show "framed (sends activation) (send_request ce ''POST'' ''/api/hub/v1/gateways/activate'' (Some json) [] False None)"
        by (rule sends_request) (simp add: activation_def)
      show "framed (sends activation) (case check_response ce ''/api/hub/v1/gateways/activate'' response of
             Inl (HTTPStatusError _) \<Rightarrow> throw (activation_error response) | r \<Rightarrow> lift_res r)" for response
        by (auto simp: sent.framed_basic split: sum.split exn.split)
    qed
    then show ?thesis by (simp add: framed_def activate_def Let_def)
  qed
  then have "framed unbound (on_core (activate ce t tenant p d secret pem inst alg health))"
    for ce t tenant p d secret pem inst alg health
    unfolding on_core_def by (rule framed_zoom) (auto simp: unbound_def)
  moreover have "framed unbound (now_tick env)"
    by (rule framedI, rule unbound_same) (simp_all add: now_tick_def)
  ultimately show ?thesis
    unfolding activate_now_def by (auto intro!: unb.framed_seq split: prod.split)
qed

lemma unbound_notes:
  "framed unbound (modify (\<lambda>s. s\<lparr>cn_failure := f\<rparr>))" "framed unbound (modify (\<lambda>s. s\<lparr>cn_binding := b\<rparr>))"
  "framed unbound (on_files m)" "framed unbound (stop_wait env d)" "framed unbound (consume_claim_code env)"
  by (rule framedI, rule unbound_same;
      simp add: modify_def on_files_def zoom_def stop_wait_def sleep_for_def consume_claim_code_def split: prod.split option.split)+

lemma unbound_after: "framed unbound (after_activation env result)"
  unfolding after_activation_def Let_def
  by (auto intro!: unb.framed_seq [OF unbound_notes(1)] unb.framed_seq [OF unbound_notes(2)]
      unb.framed_seq [OF unbound_notes(3)] unb.framed_basic unb.framed_seq [OF unb.framed_basic(4)]
      unbound_live split: prod.split)

lemma unbound_provision: "framed unbound (provision_loop env n i delay)"
proof (induction n arbitrary: i delay)
  case (Suc n)
  have wait: "framed unbound (seq (wait_before_retry env delay) (provision_loop env n i))" for i delay
    unfolding wait_before_retry_def by (intro unb.framed_seq unbound_notes unb.framed_basic Suc)
  have failed: "framed unbound (case e of
         HubActivationError detail x terminal \<Rightarrow>
           seq (modify (\<lambda>s. s\<lparr>cn_failure := Some detail\<rparr>)) (\<lambda>_.
             if terminal then throw (RuntimeError (''HUB_ACTIVATION_REJECTED: '' @ detail))
             else seq (wait_before_retry env delay) (provision_loop env n i))
       | _ \<Rightarrow>
           seq (modify (\<lambda>s. s\<lparr>cn_failure := Some (exn_text (ne_error_text env) e)\<rparr>)) (\<lambda>_.
             seq (wait_before_retry env delay) (provision_loop env n i)))" for e
    by (cases e) (auto intro!: unb.framed_seq unb.framed_basic unbound_notes wait simp del: exn_text.simps)
  have waiting: "framed unbound (case w of None \<Rightarrow> ret ()
      | Some i' \<Rightarrow> seq (consume_claim_code env) (\<lambda>_. seq (wait_before_retry env delay) (provision_loop env n i')))" for w
    by (cases w) (simp_all add: unb.framed_basic unb.framed_seq [OF unbound_notes(5) wait])
  have "framed unbound (case outcome of
      Inl e \<Rightarrow> (case e of
         HubActivationError detail x terminal \<Rightarrow>
           seq (modify (\<lambda>s. s\<lparr>cn_failure := Some detail\<rparr>)) (\<lambda>_.
             if terminal then throw (RuntimeError (''HUB_ACTIVATION_REJECTED: '' @ detail))
             else seq (wait_before_retry env delay) (provision_loop env n i))
       | _ \<Rightarrow>
           seq (modify (\<lambda>s. s\<lparr>cn_failure := Some (exn_text (ne_error_text env) e)\<rparr>)) (\<lambda>_.
             seq (wait_before_retry env delay) (provision_loop env n i)))
    | Inr result \<Rightarrow> seq (after_activation env result) (\<lambda>w.
        case w of None \<Rightarrow> ret ()
        | Some i' \<Rightarrow> seq (consume_claim_code env) (\<lambda>_. seq (wait_before_retry env delay) (provision_loop env n i'))))"
    for outcome
  proof (cases outcome)
    case (Inl e)
    show ?thesis unfolding Inl sum.case by (rule failed)
  next
    case (Inr result)
    show ?thesis unfolding Inr sum.case by (intro unb.framed_seq unbound_after waiting)
  qed
  then show ?case
    unfolding provision_loop.simps
    by (intro unb.framed_seq unb.framed_if unb.framed_basic unb.framed_catch unbound_activate)
qed (simp add: unb.framed_basic)

text \<open>
  C12: before the binding nothing leaves but the activation. When start-up of a provisioned device ends
  without an identity in use, because it was stopped or rejected, then every request it sent was an
  activation, none carried a token, and it has neither asked Home Assistant anything nor opened a
  session nor queued, stored or executed anything.
\<close>

theorem unbound_device_only_activates:
  assumes "prepare env s = (r, s')" "load_or_create (ce_keys (ne_core env)) (cn_files s) = (Inr i, fs)"
    and "\<not> truthy (connector_id i)" "has_provisioning_triple env" "cn_identity s' = None"
  shows "\<exists>new. cc_log (cn_core s') = cc_log (cn_core s) @ new \<and>
    list_all (activation (cc_base_url (cn_core s))) new \<and> cn_ha s' = cn_ha s \<and>
    cn_session s' = cn_session s \<and> cn_queue s' = cn_queue s \<and> cn_rules s' = cn_rules s \<and>
    cn_receipts s' = cn_receipts s"
proof -
  have "prepare_provisioned env i (s\<lparr>cn_files := fs\<rparr>) = (r, s')"
    using load_sends_nothing [OF assms(1,2)] assms(3,4) by simp
  moreover have "framed unbound (prepare_provisioned env i)"
    unfolding prepare_provisioned_def by (rule unb.framed_seq [OF unbound_notes(2) unbound_provision])
  ultimately have "unbound (s\<lparr>cn_files := fs\<rparr>) s'" by (rule framedD [rotated])
  then have quiet: "sends activation (cn_core s) (cn_core s')" "cn_ha s' = cn_ha s" "cn_session s' = cn_session s"
    "cn_queue s' = cn_queue s" "cn_rules s' = cn_rules s" "cn_receipts s' = cn_receipts s"
    using assms(5) by (simp_all add: unbound_def)
  from quiet(1) obtain new where "cc_log (cn_core s') = cc_log (cn_core s) @ new"
    "list_all (activation (cc_base_url (cn_core s))) new" by (auto simp: sends_def)
  with quiet(2-) show ?thesis by (intro exI [of _ new] conjI)
qed

section \<open>Witnesses\<close>

lemma sample_loads:
  "\<exists>fs. load_or_create sample_keys (sample_store d) = (Inr (identity_of ''seed'' d), fs)"
  if "dget d ''signature_algorithm'' = PNone"
  using that
  by (auto simp: load_or_create_def load_or_create_key_def sample_store_def identity_store_init_def eff_simps
      Let_def load_state_def as_dict_def sample_keys_def run_fs_def write_private_bytes_def temporary_def)

theorem existing_identity_is_never_enrolled_again_witness:
  "\<exists>r s'. prepare (sample_connector_env []) waiting_device = (r, s') \<and>
    list_all (enrolls_not (cc_base_url (cn_core waiting_device))) (cc_log (cn_core s'))"
proof -
  let ?env = "sample_connector_env []"
  let ?d = "[(''connector_id'', PStr ''c1''), (''credential_id'', PStr ''k1''),
    (''bootstrap_mode'', PStr BOOTSTRAP_PROVISIONED)]"
  obtain fs where load: "load_or_create sample_keys (sample_store ?d) = (Inr (identity_of ''seed'' ?d), fs)"
    using sample_loads [of ?d] by auto
  obtain r s' where run: "prepare ?env waiting_device = (r, s')" by (cases "prepare ?env waiting_device")
  have "ce_keys (ne_core ?env) = sample_keys" "cn_files waiting_device = sample_store ?d"
    by (simp_all add: sample_connector_env_def answering_def waiting_device_def)
  then have stored: "load_or_create (ce_keys (ne_core ?env)) (cn_files waiting_device) = (Inr (identity_of ''seed'' ?d), fs)"
    using load by simp
  have "truthy (connector_id (identity_of ''seed'' ?d))" by (simp add: identity_of_def)
  from existing_identity_is_never_enrolled_again [OF run stored this]
  have "list_all (enrolls_not (cc_base_url (cn_core waiting_device))) (cc_log (cn_core s'))"
    by (auto simp: waiting_device_def sample_connector_def core_client_init_def)
  with run show ?thesis by blast
qed

text \<open>A new device whose batch was revoked\<close>

definition revoked_env :: connector_env where
  "revoked_env = sample_connector_env [Inr (answer 403 (PStr ''revoked''))]
     \<lparr>ne_config := sample_config\<lparr>cfg_tenant_id := Some ''t'', cfg_product_key := Some ''p'',
        cfg_device_name := Some ''d'', cfg_device_secret := Some ''s''\<rparr>\<rparr>"

theorem unbound_device_only_activates_witness:
  "\<exists>s'. prepare revoked_env sample_connector = (Inl (RuntimeError ''HUB_ACTIVATION_REJECTED: revoked''), s') \<and>
    list_all (activation (cc_base_url (cn_core sample_connector))) (cc_log (cn_core s')) \<and>
    cc_log (cn_core s') \<noteq> []"
proof -
  have keys: "ce_keys (ne_core revoked_env) = sample_keys" "cn_files sample_connector = sample_store []"
    by (simp_all add: revoked_env_def sample_connector_env_def answering_def sample_connector_def)
  obtain fs where load: "load_or_create (ce_keys (ne_core revoked_env)) (cn_files sample_connector) =
      (Inr (identity_of ''seed'' []), fs)"
    using sample_loads [of "[]"] unfolding keys by auto
  have new: "\<not> truthy (connector_id (identity_of ''seed'' []))" by (simp add: identity_of_def)
  have triple: "has_provisioning_triple revoked_env"
    by (simp add: has_provisioning_triple_def provisioning_texts_def revoked_env_def)
  obtain r s' where run: "prepare revoked_env sample_connector = (r, s')"
    by (cases "prepare revoked_env sample_connector")
  have "r = Inl (RuntimeError ''HUB_ACTIVATION_REJECTED: revoked'')" "cn_identity s' = None"
    "cc_log (cn_core s') \<noteq> []"
    using load_sends_nothing [OF run load] new triple
    by (auto simp: prepare_provisioned_def connector_eval revoked_env_def stopping_def activate_now_def
        on_files_def provisioning_texts_def activate_def core_eval activation_error_def
        TERMINAL_ACTIVATION_STATUSES_def str_or_empty_def eval_nat_numeral)
  moreover from unbound_device_only_activates [OF run load new triple this(2)]
  have "list_all (activation (cc_base_url (cn_core sample_connector))) (cc_log (cn_core s'))"
    by (auto simp: sample_connector_def core_client_init_def)
  ultimately show ?thesis using run by blast
qed

end
