(* ===== verification/Threads.thy ===== *)
theory Threads
  imports First_Start
begin

text \<open>
  The threads of \<open>runtime.py\<close>: which ones a session starts, what one round of each does, and
  \<open>run_forever\<close>. A round runs without another thread changing the state in between; the order of
  rounds is arbitrary.
\<close>

section \<open>Threads of a session\<close>

datatype thread = Subscription | Upload | Command | Rule | Inventory | Maintenance

definition runtime_threads :: "hub_session option \<Rightarrow> thread list res" where
  "runtime_threads session =
     (case session of
        None \<Rightarrow> Inl (RuntimeError ''HUB_SESSION_NOT_READY'')
      | Some x \<Rightarrow> Inr (
          (if allows x GRANT_STATE_UPLINK \<or> allows x GRANT_LOCAL_RULE_RUNTIME then [Subscription] else []) @
          (if allows x GRANT_STATE_UPLINK \<or> allows x GRANT_INVENTORY_READ then [Upload] else []) @
          (if allows x GRANT_COMMAND_DOWNLINK then [Command] else []) @
          (if allows x GRANT_LOCAL_RULE_RUNTIME then [Rule] else []) @
          (if allows x GRANT_INVENTORY_READ then [Inventory] else []) @ [Maintenance]))"

section \<open>One round of each thread\<close>

text \<open>
  \<open>except HubSessionInvalidError: recover; except Exception: handler\<close>
\<close>

definition with_recovery :: "connector_env \<Rightarrow> (connector, unit) eff \<Rightarrow> (connector, unit) eff \<Rightarrow> (connector, unit) eff" where
  "with_recovery env body handler = try_except body (\<lambda>e.
     case e of HubSessionInvalidError sid _ \<Rightarrow> recover_after_session_error env sid | _ \<Rightarrow> handler)"

definition pause :: "connector_env \<Rightarrow> real \<Rightarrow> (connector, unit) eff" where
  "pause env d = modify (sleep_for env d)"

text \<open>
  The events a subscription delivers before it breaks, one after the other; they stop when a stop
  is requested. The model reads the subscription's connection to its end first, so that the
  connections rules open come after it in the record.
\<close>

fun take_events :: "connector_env \<Rightarrow> pydict list \<Rightarrow> (connector, bool) eff" where
  "take_events env [] = ret False"
| "take_events env (e # es) =
     seq (enqueue_event env e) (\<lambda>_.
     seq (asks (stopping env)) (\<lambda>stopped. if stopped then ret True else take_events env es))"

definition subscription_round :: "connector_env \<Rightarrow> (connector, unit) eff" where
  "subscription_round env =
     try_except
       (seq (on_home (\<lambda>w. case subscribe_state_events (ne_client env) w of (es, e, w') \<Rightarrow> (Inr (es, e), w')))
          (\<lambda>(es, e). seq (take_events env es) (\<lambda>stopped. if stopped then ret () else throw e)))
       (\<lambda>_. pause env 5)"

definition upload_round :: "connector_env \<Rightarrow> (connector, unit) eff" where
  "upload_round env = with_recovery env
     (seq (flush_once env) (\<lambda>progress. if progress then ret () else pause env (1 / 2)))
     (seq (seq (now_tick env) (\<lambda>now. queue_get (summary now))) (\<lambda>_. pause env 1))"

definition command_round :: "connector_env \<Rightarrow> (connector, unit) eff" where
  "command_round env = with_recovery env
     (seq (process_commands_once env) (\<lambda>n. if n \<noteq> 0 then ret () else pause env 1))
     (pause env 1)"

definition RULE_DRAIN_MIN_INTERVAL_SECONDS :: real where
  "RULE_DRAIN_MIN_INTERVAL_SECONDS = 1 / 5"

definition rule_round :: "connector_env \<Rightarrow> (connector, unit) eff" where
  "rule_round env = with_recovery env
     (seq (process_rule_packages_once env) (\<lambda>processed.
      seq (flush_rule_evidence_once env) (\<lambda>uploaded.
        if processed = 0 \<and> uploaded = 0
        then pause env (real_of_int (rule_poll_interval_seconds (ne_config env)))
        else pause env RULE_DRAIN_MIN_INTERVAL_SECONDS)))
     (pause env (real_of_int (rule_poll_interval_seconds (ne_config env))))"

text \<open>
  The maintenance and the inventory thread wait first and end when a stop is requested. The
  inventory thread keeps the time of its last reconciliation.
\<close>

definition maintenance_round :: "connector_env \<Rightarrow> (connector, unit) eff" where
  "maintenance_round env =
     seq (stop_wait env (real_of_int (heartbeat_interval_seconds (ne_config env)))) (\<lambda>stopped.
       if stopped then ret ()
       else with_recovery env (seq (heartbeat env) (\<lambda>_. ret ())) (breaker_failure env))"

definition inventory_work :: "connector_env \<Rightarrow> time \<Rightarrow> (connector, time) eff" where
  "inventory_work env last_done =
     seq (asks (\<lambda>s. case cn_session s of None \<Rightarrow> False | Some x \<Rightarrow> allows x GRANT_INVENTORY_READ)) (\<lambda>granted.
       if \<not> granted then ret last_done
       else
         seq (asks cn_snapshot_pending) (\<lambda>waiting.
           if waiting then seq (try_bootstrap_snapshot env) (\<lambda>_. ret last_done)
           else
             seq (now_tick env) (\<lambda>now.
             let due = reconciliation_interval_seconds (ne_config env) * 1000000 \<le> now - last_done in
             seq (asks (\<lambda>s. needs_reconciliation (cn_queue s))) (\<lambda>needed.
               if \<not> (needed \<or> due) then ret last_done
               else
                 seq (enqueue_reconciliation_if_needed env due) (\<lambda>done.
                   if done then now_tick env else ret last_done)))))"

definition inventory_round :: "connector_env \<Rightarrow> time \<Rightarrow> (connector, time) eff" where
  "inventory_round env last_done =
     seq (stop_wait env (real_of_int (heartbeat_interval_seconds (ne_config env)))) (\<lambda>stopped.
       if stopped then ret last_done
       else try_except (inventory_work env last_done) (\<lambda>e.
         case e of
           HubSessionInvalidError sid _ \<Rightarrow> seq (recover_after_session_error env sid) (\<lambda>_. ret last_done)
         | _ \<Rightarrow> seq (breaker_failure env) (\<lambda>_. ret last_done)))"

section \<open>The whole run\<close>

text \<open>
  \<open>run_forever\<close> up to the start of its threads: \<open>None\<close> when a stop came first. Whatever happens,
  \<open>stop_everything\<close> is what ends it.
\<close>

definition run_start :: "connector_env \<Rightarrow> (connector, thread list option) eff" where
  "run_start env =
     seq (prepare env) (\<lambda>_.
     seq ensure_data_plane_open (\<lambda>_.
     seq (asks (stopping env)) (\<lambda>stopped.
       if stopped then ret None
       else
         seq (asks (\<lambda>s. case cn_session s of None \<Rightarrow> False | Some x \<Rightarrow> allows x GRANT_INVENTORY_READ)) (\<lambda>granted.
         seq (if granted
              then seq (modify (\<lambda>s. s\<lparr>cn_snapshot_pending := True\<rparr>)) (\<lambda>_.
                seq (try_bootstrap_snapshot env) (\<lambda>_. ret ()))
              else ret ()) (\<lambda>_.
         seq (asks cn_session) (\<lambda>session.
         seq (lift_res (runtime_threads session)) (\<lambda>threads. ret (Some threads))))))))"

definition stop_everything :: "connector_env \<Rightarrow> (connector, unit) eff" where
  "stop_everything env = seq (modify (\<lambda>s. s\<lparr>cn_stop := True\<rparr>)) (\<lambda>_. disconnect env)"

definition thread_round :: "connector_env \<Rightarrow> thread \<Rightarrow> time \<Rightarrow> (connector, time) eff" where
  "thread_round env t last_done =
     (case t of
        Subscription \<Rightarrow> seq (subscription_round env) (\<lambda>_. ret last_done)
      | Upload \<Rightarrow> seq (upload_round env) (\<lambda>_. ret last_done)
      | Command \<Rightarrow> seq (command_round env) (\<lambda>_. ret last_done)
      | Rule \<Rightarrow> seq (rule_round env) (\<lambda>_. ret last_done)
      | Maintenance \<Rightarrow> seq (maintenance_round env) (\<lambda>_. ret last_done)
      | Inventory \<Rightarrow> inventory_round env last_done)"

section \<open>Threads follow grants\<close>

fun grants_for :: "thread \<Rightarrow> string set" where
  "grants_for Subscription = {GRANT_STATE_UPLINK, GRANT_LOCAL_RULE_RUNTIME}"
| "grants_for Upload = {GRANT_STATE_UPLINK, GRANT_INVENTORY_READ}"
| "grants_for Command = {GRANT_COMMAND_DOWNLINK}"
| "grants_for Rule = {GRANT_LOCAL_RULE_RUNTIME}"
| "grants_for Inventory = {GRANT_INVENTORY_READ}"
| "grants_for Maintenance = {}"

lemma threads_of_session:
  assumes "runtime_threads (Some x) = Inr ts"
  shows "distinct ts" "t \<in> set ts \<longleftrightarrow> t = Maintenance \<or> (\<exists>g \<in> grants_for t. allows x g)"
proof -
  show "distinct ts" using assms by (auto simp: runtime_threads_def)
  show "t \<in> set ts \<longleftrightarrow> t = Maintenance \<or> (\<exists>g \<in> grants_for t. allows x g)"
    using assms by (cases t) (auto simp: runtime_threads_def)
qed

definition same_session :: "connector \<Rightarrow> connector \<Rightarrow> bool" where
  "same_session s s' \<longleftrightarrow> cn_binding s' = cn_binding s \<and> cn_session s' = cn_session s"

interpretation sess: frame_condition same_session
  by unfold_locales (auto simp: same_session_def)

lemma same_session_snapshot: "framed same_session (try_bootstrap_snapshot env)"
proof -
  have parts: "framed same_session (now_tick env)" "framed same_session (on_home m)"
    "framed same_session (on_queue q)" "framed same_session circuit_now"
    "framed same_session (modify (\<lambda>s. s\<lparr>cn_snapshot_pending := p\<rparr>))" for m :: "(ha_world, ha_snapshot) eff"
    and q :: "(uplink_queue, queue_item) eff" and p
    by (auto intro!: framedI simp: same_session_def now_tick_def on_home_def on_queue_def zoom_def circuit_now_def
        asks_def modify_def split: prod.split)
  show ?thesis
    unfolding try_bootstrap_snapshot_def enqueue_snapshot_def read_snapshot_def enqueue_now_def
    by (intro sess.framed_seq sess.framed_basic sess.framed_try parts)
qed

text \<open>
  C24: the data plane opens for a bound device, and only as far as it was granted. When \<open>run_forever\<close>
  gets to its threads, the binding is ready, there is a session, and it starts exactly the threads
  that session's grants call for, each once, and the heartbeat.
\<close>

theorem threads_follow_the_grants:
  assumes "run_start env s = (Inr (Some ts), s')"
  shows "cn_binding s' = BINDING_READY \<and> distinct ts \<and>
    (\<exists>x. cn_session s' = Some x \<and>
      (\<forall>t. t \<in> set ts \<longleftrightarrow> t = Maintenance \<or> (\<exists>g \<in> grants_for t. allows x g)))"
proof -
  let ?snapshot = "\<lambda>granted. if granted
    then seq (modify (\<lambda>s. s\<lparr>cn_snapshot_pending := True\<rparr>)) (\<lambda>_. seq (try_bootstrap_snapshot env) (\<lambda>_. ret ()))
    else ret ()"
  obtain s1 granted u where s1: "cn_binding s1 = BINDING_READY" "?snapshot granted s1 = (Inr u, s')"
    "runtime_threads (cn_session s') = Inr ts"
    using assms unfolding run_start_def ensure_data_plane_open_def
    by (elim seq_InrE) (auto simp: asks_def lift_res_def ret_def throw_def split: if_splits elim!: seq_InrE)
  have "framed same_session (modify (\<lambda>s. s\<lparr>cn_snapshot_pending := True\<rparr>))"
    by (auto intro!: framedI simp: same_session_def modify_def)
  then have "framed same_session (?snapshot granted)"
    by (intro sess.framed_if sess.framed_seq sess.framed_basic same_session_snapshot)
  from framedD [OF this s1(2)] have "cn_binding s' = BINDING_READY" using s1(1) by (simp add: same_session_def)
  moreover obtain x where "cn_session s' = Some x"
    using s1(3) by (cases "cn_session s'") (auto simp: runtime_threads_def)
  ultimately show ?thesis using threads_of_session s1(3) by auto
qed

text \<open>A device of long standing whose Core grants it commands\<close>

definition session_answer :: http_response where
  "session_answer = answer 200 (PDict [(''session_id'', PStr ''s9''), (''integration_instance_id'', PStr ''home''),
     (''lease_generation'', PInt 1), (''lease_expires_at'', PInt 90),
     (''effective_grants'', PList [PStr ''command_downlink''])])"

lemma nine_rounds:
  "unavailable_loop env action 9 delay =
     catch (seq action (\<lambda>a. ret (Some a)))
       (\<lambda>e. if \<not> core_temporarily_unavailable e then throw e
             else seq (stop_wait env delay) (\<lambda>stopped.
               if stopped then ret None
               else unavailable_loop env action 8 (next_core_delay delay)))"
  "connect_loop env i 9 =
     seq (now_tick env) (\<lambda>now.
       catch (seq (asks cn_cursor) (\<lambda>cursor.
              seq (on_core (connect_session (ne_core env) now i (PDict cursor))) (\<lambda>session. ret (Some session))))
         (\<lambda>e. case e of
            HubLeaseConflictError retry expires \<Rightarrow>
              seq (stop_wait env (lease_conflict_wait_seconds retry)) (\<lambda>stopped.
                if stopped then ret None else connect_loop env i 8)
          | _ \<Rightarrow> throw e))"
  using unavailable_loop.simps(2) [of env action 8 delay] connect_loop.simps(2) [of env i 8]
  by (simp_all del: unavailable_loop.simps connect_loop.simps)

lemma granted_start:
  assumes "ne_fuel env = 9" "ne_drift env = (\<lambda>_. 0)" "ne_stop_at env = Some 8000000"
    and "prepare env w = prepare_existing env i s"
    and "effective_bootstrap_mode i = PStr BOOTSTRAP_PROVISIONED" "binding_state i = PNone"
    and "cn_now s = 0" "\<not> cn_stop s"
    and "authenticate (ne_core env) i (cn_core s) = (Inr (), c1)"
    and "connect_session (ne_core env) 0 i (PDict (cn_cursor s)) c1 = (Inr x, c2)"
    and "resume_cursor x = None" "effective_grants x = [GRANT_COMMAND_DOWNLINK]"
  shows "\<exists>s'. run_start env w = (Inr (Some [Command, Maintenance]), s')"
proof -
  have "\<exists>s1. establish_session env i (s\<lparr>cn_identity := Some i, cn_binding := BINDING_READY, cn_core := c1\<rparr>) = (Inr (), s1) \<and>
      cn_binding s1 = BINDING_READY \<and> cn_session s1 = Some x \<and> \<not> cn_stop s1 \<and> cn_now s1 = 0"
    using assms
    by (simp add: establish_session_def nine_rounds eff_simps now_tick_def on_core_def zoom_def adopt_session_def
        on_queue_def synchronize_with_server_cursor_def Let_def py_or_def py_int_def)
  then obtain s1 where s1: "establish_session env i (s\<lparr>cn_identity := Some i, cn_binding := BINDING_READY, cn_core := c1\<rparr>) = (Inr (), s1)"
    "cn_binding s1 = BINDING_READY" "cn_session s1 = Some x" "\<not> cn_stop s1" "cn_now s1 = 0" by blast
  have "prepare env w = (Inr (), s1)"
    using assms s1(1)
    by (simp add: prepare_existing_def adopt_identity_def text_or_def go_live_def call_while_core_unavailable_def
        nine_rounds eff_simps core_authenticate_def on_core_def zoom_def)
  then show ?thesis
    using s1(2-) assms(3,12)
    by (simp add: run_start_def seq_Inr ensure_data_plane_open_def eff_simps stopping_def allows_def
        runtime_threads_def GRANT_STATE_UPLINK_def GRANT_LOCAL_RULE_RUNTIME_def GRANT_INVENTORY_READ_def
        GRANT_COMMAND_DOWNLINK_def)
qed

theorem threads_follow_the_grants_witness:
  "\<exists>s'. run_start (sample_connector_env [Inr challenge_answer, Inr token_answer, Inr session_answer])
      waiting_device = (Inr (Some [Command, Maintenance]), s') \<and> cn_binding s' = BINDING_READY"
proof -
  let ?env = "sample_connector_env [Inr challenge_answer, Inr token_answer, Inr session_answer]"
  let ?d = "[(''connector_id'', PStr ''c1''), (''credential_id'', PStr ''k1''),
    (''bootstrap_mode'', PStr BOOTSTRAP_PROVISIONED)]"
  let ?i = "identity_of ''seed'' ?d"
  have fields: "ne_fuel ?env = 9" "ne_drift ?env = (\<lambda>_. 0)" "ne_stop_at ?env = Some 8000000"
    by (simp_all add: sample_connector_env_def)
  obtain fs where load: "load_or_create sample_keys (sample_store ?d) = (Inr (identity_of ''seed'' ?d), fs)"
    using sample_loads [of ?d] by auto
  let ?s = "waiting_device\<lparr>cn_files := fs\<rparr>"
  from load have "load_or_create (ce_keys (ne_core ?env)) (cn_files waiting_device) = (Inr (identity_of ''seed'' ?d), fs)"
    by (simp add: sample_connector_env_def answering_def waiting_device_def)
  then have start: "prepare ?env waiting_device = prepare_existing ?env ?i ?s"
    by (simp add: prepare_def seq_def on_files_def zoom_def identity_of_def)
  have i: "effective_bootstrap_mode ?i = PStr BOOTSTRAP_PROVISIONED" "binding_state ?i = PNone"
    by (simp_all add: effective_bootstrap_mode_def identity_of_def py_or_def BOOTSTRAP_PROVISIONED_def)
  have s: "cn_now ?s = 0" "\<not> cn_stop ?s" "cn_core ?s = core_client_init ''https://core/''"
    "cn_cursor ?s = [(''uplink_sequence'', PInt 0)]"
    by (simp_all add: waiting_device_def sample_connector_def)
  obtain c1 where auth: "authenticate (ne_core ?env) ?i (core_client_init ''https://core/'') = (Inr (), c1)"
    and token: "cc_token c1 = PStr ''tok''" "cc_token_expires c1 = Some 900000000" "length (cc_log c1) = 2"
    by (simp add: sample_connector_env_def core_eval)
  obtain x where row: "session_of (ne_core ?env) [(''session_id'', PStr ''s9''),
      (''integration_instance_id'', PStr ''home''), (''lease_generation'', PInt 1), (''lease_expires_at'', PInt 90),
      (''effective_grants'', PList [PStr ''command_downlink''])] = Inr x"
    and x: "resume_cursor x = None" "effective_grants x = [GRANT_COMMAND_DOWNLINK]"
    by (simp add: session_of_def row_items_def dindex_def py_int_def py_list_def py_iter_def core_parse_time_def
        from_timestamp_def round_half_even_def py_or_def sample_connector_env_def answering_def
        GRANT_COMMAND_DOWNLINK_def)
  obtain c2 where "connect_session (ne_core ?env) 0 ?i (PDict [(''uplink_sequence'', PInt 0)]) c1 = (Inr x, c2)"
    using row token
    by (simp add: connect_session_def sample_connector_env_def answering_def session_answer_def answer_def
        ensure_token_def token_current_def bearer_post_def core_request_def send_request_def eff_simps Let_def
        check_response_def invalid_session_detail_def lease_conflict_def)
  then have "\<exists>s'. run_start ?env waiting_device = (Inr (Some [Command, Maintenance]), s')"
    using granted_start [OF fields start i s(1,2) _ _ x] auth unfolding s(3,4) by blast
  then obtain s' where "run_start ?env waiting_device = (Inr (Some [Command, Maintenance]), s')" ..
  from threads_follow_the_grants [OF this] this show ?thesis by blast
qed

end
