(* ===== verification/Composition.thy ===== *)
theory Composition
  imports Threads
begin

text \<open>
  The connector as a whole. Every method is shown once to act on each part only through that
  part's own operations: the queue through runs of queue calls, Home Assistant through light
  switches, Core through requests that keep the token, the breaker through its methods. What was
  proved of a part alone then holds in every state the connector reaches, its threads' rounds taken
  one at a time.
\<close>

section \<open>What every method keeps\<close>

text \<open>The queue moves by calls of the queue, the breaker by calls of the breaker.\<close>

definition queue_run :: "uplink_queue \<Rightarrow> uplink_queue \<Rightarrow> bool" where
  "queue_run q q' \<longleftrightarrow> (\<exists>ops. list_all connector_op ops \<and> q' = fold queue_step ops q)"

definition breaker_run :: "circuit_breaker \<Rightarrow> circuit_breaker \<Rightarrow> bool" where
  "breaker_run b b' \<longleftrightarrow> (\<exists>ops. b' = fold breaker_step ops b)"

definition conforms :: "connector \<Rightarrow> connector \<Rightarrow> bool" where
  "conforms s s' \<longleftrightarrow> queue_run (cn_queue s) (cn_queue s') \<and> lights_sent (cn_ha s) (cn_ha s') \<and>
     sends token_confined (cn_core s) (cn_core s') \<and> breaker_run (cn_breaker s) (cn_breaker s')"

lemma queue_run_refl: "queue_run q q"
  by (auto simp: queue_run_def intro!: exI [of _ "[]"])

lemma queue_run_step: "connector_op op \<Longrightarrow> q' = queue_step op q \<Longrightarrow> queue_run q q'"
  by (auto simp: queue_run_def intro!: exI [of _ "[op]"])

lemma queue_run_trans: "queue_run q q1 \<Longrightarrow> queue_run q1 q2 \<Longrightarrow> queue_run q q2"
proof -
  assume "queue_run q q1" "queue_run q1 q2"
  then obtain ops ops2 where "list_all connector_op ops" "q1 = fold queue_step ops q"
    "list_all connector_op ops2" "q2 = fold queue_step ops2 q1" by (auto simp: queue_run_def)
  then show ?thesis unfolding queue_run_def by (intro exI [of _ "ops @ ops2"]) simp
qed

lemma breaker_run_refl: "breaker_run q q"
  by (auto simp: breaker_run_def intro!: exI [of _ "[]"])

lemma breaker_run_step: "q' = breaker_step op q \<Longrightarrow> breaker_run q q'"
  by (auto simp: breaker_run_def intro!: exI [of _ "[op]"])

lemma breaker_run_trans: "breaker_run q q1 \<Longrightarrow> breaker_run q1 q2 \<Longrightarrow> breaker_run q q2"
proof -
  assume "breaker_run q q1" "breaker_run q1 q2"
  then obtain ops ops2 where "q1 = fold breaker_step ops q" "q2 = fold breaker_step ops2 q1"
    by (auto simp: breaker_run_def)
  then show ?thesis unfolding breaker_run_def by (intro exI [of _ "ops @ ops2"]) simp
qed

interpretation conf: frame_condition conforms
proof
  show "conforms s s" for s
    by (simp add: conforms_def queue_run_refl breaker_run_refl lights_sent_refl sent.refl)
  show "conforms s t \<Longrightarrow> conforms t u \<Longrightarrow> conforms s u" for s t u
    unfolding conforms_def
    by (elim conjE, intro conjI) (erule queue_run_trans lights_sent_trans sent.trans breaker_run_trans, assumption)+
qed

text \<open>The parts\<close>

named_theorems conform \<open>methods that keep to the operations of the parts\<close>

lemmas [conform] = conf.framed_seq conf.framed_basic conf.framed_try conf.framed_catch conf.framed_if

lemma conform_same:
  assumes "cn_queue s' = cn_queue s" "cn_ha s' = cn_ha s" "cn_core s' = cn_core s" "cn_breaker s' = cn_breaker s"
  shows "conforms s s'"
  using assms by (simp add: conforms_def queue_run_refl breaker_run_refl lights_sent_refl sent.refl)

lemma conform_modify:
  "(\<And>s. cn_queue (f s) = cn_queue s \<and> cn_ha (f s) = cn_ha s \<and> cn_core (f s) = cn_core s \<and>
    cn_breaker (f s) = cn_breaker s) \<Longrightarrow> framed conforms (modify f)"
  by (simp add: framed_def modify_def conform_same)

lemma conform_clock [conform]: "framed conforms (now_tick env)"
  by (rule framedI, rule conform_same) (simp_all add: now_tick_def)

lemma conform_wait [conform]: "framed conforms (stop_wait env d)"
  by (rule framedI, rule conform_same)
    (simp_all add: stop_wait_def sleep_for_def split: option.split)

lemma conform_pause [conform]: "framed conforms (pause env d)" "framed conforms (modify (sleep_for env d))"
  by (simp_all add: pause_def conform_modify sleep_for_def)

lemma conform_core: "framed (sends token_confined) m \<Longrightarrow> framed conforms (on_core m)"
  unfolding on_core_def
  by (rule framed_zoom) (auto simp: conforms_def queue_run_refl breaker_run_refl lights_sent_refl)

lemma conform_queue: "(\<And>q. queue_run q (snd (m q))) \<Longrightarrow> framed conforms (on_queue m)"
  unfolding on_queue_def
  by (rule framed_zoom [of queue_run])
    (auto simp: framed_def conforms_def breaker_run_refl lights_sent_refl sent.refl)

lemma conform_home: "framed lights_sent m \<Longrightarrow> framed conforms (on_home m)"
  unfolding on_home_def
  by (rule framed_zoom) (auto simp: conforms_def queue_run_refl breaker_run_refl sent.refl)

lemma conform_files [conform]: "framed conforms (on_files m)"
  unfolding on_files_def by (rule framedI, rule conform_same) (simp_all add: zoom_def split: prod.split)

lemma conform_rules [conform]: "framed conforms (on_rule_store m)"
  unfolding on_rule_store_def by (rule framedI, rule conform_same) (simp_all add: zoom_def split: prod.split)

lemma conform_executor [conform]: "framed conforms (on_executor (execute_command env d))"
  unfolding on_executor_def
  by (rule framed_zoom [OF framed_lights_execute_command])
    (simp add: conforms_def only_lights_hx_def executor_of_def put_executor_def queue_run_refl
      breaker_run_refl sent.refl)

lemma conform_rule_runtime [conform]:
  "framed conforms (on_rule_runtime env instance (\<lambda>re. process_event re event c))"
proof (rule framedI)
  fix s
  obtain r x where run: "process_event (rule_env_of env instance s) event c
      \<lparr>rt_store = cn_rules s, rt_world = cn_ha s, rt_tick = 0\<rparr> = (r, x)"
    by (cases "process_event (rule_env_of env instance s) event c
      \<lparr>rt_store = cn_rules s, rt_world = cn_ha s, rt_tick = 0\<rparr>")
  from framedD [OF framed_lights_event this]
  show "conforms s (snd (on_rule_runtime env instance (\<lambda>re. process_event re event c) s))"
    by (simp add: on_rule_runtime_def run only_lights_def conforms_def queue_run_refl
        breaker_run_refl sent.refl)
qed

lemma conform_breaker [conform]:
  "framed conforms (breaker_failure env)" "framed conforms (breaker_success p)"
  "framed conforms (breaker_allow env)"
proof -
  have *: "breaker_run b b' \<Longrightarrow> conforms s (s\<lparr>cn_breaker := b'\<rparr>)" if "cn_breaker s = b" for b b' and s :: connector
    using that by (simp add: conforms_def queue_run_refl lights_sent_refl sent.refl)
  show "framed conforms (breaker_failure env)"
    unfolding breaker_failure_def
    by (intro conform) (auto simp: framed_def modify_def intro!: * breaker_run_step [of _ "Failure _"])
  show "framed conforms (breaker_success p)"
    unfolding breaker_success_def
    by (auto simp: framed_def modify_def intro!: * breaker_run_step [of _ "Success p"])
  have allow: "framed conforms (\<lambda>s. case cb_allow t (cn_breaker s) of (p, b) \<Rightarrow> (Inr p, s\<lparr>cn_breaker := b\<rparr>))" for t
  proof (rule framedI)
    fix s :: connector obtain p b where b: "cb_allow t (cn_breaker s) = (p, b)" by (cases "cb_allow t (cn_breaker s)")
    then have "breaker_run (cn_breaker s) b" by (intro breaker_run_step [of _ "Allow t"]) simp
    with b show "conforms s (snd (case cb_allow t (cn_breaker s) of (p, b) \<Rightarrow> (Inr p, s\<lparr>cn_breaker := b\<rparr>)))"
      by (simp add: *)
  qed
  show "framed conforms (breaker_allow env)"
    unfolding breaker_allow_def by (intro conform allow)
qed

section \<open>Every method\<close>

lemma conform_retry [conform]: "framed conforms m \<Longrightarrow> framed conforms (core_retry env m)"
proof -
  have "conforms s (sleep_for env d s)" "conforms s (snd (draw_random env s))" for d s
    by (rule conform_same; simp add: sleep_for_def draw_random_def)+
  then show "framed conforms m \<Longrightarrow> framed conforms (core_retry env m)"
    unfolding core_retry_def by (intro conf.framed_retry)
qed

lemma conform_failing [conform]: "framed conforms m \<Longrightarrow> framed conforms (failing env m)"
  unfolding failing_def by (intro conform)

lemma conform_queue_get: "(\<And>q. queue_run q (snd (f q))) \<Longrightarrow> framed conforms (queue_get f)"
  unfolding queue_get_def by (intro conform_queue) (simp add: case_prod_unfold)

lemma conform_queue_do: "(\<And>q. queue_run q (f q)) \<Longrightarrow> framed conforms (queue_do f)"
  unfolding queue_do_def by (intro conform_queue) simp

lemma connector_ops [simp]:
  "connector_op (Enqueue t k p)" "connector_op (PeekAll t n)" "connector_op (MarkAttempted t ns)"
  "connector_op (MarkUncertain t)" "connector_op (Acknowledge m)" "connector_op (Synchronize m)"
  "connector_op (Summarize t)" "connector_op MarkReconciled"
  by (simp_all add: connector_op_def)

lemma conform_queue_calls [conform]:
  "framed conforms (on_queue (enqueue t k p))"
  "framed conforms (on_queue (synchronize_with_server_cursor m))"
  "framed conforms (queue_get (summary t))"
  "framed conforms (queue_get (peek_all t n))"
  "framed conforms (queue_do (mark_delivery_attempted t ns))"
  "framed conforms (queue_do (mark_pending_delivery_uncertain t))"
  "framed conforms (queue_do (acknowledge_through m))"
  "framed conforms (queue_do mark_reconciliation_queued)"
proof -
  note run = queue_run_step [OF connector_ops(1)] queue_run_step [OF connector_ops(2)]
    queue_run_step [OF connector_ops(3)] queue_run_step [OF connector_ops(4)]
    queue_run_step [OF connector_ops(5)] queue_run_step [OF connector_ops(6)]
    queue_run_step [OF connector_ops(7)] queue_run_step [OF connector_ops(8)]
  show "framed conforms (on_queue (enqueue t k p))"
    "framed conforms (on_queue (synchronize_with_server_cursor m))"
    by (rule conform_queue, rule run, simp)+
  show "framed conforms (queue_get (summary t))" "framed conforms (queue_get (peek_all t n))"
    by (rule conform_queue_get, rule run, simp)+
  show "framed conforms (queue_do (mark_delivery_attempted t ns))"
    "framed conforms (queue_do (mark_pending_delivery_uncertain t))"
    "framed conforms (queue_do (acknowledge_through m))"
    "framed conforms (queue_do mark_reconciliation_queued)"
    by (rule conform_queue_do, rule run, simp)+
qed

lemma conform_core_calls [conform]:
  "framed conforms (on_core (authenticate ce i))"
  "framed conforms (on_core (connect_session ce t i cursor))"
  "framed conforms (on_core (core_heartbeat ce t i x cur dep byt dro cir))"
  "framed conforms (on_core (disconnect_session ce x reason))"
  "framed conforms (on_core (core_upload_snapshot ce t i x pl))"
  "framed conforms (on_core (core_upload_events ce t i x pl))"
  "framed conforms (on_core (claim_commands ce t i x limit))"
  "framed conforms (on_core (acknowledge_command ce t i x del st rea ev))"
  "framed conforms (on_core (claim_rule_packages ce t i x limit))"
  "framed conforms (on_core (acknowledge_rule_package ce t t2 i x pac rec has st rea ev))"
  "framed conforms (on_core (upload_rule_evidence ce t i x items))"
  "framed conforms (on_core (exchange ce code inst name pem knd alg))"
  "framed conforms (on_core (activate ce t ten pro dev secret pem inst alg health))"
  "framed conforms (on_core (enrollment_status ce enrollment receipt))"
  by (rule conform_core, simp only: confined_methods)+

lemma conform_modifies [conform]:
  "framed conforms (modify (\<lambda>s. s\<lparr>cn_binding := b s\<rparr>))"
  "framed conforms (modify (\<lambda>s. s\<lparr>cn_session := x, cn_rule_instance := r\<rparr>))"
  "framed conforms (modify (\<lambda>s. s\<lparr>cn_session := x\<rparr>))"
  "framed conforms (modify (\<lambda>s. s\<lparr>cn_cursor := c s\<rparr>))"
  "framed conforms (modify (\<lambda>s. s\<lparr>cn_snapshot_pending := p\<rparr>))"
  "framed conforms (modify (\<lambda>s. s\<lparr>cn_failure := f\<rparr>))"
  "framed conforms (modify (\<lambda>s. s\<lparr>cn_identity := i\<rparr>))"
  "framed conforms (modify (\<lambda>s. s\<lparr>cn_identity := i, cn_binding := b2\<rparr>))"
  "framed conforms (modify (\<lambda>s. s\<lparr>cn_stop := z\<rparr>))"
  "framed conforms (modify (\<lambda>s. s\<lparr>cn_shutdown_reason := y, cn_stop := z\<rparr>))"
  by (rule conform_modify; simp)+

interpretation conf_start: startup_frame conforms
  by unfold_locales (intro conform)+

lemmas [conform] = conf_start.framed_connect conf_start.framed_adopt conf_start.framed_establish
  conf_start.framed_go_live conf_start.framed_existing

lemma conform_session [conform]:
  "framed conforms (recover_session env sid)" "framed conforms (recover_after_session_error env sid)"
  "framed conforms ready" "framed conforms (heartbeat env)" "framed conforms (disconnect env)"
proof -
  have "framed conforms (case i of None \<Rightarrow> throw (RuntimeError ''HUB_IDENTITY_NOT_READY'')
      | Some i \<Rightarrow> seq (core_authenticate env i) (\<lambda>_. establish_session env i))" for i
    unfolding core_authenticate_def by (cases i) (auto intro!: conform)
  then show recover: "framed conforms (recover_session env sid)"
    unfolding recover_session_def by (intro conform)
  then show "framed conforms (recover_after_session_error env sid)"
    unfolding recover_after_session_error_def by (intro conform)
  have "framed conforms (case (i, x) of (Some i, Some x) \<Rightarrow> ret (i, x)
      | _ \<Rightarrow> throw (RuntimeError ''HUB_SESSION_NOT_READY''))" for i :: "identity option" and x :: "hub_session option"
    by (auto intro!: conform split: option.split)
  then show ready: "framed conforms ready" unfolding ready_def by (intro conform)
  show "framed conforms (heartbeat env)"
    unfolding heartbeat_def circuit_now_def case_prod_unfold by (intro conform ready)
  have "framed conforms (case (i, x) of (Some _, Some x) \<Rightarrow>
           try_except (seq (on_core (disconnect_session (ne_core env) x reason)) (\<lambda>_. ret ()))
             (\<lambda>_. breaker_failure env)
       | _ \<Rightarrow> ret ())" for i :: "identity option" and x :: "hub_session option" and reason
    by (auto intro!: conform split: option.split)
  then show "framed conforms (disconnect env)"
    unfolding disconnect_def by (intro conform)
qed

lemma conform_enqueue [conform]:
  "framed conforms (read_snapshot env)" "framed conforms (enqueue_now env knd pl)"
  "framed conforms (enqueue_snapshot env run_type)" "framed conforms (try_bootstrap_snapshot env)"
  "framed conforms (enqueue_reconciliation_if_needed env b)"
proof -
  have home: "framed conforms (on_home (collect_snapshot client start now wall))" for client start now wall
    by (rule conform_home, rule framedI, rule lights_sent_refl) simp
  then show snap: "framed conforms (read_snapshot env)"
    unfolding read_snapshot_def by (intro conform)
  show now: "framed conforms (enqueue_now env knd pl)" for knd pl
    unfolding enqueue_now_def by (intro conform)
  show enq: "framed conforms (enqueue_snapshot env run_type)" for run_type
    unfolding enqueue_snapshot_def circuit_now_def by (intro conform snap now)
  show "framed conforms (try_bootstrap_snapshot env)"
    unfolding try_bootstrap_snapshot_def by (intro conform enq)
  show "framed conforms (enqueue_reconciliation_if_needed env b)"
    unfolding enqueue_reconciliation_if_needed_def by (intro conform enq)
qed

lemma conform_event [conform]: "framed conforms (enqueue_event env event)"
proof -
  have rules: "framed conforms (case rules of None \<Rightarrow> ret ()
      | Some instance \<Rightarrow> seq (on_rule_runtime env instance (\<lambda>re. process_event re event c)) (\<lambda>_. ret ()))"
    for rules c
    by (cases rules) (auto intro!: conform)
  show ?thesis
    unfolding enqueue_event_def circuit_now_def Let_def
    by (intro conf.framed_seq conf.framed_basic) (auto split: pyval.split intro!: conform rules)
qed

interpretation conf_upload: upload_frame conforms
proof
  show "conforms s (sleep_for env d s)" "conforms s (snd (draw_random env s))" "conforms s (snd (now_tick env s))"
    for env d s by (rule conform_same; simp add: sleep_for_def draw_random_def now_tick_def)+
qed (rule conform_queue_calls)+

lemma conform_flush [conform]:
  "framed conforms (upload_head env i x items)" "framed conforms (complete_half_open_probe env p)"
  "framed conforms (deliver env p i x items)" "framed conforms (flush_once env)"
proof -
  show head: "framed conforms (upload_head env i x items)" for i x items
    unfolding upload_head_def Let_def
    by (intro conform conf_upload.framed_upload)
  show probe: "framed conforms (complete_half_open_probe env p)" for p
    unfolding complete_half_open_probe_def by (intro conform)
  show deliver: "framed conforms (deliver env p i x items)" for p i x items
    unfolding deliver_def by (intro conform head probe)
  have "framed conforms (case permit of None \<Rightarrow> ret False
      | Some permit \<Rightarrow>
           seq (failing env (seq ready (\<lambda>(i, session).
                seq (now_tick env) (\<lambda>now.
                seq (queue_get (peek_all now (event_batch_size (ne_config env)))) (\<lambda>items.
                  ret (i, session, items)))))) (\<lambda>(i, session, items).
             deliver env permit i session items))" for permit
    unfolding case_prod_unfold by (cases permit) (auto intro!: conform deliver)
  then show "framed conforms (flush_once env)"
    unfolding flush_once_def by (intro conform)
qed

lemma conform_commands [conform]:
  "framed conforms (process_command env i x d)" "framed conforms (process_deliveries env i x ds)"
  "framed conforms (process_commands_once env)"
proof -
  have ack: "framed conforms (case r of None \<Rightarrow> throw e
      | Some r \<Rightarrow> seq (now_tick env) (\<lambda>now.
          on_core (acknowledge_command (ne_core env) now i x did (rc_status r)
            (case rc_reason r of None \<Rightarrow> PNone | Some t \<Rightarrow> PStr t) (rc_evidence r))))" for r e did i x
    by (cases r) (auto intro!: conform)
  show one: "framed conforms (process_command env i x d)" for i x d
    unfolding process_command_def by (intro conform ack)
  show all: "framed conforms (process_deliveries env i x ds)" for i x ds
    by (induction ds) (auto intro!: conform one)
  show "framed conforms (process_commands_once env)"
    unfolding process_commands_once_def case_prod_unfold by (intro conform all)
qed

lemma conform_packages [conform]:
  "framed conforms (process_controls cs)" "framed conforms (apply_delivery env x item)"
  "framed conforms (process_items env i x vs)" "framed conforms (process_rule_packages_once env)"
  "framed conforms (flush_rule_evidence_once env)"
proof -
  show controls: "framed conforms (process_controls cs)" for cs
    by (induction cs) (auto intro!: conform simp: process_control_def)
  show pkg: "framed conforms (apply_delivery env x item)" for x item
    unfolding apply_delivery_def by (intro conform)
  have "framed conforms (process_item env i x v)" for i x v
    unfolding process_item_def Let_def case_prod_unfold by (intro conform pkg)
  then show items: "framed conforms (process_items env i x vs)" for i x vs
    by (induction vs) (auto intro!: conform)
  show "framed conforms (process_rule_packages_once env)"
    unfolding process_rule_packages_once_def case_prod_unfold by (intro conform controls items)
  show "framed conforms (flush_rule_evidence_once env)"
    unfolding flush_rule_evidence_once_def case_prod_unfold Let_def by (intro conform)
qed

lemma conform_claim [conform]: "framed conforms (consume_claim_code env)"
  by (rule framedI, rule conform_same) (simp_all add: consume_claim_code_def split: option.split)

lemma conform_after_activation [conform]: "framed conforms (after_activation env result)"
  unfolding after_activation_def Let_def by (auto split: prod.split intro!: conform)

lemma conform_activate [conform]: "framed conforms (activate_now env i)"
  unfolding activate_now_def by (auto split: prod.split intro!: conform)

lemma conform_provision [conform]: "framed conforms (provision_loop env n i delay)"
proof (induction n arbitrary: i delay)
  case (Suc n)
  have "framed conforms (wait_before_retry env d)" for d
    unfolding wait_before_retry_def by (intro conform)
  note waits = conf.framed_seq [OF this Suc]
  have failed: "framed conforms (case e of
         HubActivationError detail x terminal \<Rightarrow>
           seq (modify (\<lambda>s. s\<lparr>cn_failure := Some detail\<rparr>)) (\<lambda>_.
             if terminal then throw (RuntimeError (''HUB_ACTIVATION_REJECTED: '' @ detail))
             else seq (wait_before_retry env delay) (provision_loop env n i))
       | _ \<Rightarrow>
           seq (modify (\<lambda>s. s\<lparr>cn_failure := Some (exn_text (ne_error_text env) e)\<rparr>)) (\<lambda>_.
             seq (wait_before_retry env delay) (provision_loop env n i)))" for e i delay
    by (cases e) (auto intro!: conform waits simp del: exn_text.simps)
  have waiting: "framed conforms (case w of None \<Rightarrow> ret ()
      | Some i' \<Rightarrow> seq (consume_claim_code env) (\<lambda>_. seq (wait_before_retry env delay) (provision_loop env n i')))"
    for w delay
    by (cases w) (auto intro!: conform waits)
  have "framed conforms (case outcome of
      Inl e \<Rightarrow> (case e of
         HubActivationError detail x terminal \<Rightarrow>
           seq (modify (\<lambda>s. s\<lparr>cn_failure := Some detail\<rparr>)) (\<lambda>_.
             if terminal then throw (RuntimeError (''HUB_ACTIVATION_REJECTED: '' @ detail))
             else seq (wait_before_retry env delay) (provision_loop env n i))
       | _ \<Rightarrow>
           seq (modify (\<lambda>s. s\<lparr>cn_failure := Some (exn_text (ne_error_text env) e)\<rparr>)) (\<lambda>_.
             seq (wait_before_retry env delay) (provision_loop env n i)))
    | Inr result \<Rightarrow> seq (after_activation env result) (\<lambda>w.
        case w of None \<Rightarrow> ret ()
        | Some i' \<Rightarrow> seq (consume_claim_code env) (\<lambda>_. seq (wait_before_retry env delay) (provision_loop env n i'))))"
    for outcome i delay
  proof (cases outcome)
    case (Inl e)
    show ?thesis unfolding Inl sum.case by (rule failed)
  next
    case (Inr result)
    show ?thesis unfolding Inr sum.case by (intro conf.framed_seq conform_after_activation waiting)
  qed
  then show ?case
    unfolding provision_loop.simps by (intro conform)
qed (auto intro!: conform)

lemma conform_prepare [conform]: "framed conforms (prepare env)"
proof -
  have paired: "framed conforms (prepare_paired env i code)" for i code
    unfolding prepare_paired_def Let_def by (intro conform)
  have "framed conforms (case c of
         Some code \<Rightarrow> (if code \<noteq> [] then prepare_paired env i code else throw (RuntimeError ''HUB_PAIRING_REQUIRED''))
       | None \<Rightarrow> throw (RuntimeError ''HUB_PAIRING_REQUIRED''))" for c i
    by (cases c) (auto intro!: conform paired)
  then show ?thesis
    unfolding prepare_def prepare_provisioned_def by (intro conform)
qed

section \<open>Rounds, starts and stops\<close>

lemma conform_recovery:
  "framed conforms body \<Longrightarrow> framed conforms handler \<Longrightarrow> framed conforms (with_recovery env body handler)"
proof -
  assume body: "framed conforms body" and handler: "framed conforms handler"
  have "framed conforms (case e of HubSessionInvalidError sid x \<Rightarrow> recover_after_session_error env sid | _ \<Rightarrow> handler)" for e
    using handler by (cases e) (auto intro!: conform)
  then show ?thesis unfolding with_recovery_def by (intro conform body)
qed

lemma conform_subscription [conform]: "framed conforms (subscription_round env)"
proof -
  have events: "framed conforms (take_events env es)" for es
    by (induction es) (auto intro!: conform)
  have "framed conforms (on_home (\<lambda>w. case subscribe_state_events client w of (es, e, w') \<Rightarrow> (Inr (es, e), w')))" for client
    by (rule conform_home, rule framedI, rule lights_sent_refl)
      (metis (mono_tags, lifting) case_prod_unfold snd_conv subscribe_quiet)
  then show ?thesis
    unfolding subscription_round_def case_prod_unfold by (intro conform events)
qed

lemma conform_inventory [conform]: "framed conforms (inventory_round env t)"
proof -
  have work: "framed conforms (inventory_work env t)"
    unfolding inventory_work_def Let_def by (intro conform)
  have "framed conforms (case e of
           HubSessionInvalidError sid x \<Rightarrow> seq (recover_after_session_error env sid) (\<lambda>_. ret t)
         | _ \<Rightarrow> seq (breaker_failure env) (\<lambda>_. ret t))" for e
    by (cases e) (auto intro!: conform)
  then show ?thesis unfolding inventory_round_def by (intro conform work)
qed

lemma conform_rounds [conform]:
  "framed conforms (upload_round env)" "framed conforms (command_round env)"
  "framed conforms (rule_round env)" "framed conforms (maintenance_round env)"
  unfolding upload_round_def command_round_def rule_round_def maintenance_round_def
  by (intro conform conform_recovery)+

lemma conform_thread_round: "framed conforms (thread_round env t last_done)"
  unfolding thread_round_def by (cases t) (auto intro!: conform)

lemma conform_run_start: "framed conforms (run_start env)"
  unfolding run_start_def ensure_data_plane_open_def by (intro conform)

lemma conform_stop: "framed conforms (stop_everything env)" "framed conforms (request_stop reason)"
  unfolding stop_everything_def request_stop_def by (intro conform)+

section \<open>The process\<close>

text \<open>
  A run of the connector: it starts, its threads take rounds in any order, time passes, a signal
  requests a stop, and it stops. A round that raises ends its thread.
\<close>

datatype phase = Starting | Running | Stopped

record process =
  pc_state :: connector
  pc_phase :: phase
  pc_threads :: "thread list"
  pc_last :: time \<comment> \<open>\<open>last_reconciliation\<close> of the inventory thread\<close>

inductive process_step :: "connector_env \<Rightarrow> process \<Rightarrow> process \<Rightarrow> bool" for env where
  start: "pc_phase p = Starting \<Longrightarrow> run_start env (pc_state p) = (Inr (Some threads), s) \<Longrightarrow>
    process_step env p (p\<lparr>pc_state := s, pc_phase := Running, pc_threads := threads, pc_last := cn_now s\<rparr>)"
| give_up: "pc_phase p = Starting \<Longrightarrow> run_start env (pc_state p) = (r, s) \<Longrightarrow> \<nexists>threads. r = Inr (Some threads) \<Longrightarrow>
    process_step env p (p\<lparr>pc_state := snd (stop_everything env s), pc_phase := Stopped\<rparr>)"
| thread: "pc_phase p = Running \<Longrightarrow> t \<in> set (pc_threads p) \<Longrightarrow>
    thread_round env t (pc_last p) (pc_state p) = (Inr last_done, s) \<Longrightarrow>
    process_step env p (p\<lparr>pc_state := s, pc_last := last_done\<rparr>)"
| thread_ends: "pc_phase p = Running \<Longrightarrow> t \<in> set (pc_threads p) \<Longrightarrow>
    thread_round env t (pc_last p) (pc_state p) = (Inl e, s) \<Longrightarrow>
    process_step env p (p\<lparr>pc_state := s, pc_threads := remove1 t (pc_threads p)\<rparr>)"
| time_passes: "cn_now (pc_state p) \<le> t \<Longrightarrow>
    process_step env p (p\<lparr>pc_state := (pc_state p)\<lparr>cn_now := t\<rparr>\<rparr>)"
| signal: "process_step env p (p\<lparr>pc_state := snd (request_stop reason (pc_state p))\<rparr>)"
| stop: "pc_phase p = Running \<Longrightarrow> stopping env (pc_state p) \<Longrightarrow>
    process_step env p (p\<lparr>pc_state := snd (stop_everything env (pc_state p)), pc_phase := Stopped\<rparr>)"

inductive_cases process_stepE: "process_step env p p'"

inductive_simps stopped_step: "process_step env (p\<lparr>pc_phase := Stopped\<rparr>) p'"

inductive reachable :: "connector_env \<Rightarrow> process \<Rightarrow> process \<Rightarrow> bool" for env p0 where
  initial: "reachable env p0 p0"
| step: "reachable env p0 p \<Longrightarrow> process_step env p p' \<Longrightarrow> reachable env p0 p'"

lemma step_conforms: "process_step env p p' \<Longrightarrow> conforms (pc_state p) (pc_state p')"
proof (induction rule: process_step.induct)
  case (start p threads s)
  then show ?case using framedD [OF conform_run_start] by simp
next
  case (give_up p r s)
  have "conforms (pc_state p) s" using framedD [OF conform_run_start give_up(2)] .
  moreover have "conforms s (snd (stop_everything env s))" using conform_stop(1) by (simp add: framed_def)
  ultimately show ?case using conf.trans by simp
next
  case (thread p t last_done s)
  then show ?case using framedD [OF conform_thread_round] by simp
next
  case (thread_ends p t e s)
  then show ?case using framedD [OF conform_thread_round] by simp
next
  case (time_passes p t)
  show ?case by (rule conform_same) simp_all
next
  case (signal p reason)
  show ?case using conform_stop(2) by (simp add: framed_def)
next
  case (stop p)
  show ?case using conform_stop(1) by (simp add: framed_def)
qed

lemma reachable_conforms: "reachable env p0 p \<Longrightarrow> conforms (pc_state p0) (pc_state p)"
  by (induction rule: reachable.induct) (auto intro: conf.refl conf.trans step_conforms)

section \<open>After the stop\<close>

interpretation gone: frame_condition "\<lambda>s s' :: connector. cn_session s = None \<longrightarrow> cn_session s' = None"
  by unfold_locales auto

lemma disconnect_leaves_session: "cn_session (snd (stop_everything env s)) = None"
proof -
  let ?R = "\<lambda>s s' :: connector. cn_session s = None \<longrightarrow> cn_session s' = None"
  have fail: "framed ?R (breaker_failure env)"
    by (simp add: framed_def breaker_failure_def eff_simps now_tick_def)
  have core: "framed ?R (on_core m)" for m :: "(core_client, pydict) eff"
    by (simp add: framed_def on_core_def zoom_def split: prod.split)
  have "framed ?R (case (i, x) of (Some _, Some x) \<Rightarrow>
         try_except (seq (on_core (disconnect_session (ne_core env) x reason)) (\<lambda>_. ret ())) (\<lambda>_. breaker_failure env)
       | _ \<Rightarrow> ret ())" for i :: "identity option" and x :: "hub_session option" and reason
    by (cases x; cases i) (simp_all add: gone.framed_try gone.framed_seq gone.framed_basic fail core)
  then show ?thesis
    unfolding stop_everything_def disconnect_def
    by (simp add: seq_def asks_def modify_def framed_def)
qed

definition at_rest :: "process \<Rightarrow> bool" where
  "at_rest p \<longleftrightarrow> pc_phase p = Stopped \<longrightarrow> cn_session (pc_state p) = None"

lemma step_at_rest: "process_step env p p' \<Longrightarrow> at_rest p \<Longrightarrow> at_rest p'"
  by (induction rule: process_step.induct)
    (auto simp: at_rest_def disconnect_leaves_session request_stop_def modify_def)

lemma reachable_at_rest: "reachable env p0 p \<Longrightarrow> at_rest p0 \<Longrightarrow> at_rest p"
  by (induction rule: reachable.induct) (auto intro: step_at_rest)

text \<open>A stopped process takes no more rounds: time passes, and signals come too late.\<close>

lemma stopped_stays:
  assumes "reachable env p p'" "pc_phase p = Stopped"
  shows "pc_phase p' = Stopped \<and> cn_core (pc_state p') = cn_core (pc_state p) \<and>
    cn_ha (pc_state p') = cn_ha (pc_state p) \<and> cn_queue (pc_state p') = cn_queue (pc_state p) \<and>
    cn_rules (pc_state p') = cn_rules (pc_state p) \<and> cn_receipts (pc_state p') = cn_receipts (pc_state p)"
  using assms
proof (induction rule: reachable.induct)
  case (step p' p'')
  then have "pc_phase p' = Stopped" by simp
  with step.hyps(2) have "pc_phase p'' = Stopped \<and> cn_core (pc_state p'') = cn_core (pc_state p') \<and>
    cn_ha (pc_state p'') = cn_ha (pc_state p') \<and> cn_queue (pc_state p'') = cn_queue (pc_state p') \<and>
    cn_rules (pc_state p'') = cn_rules (pc_state p') \<and> cn_receipts (pc_state p'') = cn_receipts (pc_state p')"
    by (elim process_stepE) (simp_all add: request_stop_def modify_def)
  with step show ?case by simp
qed simp

end
