(* ===== verification/Queue_Fifo.thy ===== *)
theory Queue_Fifo
  imports Uplink_Queue
begin

text \<open>
  What the queue of \<open>queue.py\<close> promises, said without tables, keys and metadata: a list of items
  in the order they were put in, the number of items taken from its front since numbering began,
  and a count of items lost. The item at position \<open>i\<close> of the list has the number of items taken
  plus \<open>i + 1\<close>, so numbers need not be stored. The rows, the sequence numbers and the counters of
  the SQLite file are shown to implement exactly that, in the state they leave and in everything
  their callers are answered.
\<close>

section \<open>The specification\<close>

record fifo_item =
  fi_kind :: string
  fi_payload :: pydict
  fi_created :: time

record fifo =
  ff_taken :: int
  ff_items :: "fifo_item list"
  ff_dropped :: int

definition fifo_new :: fifo where
  "fifo_new = \<lparr>ff_taken = 0, ff_items = [], ff_dropped = 0\<rparr>"

text \<open>Losing everything is counted.\<close>

definition fifo_clear :: "fifo \<Rightarrow> fifo" where
  "fifo_clear f = f\<lparr>ff_items := [], ff_dropped := ff_dropped f + int (length (ff_items f))\<rparr>"

text \<open>As soon as one item is too old, all are given up.\<close>

definition fifo_expire :: "int \<Rightarrow> time \<Rightarrow> fifo \<Rightarrow> fifo" where
  "fifo_expire max_age now f =
     (if \<exists>i \<in> set (ff_items f). fi_created i < now - max_age * 1000000 then fifo_clear f else f)"

definition fifo_bytes :: "fifo \<Rightarrow> int" where
  "fifo_bytes f = sum_list (map (\<lambda>i. payload_bytes (fi_payload i)) (ff_items f))"

definition fifo_fits :: "int \<Rightarrow> pydict \<Rightarrow> fifo \<Rightarrow> bool" where
  "fifo_fits max_bytes pl f \<longleftrightarrow> fifo_bytes f + payload_bytes pl \<le> max_bytes"

definition fifo_put :: "int \<Rightarrow> time \<Rightarrow> string \<Rightarrow> pydict \<Rightarrow> fifo \<Rightarrow> fifo" where
  "fifo_put max_bytes now knd pl f =
     (if fifo_fits max_bytes pl f
      then f\<lparr>ff_items := ff_items f @ [\<lparr>fi_kind = knd, fi_payload = pl, fi_created = now\<rparr>]\<rparr>
      else f\<lparr>ff_dropped := ff_dropped f + 1\<rparr>)"

text \<open>Taking everything through the number \<open>n\<close>; a number beyond the end moves the numbering on.\<close>

definition fifo_take :: "int \<Rightarrow> fifo \<Rightarrow> fifo" where
  "fifo_take n f =
     f\<lparr>ff_taken := max (ff_taken f) n, ff_items := drop (nat (n - ff_taken f)) (ff_items f)\<rparr>"

text \<open>
  The server says how much it has. When that is not less than what was taken it is taken; when it
  is less, what is queued cannot follow on it and is given up.
\<close>

definition fifo_behind :: "int \<Rightarrow> fifo \<Rightarrow> bool" where
  "fifo_behind n f \<longleftrightarrow> n < ff_taken f \<and> ff_items f \<noteq> []"

definition fifo_sync :: "int \<Rightarrow> fifo \<Rightarrow> fifo" where
  "fifo_sync n f =
     (if n < 0 then f
      else if fifo_behind n f then (fifo_clear f)\<lparr>ff_taken := n\<rparr>
      else (fifo_take n f)\<lparr>ff_taken := n\<rparr>)"

fun fifo_step :: "int \<Rightarrow> int \<Rightarrow> queue_op \<Rightarrow> fifo \<Rightarrow> fifo" where
  "fifo_step mb ma (Enqueue now k p) f = fifo_put mb now k p (fifo_expire ma now f)"
| "fifo_step mb ma (Peek now k n) f = fifo_expire ma now f"
| "fifo_step mb ma (PeekAll now n) f = fifo_expire ma now f"
| "fifo_step mb ma (Summarize now) f = fifo_expire ma now f"
| "fifo_step mb ma (Acknowledge n) f = fifo_take n f"
| "fifo_step mb ma (Synchronize n) f = fifo_sync n f"
| "fifo_step mb ma _ f = f"

text \<open>What an operation answers: a number and whether the item was taken in; the items with their
  numbers; whether synchronizing lost anything; the figures of the summary.\<close>

datatype queue_answer =
    Numbered int bool
  | Listed "(int \<times> string \<times> pydict \<times> time) list"
  | Synchronized "bool res"
  | Figures int int int int int
  | Refused exn
  | Silent

definition fifo_list :: "fifo \<Rightarrow> (int \<times> string \<times> pydict \<times> time) list" where
  "fifo_list f = zip [ff_taken f + 1..ff_taken f + int (length (ff_items f))]
     (map (\<lambda>i. (fi_kind i, stored_payload (fi_payload i), fi_created i)) (ff_items f))"

fun fifo_answer :: "int \<Rightarrow> int \<Rightarrow> queue_op \<Rightarrow> fifo \<Rightarrow> queue_answer" where
  "fifo_answer mb ma (Enqueue now k p) f =
     (let g = fifo_expire ma now f
      in Numbered (ff_taken g + int (length (ff_items g)) + 1) (fifo_fits mb p g))"
| "fifo_answer mb ma (Peek now k n) f =
     Listed (sql_limit n (filter (\<lambda>(_, k', _). k' = k) (fifo_list (fifo_expire ma now f))))"
| "fifo_answer mb ma (PeekAll now n) f = Listed (sql_limit n (fifo_list (fifo_expire ma now f)))"
| "fifo_answer mb ma (Synchronize n) f = Synchronized
     (if n < 0 then Inl (ValueError ''server cursor must not be negative'') else Inr (fifo_behind n f))"
| "fifo_answer mb ma (Summarize now) f =
     (let g = fifo_expire ma now f; len = int (length (ff_items g))
      in Figures len (fifo_bytes g) (if len = 0 then 0 else ff_taken g + 1)
           (if len = 0 then 0 else ff_taken g + len) (ff_dropped g))"
| "fifo_answer mb ma _ f = Silent"

section \<open>The implementation's answers and the abstraction\<close>

definition told :: "queue_item \<Rightarrow> int \<times> string \<times> pydict \<times> time" where
  "told it = (sequence it, kind it, payload it, created_at it)"

fun queue_reply :: "queue_op \<Rightarrow> uplink_queue \<Rightarrow> queue_answer" where
  "queue_reply (Enqueue now k p) q =
     (case fst (enqueue now k p q) of Inl e \<Rightarrow> Refused e | Inr it \<Rightarrow> Numbered (sequence it) (accepted it))"
| "queue_reply (Peek now k n) q = Listed (map told (fst (peek now k n q)))"
| "queue_reply (PeekAll now n) q = Listed (map told (fst (peek_all now n q)))"
| "queue_reply (Synchronize n) q = Synchronized (fst (synchronize_with_server_cursor n q))"
| "queue_reply (Summarize now) q =
     (let s = fst (summary now q)
      in Figures (queue_depth s) (summary_bytes s) (oldest_sequence s) (latest_sequence s) (dropped_count s))"
| "queue_reply _ q = Silent"

definition row_fifo :: "queue_row \<Rightarrow> fifo_item" where
  "row_fifo r = \<lparr>fi_kind = row_kind r, fi_payload = row_payload r, fi_created = row_created r\<rparr>"

definition fifo_of :: "uplink_queue \<Rightarrow> fifo" where
  "fifo_of q = \<lparr>ff_taken = acknowledged_sequence q, ff_items = map row_fifo (q_rows q),
     ff_dropped = dropped q\<rparr>"

text \<open>The rows stand in the order of their numbers, without a gap, and know their size.\<close>

definition in_order :: "int \<Rightarrow> int \<Rightarrow> uplink_queue \<Rightarrow> bool" where
  "in_order mb ma q \<longleftrightarrow> q_max_bytes q = mb \<and> q_max_age_seconds q = ma \<and>
     acknowledged_sequence q < next_sequence q \<and>
     pending q = [acknowledged_sequence q + 1..next_sequence q - 1] \<and>
     list_all (\<lambda>r. row_bytes r = payload_bytes (row_payload r)) (q_rows q)"

lemma fifo_of_simps [simp]:
  "ff_taken (fifo_of q) = acknowledged_sequence q"
  "ff_items (fifo_of q) = map row_fifo (q_rows q)"
  "ff_dropped (fifo_of q) = dropped q"
  by (simp_all add: fifo_of_def)

lemma row_fifo_simps [simp]:
  "fi_kind (row_fifo r) = row_kind r" "fi_payload (row_fifo r) = row_payload r"
  "fi_created (row_fifo r) = row_created r"
  by (simp_all add: row_fifo_def)

lemma fifo_eqI:
  "ff_taken f = ff_taken g \<Longrightarrow> ff_items f = ff_items g \<Longrightarrow> ff_dropped f = ff_dropped g \<Longrightarrow> f = (g :: fifo)"
  by simp

lemma in_orderD:
  assumes "in_order mb ma q"
  shows "q_max_bytes q = mb" "q_max_age_seconds q = ma" "acknowledged_sequence q < next_sequence q"
    "pending q = [acknowledged_sequence q + 1..next_sequence q - 1]"
    "list_all (\<lambda>r. row_bytes r = payload_bytes (row_payload r)) (q_rows q)"
  using assms by (simp_all only: in_order_def)

lemma in_order_depth:
  assumes "in_order mb ma q"
  shows "depth q = next_sequence q - 1 - acknowledged_sequence q"
proof -
  have "length (pending q) = nat (next_sequence q - 1 - acknowledged_sequence q)"
    unfolding in_orderD(4) [OF assms] by simp
  with in_orderD(3) [OF assms] show ?thesis by simp
qed

lemma in_order_key_free: "in_order mb ma q \<Longrightarrow> next_sequence q \<notin> set (pending q)"
  by (simp only: in_orderD(4)) simp

lemma in_order_bytes: "in_order mb ma q \<Longrightarrow> queue_bytes q = fifo_bytes (fifo_of q)"
  using in_orderD(5) [of mb ma q]
  by (auto simp: queue_bytes_def fifo_bytes_def list_all_iff intro!: arg_cong [of _ _ sum_list])

lemma payload_bytes_nonneg [simp]: "0 \<le> payload_bytes d"
  by (simp add: payload_bytes_def)

lemma fifo_bytes_nonneg [simp]: "0 \<le> fifo_bytes f"
  unfolding fifo_bytes_def by (rule sum_list_nonneg) auto

section \<open>Each operation\<close>

lemma expire_in_order:
  assumes "in_order mb ma q"
  shows "in_order mb ma (expire_stale_queue now q)"
    "fifo_of (expire_stale_queue now q) = fifo_expire ma now (fifo_of q)"
proof -
  show "in_order mb ma (expire_stale_queue now q)"
    using assms by (simp add: in_order_def expire_effect)
  have "stale now q \<longleftrightarrow> (\<exists>i \<in> set (ff_items (fifo_of q)). fi_created i < now - ma * 1000000)"
    using in_orderD(2) [OF assms] by (auto simp: stale_def list_ex_iff cutoff_def)
  then show "fifo_of (expire_stale_queue now q) = fifo_expire ma now (fifo_of q)"
    by (intro fifo_eqI) (simp_all add: fifo_expire_def fifo_clear_def expire_effect)
qed

lemma enqueue_in_order:
  assumes "in_order mb ma q"
  shows "in_order mb ma (snd (enqueue now knd pl q))"
    "fifo_of (snd (enqueue now knd pl q)) = fifo_put mb now knd pl (fifo_expire ma now (fifo_of q))"
    "queue_reply (Enqueue now knd pl) q = fifo_answer mb ma (Enqueue now knd pl) (fifo_of q)"
proof -
  let ?q1 = "expire_stale_queue now q"
  note q1 = expire_in_order [OF assms, of now]
  have fits: "over_capacity now pl q \<longleftrightarrow> \<not> fifo_fits mb pl (fifo_of ?q1)"
    using fifo_bytes_nonneg [of "fifo_of ?q1"] payload_bytes_nonneg [of pl]
    unfolding over_capacity_def fifo_fits_def in_order_bytes [OF q1(1)] in_orderD(1) [OF assms]
    by linarith
  have free: "key_free now q" unfolding key_free_def by (rule in_order_key_free [OF q1(1)])
  have number: "next_sequence ?q1 = acknowledged_sequence ?q1 + depth ?q1 + 1"
    using in_order_depth [OF q1(1)] by simp
  have answer: "queue_reply (Enqueue now knd pl) q = Numbered (next_sequence ?q1) (\<not> over_capacity now pl q)"
    using free by (simp add: enqueue_def over_capacity_def key_free_def insert_row_def Let_def)
  show "queue_reply (Enqueue now knd pl) q = fifo_answer mb ma (Enqueue now knd pl) (fifo_of q)"
    unfolding answer fits fifo_answer.simps q1(2) [symmetric] Let_def number by simp
  show "in_order mb ma (snd (enqueue now knd pl q))"
  proof (cases "over_capacity now pl q")
    case True
    then show ?thesis using q1(1) by (simp add: enqueue_rejected in_order_def)
  next
    case False
    have "[acknowledged_sequence ?q1 + 1..next_sequence ?q1 - 1] @ [next_sequence ?q1] =
        [acknowledged_sequence ?q1 + 1..next_sequence ?q1]"
      using in_orderD(3) [OF q1(1)] by (intro upto_rec2 [symmetric]) simp
    with q1(1) show ?thesis
      unfolding enqueue_accepted(1) [OF False free] Let_def
      by (simp add: in_order_def fresh_row_def)
  qed
  show "fifo_of (snd (enqueue now knd pl q)) = fifo_put mb now knd pl (fifo_expire ma now (fifo_of q))"
  proof (cases "over_capacity now pl q")
    case True
    with fits show ?thesis
      unfolding q1(2) [symmetric] enqueue_rejected(1) [OF True]
      by (intro fifo_eqI) (simp_all add: fifo_put_def)
  next
    case False
    with fits show ?thesis
      unfolding q1(2) [symmetric] enqueue_accepted(1) [OF False free] Let_def
      by (intro fifo_eqI) (simp_all add: fifo_put_def fresh_row_def row_fifo_def)
  qed
qed

text \<open>Deleting through a number drops that many rows from the front.\<close>

lemma filter_block:
  fixes n a b :: int
  assumes "map f xs = [a + 1..b]"
  shows "filter (\<lambda>x. n < f x) xs = drop (nat (n - a)) xs"
  using assms
proof (induction xs arbitrary: a)
  case (Cons x xs)
  then have "a + 1 \<le> b" by (metis list.distinct(1) list.simps(9) upto_Nil2 not_le)
  with Cons.prems have x: "f x = a + 1" and xs: "map f xs = [(a + 1) + 1..b]"
    by (simp_all add: upto_rec1)
  have above: "\<forall>y \<in> set xs. a + 1 < f y"
  proof
    fix y assume "y \<in> set xs"
    then have "f y \<in> set (map f xs)" by simp
    then show "a + 1 < f y" unfolding xs by simp
  qed
  show ?case
  proof (cases "n \<le> a")
    case True
    with x above show ?thesis by (simp add: filter_id_conv) force
  next
    case False
    then have "nat (n - a) = Suc (nat (n - (a + 1)))" by simp
    with False x Cons.IH [OF xs] show ?thesis by simp
  qed
qed simp

lemma drop_block: "drop k [a + 1..b] = [a + int k + 1..b]" for a b :: int
proof (induction k arbitrary: a)
  case (Suc k)
  show ?case
  proof (cases "a + 1 \<le> b")
    case True
    then have "drop (Suc k) [a + 1..b] = drop k [(a + 1) + 1..b]" by (simp add: upto_rec1)
    then show ?thesis by (simp only: Suc.IH) (simp add: algebra_simps)
  qed simp
qed simp

lemma rows_after:
  assumes "in_order mb ma q"
  shows "filter (\<lambda>r. n < row_sequence r) (q_rows q) = drop (nat (n - acknowledged_sequence q)) (q_rows q)"
  by (rule filter_block [OF in_orderD(4) [OF assms]])

lemma pending_after:
  assumes "in_order mb ma q"
  shows "map row_sequence (filter (\<lambda>r. n < row_sequence r) (q_rows q)) =
    [max (acknowledged_sequence q) n + 1..next_sequence q - 1]"
  unfolding rows_after [OF assms] drop_map [symmetric] in_orderD(4) [OF assms] drop_block
  by (simp add: max_def)

lemma list_all_after: "list_all P xs \<Longrightarrow> list_all P (filter Q xs)"
  by (simp add: list_all_iff)

lemma acknowledge_in_order:
  assumes "in_order mb ma q"
  shows "in_order mb ma (acknowledge_through n q)"
    "fifo_of (acknowledge_through n q) = fifo_take n (fifo_of q)"
proof -
  have age: "q_max_age_seconds (acknowledge_through n q) = q_max_age_seconds q"
    by (simp add: acknowledge_through_def delete_through_def Let_def)
  show "in_order mb ma (acknowledge_through n q)"
    unfolding in_order_def age acknowledge_effect pending_after [OF assms]
    using in_orderD(1-3) [OF assms] list_all_after [OF in_orderD(5) [OF assms]] by auto
  show "fifo_of (acknowledge_through n q) = fifo_take n (fifo_of q)"
    by (intro fifo_eqI) (simp_all add: fifo_take_def acknowledge_effect rows_after [OF assms] drop_map)
qed

lemma bounds_of_block:
  "m < u \<Longrightarrow> Min (set [m + 1..u]) = m + 1" "m < u \<Longrightarrow> Max (set [m + 1..u]) = u" for m u :: int
  by (auto intro: Min_eqI Max_eqI)

lemma synchronize_eval:
  assumes "in_order mb ma q" "0 \<le> n"
  defines "m \<equiv> max (acknowledged_sequence q) n"
    and "rows \<equiv> filter (\<lambda>r. n < row_sequence r) (q_rows q)"
  shows "synchronize_with_server_cursor n q =
    (if n < acknowledged_sequence q \<and> q_rows q \<noteq> []
     then (Inr True, record_drop (depth q) (set_metadata ''next_sequence'' (n + 1)
       ((set_metadata ''acknowledged_sequence'' n (q\<lparr>q_rows := rows\<rparr>))\<lparr>q_rows := []\<rparr>)))
     else (Inr False, set_metadata ''next_sequence''
         (if n < acknowledged_sequence q then n + 1 else max (next_sequence q) (n + 1))
       (set_metadata ''acknowledged_sequence'' n (q\<lparr>q_rows := rows\<rparr>))))"
proof -
  have seqs: "map row_sequence rows = [m + 1..next_sequence q - 1]"
    unfolding rows_def m_def by (rule pending_after [OF assms(1)])
  have count: "int (length rows) = (if m < next_sequence q - 1 then next_sequence q - 1 - m else 0)"
    using arg_cong [OF seqs, of length] by auto
  note order = in_orderD(3) [OF assms(1)] in_order_depth [OF assms(1)]
  have stored: "q_rows (q\<lparr>q_rows := rows\<rparr>) = rows" by simp
  have sync: "synchronize_with_server_cursor n q =
      (let queued = int (length rows);
           oldest = (if map row_sequence rows = [] then 0 else Min (set (map row_sequence rows)));
           latest = (if map row_sequence rows = [] then 0 else Max (set (map row_sequence rows)));
           q1 = set_metadata ''acknowledged_sequence'' n (q\<lparr>q_rows := rows\<rparr>)
       in if queued = 0 \<or> oldest = n + 1 \<and> queued = latest - oldest + 1
          then (Inr False, set_metadata ''next_sequence'' (if queued \<noteq> 0 then latest + 1 else n + 1) q1)
          else (Inr True, record_drop queued (set_metadata ''next_sequence'' (n + 1) (q1\<lparr>q_rows := []\<rparr>))))"
    by (simp only: synchronize_with_server_cursor_def if_not_P [OF assms(2) [folded not_less]]
        delete_through_def rows_def [symmetric] stored set_metadata_frame Let_def length_map)
  show ?thesis
  proof (cases "m < next_sequence q - 1")
    case True
    have "q_rows q \<noteq> []" using True order by (auto simp: m_def)
    with True order assms(2) show ?thesis
      unfolding sync Let_def seqs count if_P [OF True] bounds_of_block [OF True]
      by (auto simp: m_def max_def split: if_splits)
  next
    case False
    have "\<not> (n < acknowledged_sequence q \<and> q_rows q \<noteq> [])"
    proof (rule notI, elim conjE)
      assume "n < acknowledged_sequence q" "q_rows q \<noteq> []"
      moreover from this have "0 < depth q" by simp
      ultimately show False using False order by (simp add: m_def)
    qed
    with False order show ?thesis
      unfolding sync Let_def seqs count if_not_P [OF False]
      by (auto simp: m_def max_def)
  qed
qed

lemma synchronize_in_order:
  assumes "in_order mb ma q"
  shows "in_order mb ma (snd (synchronize_with_server_cursor n q))"
    "fifo_of (snd (synchronize_with_server_cursor n q)) = fifo_sync n (fifo_of q)"
    "queue_reply (Synchronize n) q = fifo_answer mb ma (Synchronize n) (fifo_of q)"
proof -
  have behind: "fifo_behind n (fifo_of q) \<longleftrightarrow> n < acknowledged_sequence q \<and> q_rows q \<noteq> []"
    by (simp add: fifo_behind_def)
  have "in_order mb ma (snd (synchronize_with_server_cursor n q)) \<and>
    fifo_of (snd (synchronize_with_server_cursor n q)) = fifo_sync n (fifo_of q) \<and>
    queue_reply (Synchronize n) q = fifo_answer mb ma (Synchronize n) (fifo_of q)"
  proof (cases "n < 0")
    case True
    with assms show ?thesis by (simp add: synchronize_negative fifo_sync_def)
  next
    case False
    then have "0 \<le> n" by simp
    note eval = synchronize_eval [OF assms this]
    show ?thesis
    proof (cases "n < acknowledged_sequence q \<and> q_rows q \<noteq> []")
      case True
      have "fifo_of (snd (synchronize_with_server_cursor n q)) = fifo_sync n (fifo_of q)"
        using False True by (intro fifo_eqI) (simp_all add: eval fifo_sync_def behind fifo_clear_def)
      then show ?thesis
        using False True in_orderD(1,2) [OF assms] by (simp add: eval behind in_order_def)
    next
      case stays: False
      have "fifo_of (snd (synchronize_with_server_cursor n q)) = fifo_sync n (fifo_of q)"
        using False stays
        unfolding eval if_not_P [OF stays] fifo_sync_def behind
        by (intro fifo_eqI) (simp_all add: fifo_take_def rows_after [OF assms] drop_map)
      moreover have "in_order mb ma (snd (synchronize_with_server_cursor n q))"
        using False stays in_orderD(1-3) [OF assms] in_order_depth [OF assms] list_all_after [OF in_orderD(5) [OF assms]]
        by (auto simp: eval in_order_def pending_after [OF assms] max_def)
      ultimately show ?thesis using False stays by (simp add: eval behind)
    qed
  qed
  then show "in_order mb ma (snd (synchronize_with_server_cursor n q))"
    "fifo_of (snd (synchronize_with_server_cursor n q)) = fifo_sync n (fifo_of q)"
    "queue_reply (Synchronize n) q = fifo_answer mb ma (Synchronize n) (fifo_of q)" by blast+
qed

section \<open>The whole queue\<close>

lemma listed:
  assumes "in_order mb ma q"
  shows "map told (map row_item (sort_key row_sequence (q_rows q))) = fifo_list (fifo_of q)"
proof -
  have "sorted (map row_sequence (q_rows q))"
    unfolding in_orderD(4) [OF assms] by simp
  then have sort: "sort_key row_sequence (q_rows q) = q_rows q" by (rule sort_key_id_if_sorted)
  have "acknowledged_sequence q + depth q = next_sequence q - 1"
    using in_order_depth [OF assms] by simp
  then have "fifo_list (fifo_of q) = zip (map row_sequence (q_rows q))
      (map (\<lambda>i. (fi_kind i, stored_payload (fi_payload i), fi_created i)) (map row_fifo (q_rows q)))"
    unfolding in_orderD(4) [OF assms] fifo_list_def by simp
  also have "\<dots> = map told (map row_item (q_rows q))"
    by (simp add: zip_map_map zip_same_conv_map told_def row_item_def)
  finally show ?thesis by (simp only: sort)
qed

lemma sql_limit_map: "sql_limit n (map f xs) = map f (sql_limit n xs)"
  by (simp add: sql_limit_def take_map)

lemma reads_in_order:
  assumes "in_order mb ma q"
  shows "queue_reply (PeekAll now n) q = fifo_answer mb ma (PeekAll now n) (fifo_of q)"
    "queue_reply (Peek now knd n) q = fifo_answer mb ma (Peek now knd n) (fifo_of q)"
    "queue_reply (Summarize now) q = fifo_answer mb ma (Summarize now) (fifo_of q)"
proof -
  let ?q1 = "expire_stale_queue now q"
  note q1 = expire_in_order [OF assms, of now]
  show "queue_reply (PeekAll now n) q = fifo_answer mb ma (PeekAll now n) (fifo_of q)"
    unfolding fifo_answer.simps q1(2) [symmetric] listed [OF q1(1), symmetric]
    by (simp add: peek_all_def sql_limit_map Let_def)
  have "map told (map row_item (sort_key row_sequence (filter (\<lambda>r. row_kind r = knd) (q_rows ?q1)))) =
      filter (\<lambda>(_, k', _). k' = knd) (map told (map row_item (sort_key row_sequence (q_rows ?q1))))"
    by (simp add: filter_sort [symmetric] filter_map comp_def told_def row_item_def)
  then show "queue_reply (Peek now knd n) q = fifo_answer mb ma (Peek now knd n) (fifo_of q)"
    unfolding fifo_answer.simps q1(2) [symmetric] listed [OF q1(1)]
    by (simp add: peek_def sql_limit_map [symmetric] Let_def)
  have seqs: "row_sequence ` set (q_rows ?q1) =
      {acknowledged_sequence ?q1 + 1..acknowledged_sequence ?q1 + depth ?q1}"
    using arg_cong [OF in_orderD(4) [OF q1(1)], of set] in_order_depth [OF q1(1)] by simp
  have ends_of: "Min {m + 1..m + k} = m + 1" "Max {m + 1..m + k} = m + k" if "0 < k" for m k :: int
    using that by (auto intro: Min_eqI Max_eqI)
  have figures: "Figures (depth ?q1) b (if {t + 1..t + depth ?q1} = {} then 0 else Min {t + 1..t + depth ?q1})
      (if {t + 1..t + depth ?q1} = {} then 0 else Max {t + 1..t + depth ?q1}) d =
    Figures (depth ?q1) b (if depth ?q1 = 0 then 0 else t + 1) (if depth ?q1 = 0 then 0 else t + depth ?q1) d"
    for b t d
  proof (cases "0 < depth ?q1")
    case True
    then have "{t + 1..t + depth ?q1} \<noteq> {}" "depth ?q1 \<noteq> 0" by (simp_all add: Suc_le_eq)
    then show ?thesis by (simp only: ends_of [OF True] if_False)
  qed simp
  show "queue_reply (Summarize now) q = fifo_answer mb ma (Summarize now) (fifo_of q)"
    unfolding fifo_answer.simps q1(2) [symmetric] queue_reply.simps summary_def Let_def fst_conv seqs
      in_order_bytes [OF q1(1), symmetric] queue_summary.simps fifo_of_simps length_map
    by (rule figures)
qed

lemma marks_in_order:
  assumes "in_order mb ma q"
  shows "in_order mb ma (mark_delivery_attempted now ns q)" "fifo_of (mark_delivery_attempted now ns q) = fifo_of q"
    "in_order mb ma (mark_pending_delivery_uncertain now q)"
    "fifo_of (mark_pending_delivery_uncertain now q) = fifo_of q"
    "in_order mb ma (mark_reconciliation_queued q)" "fifo_of (mark_reconciliation_queued q) = fifo_of q"
    "in_order mb ma (reopen q)" "fifo_of (reopen q) = fifo_of q"
proof -
  have age: "q_max_age_seconds (mark_delivery_attempted now ns q) = q_max_age_seconds q"
    "q_max_age_seconds (mark_pending_delivery_uncertain now q) = q_max_age_seconds q"
    "q_max_age_seconds (reopen q) = q_max_age_seconds q"
    by (simp_all add: mark_delivery_attempted_def mark_pending_delivery_uncertain_def reopen_def
        initialize_def Let_def)
  have sizes: "list_all (\<lambda>r. row_bytes r = payload_bytes (row_payload r)) (q_rows (mark_delivery_attempted now ns q))"
    "list_all (\<lambda>r. row_bytes r = payload_bytes (row_payload r)) (q_rows (mark_pending_delivery_uncertain now q))"
    "list_all (\<lambda>r. row_bytes r = payload_bytes (row_payload r)) (q_rows (reopen q))"
    using in_orderD(5) [OF assms]
    by (auto simp: mark_delivery_attempted_def mark_pending_delivery_uncertain_def reopen_def
        initialize_def queue_file_def list_all_iff Let_def)
  have items: "map row_fifo (q_rows (mark_delivery_attempted now ns q)) = map row_fifo (q_rows q)"
    "map row_fifo (q_rows (mark_pending_delivery_uncertain now q)) = map row_fifo (q_rows q)"
    "map row_fifo (q_rows (reopen q)) = map row_fifo (q_rows q)"
    by (auto simp: mark_delivery_attempted_def mark_pending_delivery_uncertain_def reopen_def
        initialize_def queue_file_def row_fifo_def Let_def)
  show "in_order mb ma (mark_delivery_attempted now ns q)" "in_order mb ma (mark_pending_delivery_uncertain now q)"
    "in_order mb ma (reopen q)" "in_order mb ma (mark_reconciliation_queued q)"
    using in_orderD(1-4) [OF assms] in_orderD(5) [OF assms] sizes
    by (simp_all only: in_order_def mark_frame reopen_effect age)
      (simp_all add: mark_reconciliation_queued_def)
  show "fifo_of (mark_delivery_attempted now ns q) = fifo_of q"
    "fifo_of (mark_pending_delivery_uncertain now q) = fifo_of q"
    "fifo_of (reopen q) = fifo_of q" "fifo_of (mark_reconciliation_queued q) = fifo_of q"
    by (simp_all only: fifo_of_def items mark_frame reopen_effect) (simp add: mark_reconciliation_queued_def)
qed

lemmas operations_in_order = expire_in_order enqueue_in_order acknowledge_in_order synchronize_in_order
  reads_in_order marks_in_order

interpretation fifo: simulation queue_step connector_op "in_order mb ma" "fifo_step mb ma" fifo_of
  for mb ma
proof
  fix op q
  assume op: "connector_op op" and q: "in_order mb ma q"
  show "in_order mb ma (queue_step op q)"
    using op by (cases op) (simp_all add: operations_in_order [OF q] peek_def peek_all_def summary_def connector_op_def Let_def)
  show "fifo_of (queue_step op q) = fifo_step mb ma op (fifo_of q)"
    using op by (cases op) (simp_all add: operations_in_order [OF q] peek_def peek_all_def summary_def connector_op_def Let_def)
qed

lemma reply_in_order:
  assumes "in_order mb ma q"
  shows "queue_reply op q = fifo_answer mb ma op (fifo_of q)"
proof -
  note answers = enqueue_in_order(3) [OF assms] synchronize_in_order(3) [OF assms] reads_in_order [OF assms]
  show ?thesis by (cases op) (simp_all only: answers queue_reply.simps(6-11) fifo_answer.simps(6-11))
qed

text \<open>
  C4: the SQLite queue is a first-in first-out queue with implicit numbers. Whatever calls the
  connector made since the file was new, reopening it included, the rows are the items a plain list
  would hold after the same calls, the acknowledged cursor is the number its front follows on and
  the counter is what it lost; and the next call is answered as the list answers it: what a peek
  tells (numbers, kinds, payloads, times, in that order and up to the limit), what number an
  enqueued item gets and whether there is room for it, whether synchronizing gives the queue up,
  and the figures of the summary.
\<close>

theorem queue_is_a_fifo:
  assumes "list_all connector_op ops"
  shows "fifo_of (fold queue_step ops (new_queue mb ma)) = fold (fifo_step mb ma) ops fifo_new \<and>
    queue_reply op (fold queue_step ops (new_queue mb ma)) =
      fifo_answer mb ma op (fold (fifo_step mb ma) ops fifo_new)"
proof -
  have new: "in_order mb ma (new_queue mb ma)" "fifo_of (new_queue mb ma) = fifo_new"
    by (simp_all add: in_order_def fifo_of_def fifo_new_def new_queue_state)
  show ?thesis
    using fifo.run_abs [OF assms new(1)] reply_in_order [OF fifo.run_inv [OF assms new(1)]] new(2)
    by simp
qed

theorem queue_is_a_fifo_witness:
  "queue_reply (PeekAll 3 1) (fold queue_step [Enqueue 1 ''event'' [], Enqueue 2 ''event'' [], Acknowledge 1]
     (new_queue 10 60)) = Listed [(2, ''event'', [], 2)] \<and>
   list_all connector_op [Enqueue 1 ''event'' [], Enqueue 2 ''event'' [], Acknowledge 1]"
proof -
  have ops: "list_all connector_op [Enqueue 1 ''event'' [], Enqueue 2 ''event'' [], Acknowledge 1]"
    by (simp add: connector_op_def)
  have "fifo_answer 10 60 (PeekAll 3 1) (fold (fifo_step 10 60)
      [Enqueue 1 ''event'' [], Enqueue 2 ''event'' [], Acknowledge 1] fifo_new) = Listed [(2, ''event'', [], 2)]"
    by code_simp
  with queue_is_a_fifo [OF ops, of 10 60 "PeekAll 3 1"] ops show ?thesis by simp
qed

end
