(* ===== verification/Spec2Isabelle.thy ===== *)
theory Spec2Isabelle
  imports Composition Queue_Fifo
begin
text \<open>
  The Home Assistant hub connector of ZedIoT (package \<open>zediot_ha_hub_connector\<close> under
  \<open>src/src/\<close>) stands between one Home Assistant and IoT Core. It enrolls or activates itself,
  holds a leased session with Core, queues the state changes and the inventory of the home and
  uploads them in order, carries out commands, and runs rule packages signed by Core locally.

  \<^bold>\<open>Which theory models which part.\<close> Definitions keep the names of the code where they can.

  \<^item> \<open>Prelude\<close>: Python's exceptions as the datatype \<open>exn\<close>; \<open>('s, 'a) eff\<close>, a computation that
    threads a state and returns or raises (\<open>seq\<close>, \<open>catch\<close>, \<open>try_except\<close>, \<open>zoom\<close> onto a
    part of the state); the locales the other theories interpret: \<open>frame_condition\<close> (a relation
    between the states before and after that every step keeps), \<open>invariant_system\<close>,
    \<open>simulation\<close>, \<open>weighted_system\<close>, \<open>at_most_once\<close>, \<open>capped_doubling\<close> (\<open>Uplink\<close> and \<open>Bootstrap\<close> extend the
    first by \<open>upload_frame\<close> and \<open>startup_frame\<close>: what an upload and what start-up keep).
  \<^item> \<open>Py_Values\<close>: the values of \<open>json.loads\<close>, truthiness, \<open>==\<close>, \<open>str\<close>, \<open>int\<close>,
    \<open>json.dumps\<close>. \<open>Timestamps\<close>: times as microseconds, their ISO text.
  \<^item> \<open>Reliability\<close> (\<open>reliability.py\<close>), \<open>Uplink_Queue\<close> (\<open>queue.py\<close>), \<open>Event_Identity\<close>
    (\<open>event_identity.py\<close>), \<open>Rule_Package\<close> (\<open>rule_package.py\<close>), \<open>Rule_Store\<close>
    (\<open>rule_store.py\<close>), \<open>Rule_Condition\<close> and \<open>Rule_Runtime\<close> (\<open>rule_runtime.py\<close>), \<open>Ha_Client\<close>
    (\<open>ha_client.py\<close>), \<open>Command_Store\<close> (\<open>command_store.py\<close>), \<open>Command_Executor\<close>
    (\<open>command_executor.py\<close>), \<open>Core_Client\<close> (\<open>core_client.py\<close>), \<open>Identity\<close> (\<open>identity.py\<close>),
    \<open>Snapshot\<close> (\<open>snapshot.py\<close>), \<open>Config\<close> (\<open>config.py\<close>): one module each, a record for what the
    module keeps (a SQLite file is a record of its tables) and one definition per method.
  \<^item> \<open>Queue_Fifo\<close>: what the queue promises without tables and keys, a list of items and a count of
    those taken, and the proof that the methods of \<open>Uplink_Queue\<close> implement it, answers included.
  \<^item> \<open>runtime.py\<close> is split by subject. \<open>Connector\<close>: the record \<open>connector\<close> that holds all the
    parts as \<open>HubConnectorRuntime\<close> does, time and the stop event, sessions and their recovery.
    \<open>Uplink\<close>: \<open>enqueue_event\<close>, \<open>enqueue_snapshot\<close>, \<open>flush_once\<close>. \<open>Downlink\<close>: commands, rule
    packages and controls, evidence. \<open>Bootstrap\<close>: \<open>prepare\<close> with its three ways to a session.
    \<open>Threads\<close>: the body of every thread's loop and \<open>run_forever\<close> up to the start of the
    threads. \<open>Startup\<close> and \<open>First_Start\<close> hold the theorems on \<open>prepare\<close>.
  \<^item> \<open>Composition\<close>: the process as a step relation (\<open>process_step\<close>): it starts, a thread takes a
    round, time passes, a signal asks it to stop, it stops. This theory states what holds in every
    reachable state.

  \<^bold>\<open>What the lemmas show.\<close> Each component theory proves its operations against what the module
  promises: the queue never has a gap in the numbers Core expects, counts every item and stays within
  its bytes; the stores keep one row per key; conditions, packages and commands are checked before
  anything acts; a rule and a command act at most once; what is reported as done was sent; what
  leaves the queue is what Core's answer acknowledged;
  configurations are in range; the identity survives restarts and crashes. \<open>Composition\<close> shows once
  for every method that it acts on each part through that part's operations only (\<open>conforms\<close>), so
  the theorems of a part carry over to every sequence of rounds of the threads. Some theorems describe
  defects of the code as it is: \<open>concurrent_enqueue_loses_item\<close>, \<open>concurrent_expiry_leaves_gap\<close>,
  \<open>failed_readback_repeats_the_call\<close>, \<open>failed_rebind_is_not_retried\<close>,
  \<open>broken_handshake_leaks_the_socket\<close>, \<open>unverifiable_package_stops_every_event\<close>,
  \<open>key_is_readable_while_written\<close>, \<open>any_key_passes_under_a_trusted_identifier\<close>.

  \<^bold>\<open>Parameters.\<close> Packages outside the repository are arguments: the peer of the WebSocket
  (a script of what each \<open>recv\<close> gives, with the times it is entered and left), the HTTP peer (any
  function of the requests so far), Ed25519, SHA-256, key generation, \<open>datetime.fromisoformat\<close>, \<open>float\<close> of a text, \<open>Path.resolve\<close>, a
  random number per draw, the clock's drift per reading, and the text of a library's error.

  \<^bold>\<open>Bounds and fuel.\<close> The three loops of the start (\<open>connect_loop\<close>, \<open>unavailable_loop\<close>,
  \<open>provision_loop\<close>) end only when Core relents or a stop is requested; they take the fuel
  \<open>ne_fuel\<close> and raise \<open>NoFuel\<close>, which no handler of the code catches, when it is used up.
  \<open>prepare_ends_after_stop\<close> shows that for a stop at \<open>T\<close> one round per second up to \<open>T\<close> is enough.
  Every other loop is structural or has a measure: retries by the attempts left, reading from Home
  Assistant by the peer's script, the readback by its deadline.

  \<^bold>\<open>Not modelled.\<close> Logging, \<open>main.py\<close> (signals and log set-up) and \<open>identifiers.py\<close>
  (constants) have no state of their own. The rounds of two threads do not overlap here, except
  in \<open>Uplink_Queue\<close>, where an enqueue is also split into the halves its two statements make; an
  overlap elsewhere, such as a recovery that is in flight while the process disconnects, is
  outside the step relation. The theorems on reachable states speak of such whole rounds. Writing
  the key file is one step between its creation and its renaming: a temporary file that is only
  partly written, and data not yet on the disk, do not occur; the mode the installation id's file
  gets is left out. SQLite is what its statements do to the tables, without failures of
  the file; a claim code file that cannot be removed is not considered. The Python integers and
  texts are unbounded, so no machine words occur.
\<close>

section \<open>The connector as a whole\<close>

text \<open>
  C1: taken one round at a time, the connector leaves no gap in its queue: whatever the order in
  which the threads' rounds, signals and the stop come, whatever Core and Home Assistant answer and
  however rounds fail, a process that started with a queue without a gap holds in every state the
  numbers right after the cursor Core acknowledged, without a gap up to the next one. This is about
  whole rounds: what an enqueue does when it overlaps a second one or an expiry of another thread
  is \<open>concurrent_enqueue_loses_item\<close> and \<open>concurrent_expiry_leaves_gap\<close>.
\<close>

theorem reachable_queue_has_no_gap:
  assumes "reachable env p0 p" "pending_block (cn_queue (pc_state p0))"
  shows "sort (pending (cn_queue (pc_state p))) =
    [acknowledged_sequence (cn_queue (pc_state p)) + 1..next_sequence (cn_queue (pc_state p)) - 1]"
proof -
  obtain ops where "list_all connector_op ops"
    "cn_queue (pc_state p) = fold queue_step ops (cn_queue (pc_state p0))"
    using reachable_conforms [OF assms(1)] by (auto simp: conforms_def queue_run_def)
  then show ?thesis using blk.run_inv assms(2) by (simp add: pending_block_sorted)
qed

text \<open>
  C2: the connector only ever switches lights: in every reachable state, whatever commands,
  packages and events it was given, what it has asked Home Assistant to do since it started is
  \<open>turn_on\<close> and \<open>turn_off\<close> of domain \<open>light\<close>, each on one entity of that domain.
\<close>

theorem connector_only_switches_lights:
  assumes "reachable env p0 p"
  shows "\<exists>fs. calls_sent (cn_ha (pc_state p)) = calls_sent (cn_ha (pc_state p0)) @ fs \<and> list_all light_frame fs"
  using reachable_conforms [OF assms] by (simp add: conforms_def lights_sent_def)

text \<open>
  C3: in every reachable state, every request the connector has sent went to the configured Core,
  and the bearer token went only to session endpoints there.
\<close>

theorem connector_keeps_the_token:
  assumes "reachable env p0 p" "cc_log (cn_core (pc_state p0)) = []"
  shows "list_all (token_confined (cc_base_url (cn_core (pc_state p0)))) (cc_log (cn_core (pc_state p)))"
  using reachable_conforms [OF assms(1)] assms(2) by (auto simp: conforms_def sends_def)

text \<open>
  The fields of the circuit breaker agree in every reachable state.
\<close>

theorem connector_keeps_the_breaker:
  assumes "reachable env p0 p" "breaker_inv (cn_breaker (pc_state p0))"
  shows "breaker_inv (cn_breaker (pc_state p))"
proof -
  obtain ops where "cn_breaker (pc_state p) = fold breaker_step ops (cn_breaker (pc_state p0))"
    using reachable_conforms [OF assms(1)] by (auto simp: conforms_def breaker_run_def)
  then show ?thesis using cb.run_inv [of ops] assms(2) by (simp add: list_all_iff)
qed

text \<open>
  A stopped connector is silent. Once the process has stopped, in whatever way, it holds no
  session, and from then on it sends Core and Home Assistant nothing and leaves the queue, the
  rules and the receipts as they are, however late a signal comes.
\<close>

theorem stopped_connector_is_silent:
  assumes "reachable env p0 p" "pc_phase p0 \<noteq> Stopped" "pc_phase p = Stopped" "reachable env p p'"
  shows "cn_session (pc_state p') = None \<and> cn_core (pc_state p') = cn_core (pc_state p) \<and>
    cn_ha (pc_state p') = cn_ha (pc_state p) \<and> cn_queue (pc_state p') = cn_queue (pc_state p) \<and>
    cn_rules (pc_state p') = cn_rules (pc_state p) \<and> cn_receipts (pc_state p') = cn_receipts (pc_state p)"
proof -
  have "at_rest p" by (rule reachable_at_rest [OF assms(1)]) (use assms(2) in \<open>simp add: at_rest_def\<close>)
  then have rest: "at_rest p'" by (rule reachable_at_rest [OF assms(4)])
  have stays: "pc_phase p' = Stopped" using stopped_stays [OF assms(4,3)] by (rule conjunct1)
  then have "cn_session (pc_state p') = None" using rest by (simp only: at_rest_def simp_thms)
  then show ?thesis using conjunct2 [OF stopped_stays [OF assms(4,3)]] by (rule conjI)
qed

section \<open>Witnesses\<close>

text \<open>
  A connector that lost its session while its command thread runs: one round fails and pauses.
\<close>

definition sample_process :: process where
  "sample_process = \<lparr>pc_state = sample_connector, pc_phase = Running, pc_threads = [Command, Maintenance],
     pc_last = 0\<rparr>"

definition sample_process_later :: process where
  "sample_process_later = sample_process\<lparr>pc_state := snd (command_round (sample_connector_env []) sample_connector)\<rparr>"

lemma sample_reachable: "reachable (sample_connector_env []) sample_process sample_process_later"
proof -
  have run: "thread_round (sample_connector_env []) Command 0 sample_connector =
      (Inr 0, snd (command_round (sample_connector_env []) sample_connector))"
    by (simp add: thread_round_def command_round_def with_recovery_def process_commands_once_def ready_def
        try_except_def eff_simps pause_def sample_connector_def)
  have "process_step (sample_connector_env []) sample_process
      (sample_process\<lparr>pc_state := snd (command_round (sample_connector_env []) sample_connector), pc_last := 0\<rparr>)"
    by (rule process_step.thread [of _ Command]) (simp_all add: sample_process_def run)
  then have "process_step (sample_connector_env []) sample_process sample_process_later"
    by (simp add: sample_process_later_def sample_process_def)
  then show ?thesis by (rule reachable.step [OF reachable.initial])
qed

theorem reachable_queue_has_no_gap_witness:
  "sort (pending (cn_queue (pc_state sample_process_later))) =
    [acknowledged_sequence (cn_queue (pc_state sample_process_later)) + 1..
     next_sequence (cn_queue (pc_state sample_process_later)) - 1]"
  by (rule reachable_queue_has_no_gap [OF sample_reachable])
    (simp add: sample_process_def sample_connector_def pending_block_new)

theorem connector_only_switches_lights_witness:
  "\<exists>fs. calls_sent (cn_ha (pc_state sample_process_later)) = fs \<and> list_all light_frame fs"
  using connector_only_switches_lights [OF sample_reachable]
  by (simp add: sample_process_def sample_connector_def sample_world_def calls_sent_def)

theorem connector_keeps_the_token_witness:
  "list_all (token_confined ''https://core'') (cc_log (cn_core (pc_state sample_process_later)))"
  using connector_keeps_the_token [OF sample_reachable]
  by (simp add: sample_process_def sample_connector_def core_client_init_def rstrip_slashes_def)

theorem connector_keeps_the_breaker_witness:
  "breaker_inv (cn_breaker (pc_state sample_process_later))"
  by (rule connector_keeps_the_breaker [OF sample_reachable])
    (simp add: sample_process_def sample_connector_def breaker_inv_new)

text \<open>The same process, told to stop\<close>

definition sample_told :: process where
  "sample_told = sample_process\<lparr>pc_state := snd (request_stop ''host'' sample_connector)\<rparr>"

definition sample_stopped :: process where
  "sample_stopped = sample_told\<lparr>pc_state := snd (stop_everything (sample_connector_env []) (pc_state sample_told)),
     pc_phase := Stopped\<rparr>"

lemma sample_stops: "reachable (sample_connector_env []) sample_process sample_stopped"
proof -
  have "pc_state sample_process = sample_connector" by (simp add: sample_process_def)
  then have told: "process_step (sample_connector_env []) sample_process sample_told"
    using process_step.signal [of "sample_connector_env []" sample_process "''host''"] by (simp add: sample_told_def)
  have "process_step (sample_connector_env []) sample_told sample_stopped"
    unfolding sample_stopped_def
    by (rule process_step.stop) (simp_all add: sample_told_def sample_process_def request_stop_def modify_def stopping_def)
  then show ?thesis by (rule reachable.step [OF reachable.step [OF reachable.initial told]])
qed

theorem stopped_connector_is_silent_witness:
  "cn_session (pc_state (sample_stopped\<lparr>pc_state := (pc_state sample_stopped)\<lparr>cn_now := 5\<rparr>\<rparr>)) = None"
proof -
  have "cn_now (pc_state sample_stopped) \<le> 5"
    by (simp add: sample_stopped_def sample_told_def stop_everything_def disconnect_def request_stop_def
        eff_simps sample_connector_def)
  then have "process_step (sample_connector_env []) sample_stopped
      (sample_stopped\<lparr>pc_state := (pc_state sample_stopped)\<lparr>cn_now := 5\<rparr>\<rparr>)"
    by (rule process_step.time_passes)
  from stopped_connector_is_silent [OF sample_stops _ _ reachable.step [OF reachable.initial this]]
  show ?thesis by (simp add: sample_process_def sample_stopped_def)
qed

end
